(* ===== verification/Prelude.thy ===== *)
theory Prelude
  imports Main "HOL-Library.Word" "HOL-Library.Sublist" "HOL-Library.Char_ord"
    "HOL-Library.List_Lexorder"
begin

text \<open>
  Shared vocabulary of the development: the ways a C++ operation of webrtc-streamer can
  fail (\<open>err\<close>, \<open>res\<close>, \<open>rbind\<close>), 32-bit \<open>int\<close> arithmetic with its
  undefined cases, the members of \<open>std::string\<close>, \<open>std::istringstream\<close> and
  \<open>std::map\<close> that the sources use, the number conversions \<open>std::stoi\<close>,
  \<open>atoi\<close> and \<open>std::to_string\<close>, and the interface locale of the ordered map
  with its interpretation. These model the C++ language and its standard library, not code
  of the repository, so nothing here has a source line of its own.
\<close>

named_theorems cpp_simps \<open>defining equations of the standard library members\<close>
named_theorems res_elims \<open>inversion of successful results\<close>

section \<open>Failures\<close>

text \<open>
  Every exception that leaves a function and every undefined behaviour of the language is a
  constructor: an exception thrown below a civetweb or WebRTC callback is caught nowhere, so
  both end the process and there is no later state to speak of.
\<close>

datatype err =
    InvalidArgument \<comment> \<open>\<open>std::invalid_argument\<close>, thrown by \<open>std::stoi\<close>\<close>
  | StdOutOfRange \<comment> \<open>\<open>std::out_of_range\<close>, thrown by \<open>std::stoi\<close> and \<open>substr\<close>\<close>
  | JsonLogicError \<comment> \<open>\<open>Json::LogicError\<close>\<close>
  | JsonRuntimeError \<comment> \<open>\<open>Json::RuntimeError\<close>, thrown by the JSON reader of a stream\<close>
  | BadArrayLength \<comment> \<open>\<open>std::bad_array_new_length\<close>\<close>
  | NullDeref \<comment> \<open>access through a null pointer\<close>
  | UseAfterFree \<comment> \<open>access through a deleted object\<close>
  | OutOfBounds \<comment> \<open>access outside a buffer\<close>
  | SignedOverflow \<comment> \<open>overflow of a signed integer\<close>
  | CheckFailed \<comment> \<open>a failed \<open>RTC_CHECK\<close>, which aborts\<close>
  | DivByZero \<comment> \<open>integer division by zero\<close>
  | Terminates \<comment> \<open>\<open>std::terminate\<close>: an exception leaves a destructor, a running thread is dropped\<close>
  | Undefined \<comment> \<open>any other undefined behaviour of the library\<close>

type_synonym 'a res = "err + 'a"

definition rbind :: "'a res \<Rightarrow> ('a \<Rightarrow> 'b res) \<Rightarrow> 'b res" where
  "rbind m f = (case m of Inl e \<Rightarrow> Inl e | Inr x \<Rightarrow> f x)"

lemma rbind_Inl [simp]: "rbind (Inl e) f = Inl e"
  by (simp add: rbind_def)

lemma rbind_Inr [simp]: "rbind (Inr x) f = f x"
  by (simp add: rbind_def)

lemma rbind_eq_Inr_iff: "rbind m f = Inr y \<longleftrightarrow> (\<exists>x. m = Inr x \<and> f x = Inr y)"
  by (cases m) simp_all

lemma rbind_InrE [elim!, res_elims]:
  assumes "rbind m f = Inr y"
  obtains x where "m = Inr x" and "f x = Inr y"
  using assms by (auto simp: rbind_eq_Inr_iff)

lemma rbind_assoc: "rbind (rbind m f) g = rbind m (\<lambda>x. rbind (f x) g)"
  by (cases m) simp_all

lemma rbind_cong [fundef_cong]:
  "m = m' \<Longrightarrow> (\<And>x. m' = Inr x \<Longrightarrow> f x = g x) \<Longrightarrow> rbind m f = rbind m' g"
  by (cases m') simp_all

section \<open>Machine integers\<close>

definition int_min :: int where "int_min = - (2 ^ 31)"
definition int_max :: int where "int_max = 2 ^ 31 - 1"

definition in_int :: "int \<Rightarrow> bool" where
  "in_int x \<longleftrightarrow> int_min \<le> x \<and> x \<le> int_max"

text \<open>The result of an operation on \<open>int\<close>: its value, or undefined when it overflows.\<close>

definition cint :: "int \<Rightarrow> int res" where
  "cint x = (if in_int x then Inr x else Inl SignedOverflow)"

lemma cint_eq_Inr_iff [simp]: "cint x = Inr y \<longleftrightarrow> in_int x \<and> y = x"
  by (auto simp: cint_def)

lemma in_int_nonneg: "0 \<le> x \<Longrightarrow> in_int x \<longleftrightarrow> x \<le> int_max"
  by (auto simp: in_int_def int_min_def)

lemma in_int_bounds: "in_int x \<Longrightarrow> - 2147483648 \<le> x \<and> x \<le> 2147483647"
  by (simp add: in_int_def int_min_def int_max_def)

text \<open>C++ integer division truncates towards zero and is undefined at zero.\<close>

definition cdiv :: "int \<Rightarrow> int \<Rightarrow> int res" where
  "cdiv a b = (if b = 0 then Inl DivByZero else cint (sgn a * sgn b * (\<bar>a\<bar> div \<bar>b\<bar>)))"

lemma cdiv_nonneg:
  assumes "0 \<le> a" and "0 < b" and "in_int a"
  shows "cdiv a b = Inr (a div b)"
proof -
  have "a div b \<le> a" using zdiv_mono2 [of a 1 b] assms(1,2) by simp
  moreover have "0 \<le> a div b" using assms(1,2) by (simp add: pos_imp_zdiv_nonneg_iff)
  moreover have "sgn a * sgn b * (\<bar>a\<bar> div \<bar>b\<bar>) = a div b"
    using assms(1,2) by (cases "a = 0") (simp_all add: sgn_if)
  ultimately show ?thesis
    using assms by (auto simp: cdiv_def cint_def in_int_def int_min_def)
qed

section \<open>std::string\<close>

text \<open>\<open>s.find(sub)\<close>: the first position where \<open>sub\<close> occurs, \<open>None\<close> for \<open>npos\<close>.\<close>

fun str_find :: "string \<Rightarrow> string \<Rightarrow> nat option" where
  "str_find sub [] = (if sub = [] then Some 0 else None)"
| "str_find sub (c # cs) =
     (if prefix sub (c # cs) then Some 0 else map_option Suc (str_find sub cs))"

definition starts_with :: "string \<Rightarrow> string \<Rightarrow> bool" where
  "starts_with s pre \<longleftrightarrow> str_find pre s = Some 0"

lemma starts_with_iff_prefix: "starts_with s pre \<longleftrightarrow> prefix pre s"
  by (cases s) (auto simp: starts_with_def)

text \<open>\<open>s.find_first_of(cs)\<close>: the first position of a character of \<open>cs\<close>.\<close>

fun find_first_of :: "char list \<Rightarrow> string \<Rightarrow> nat option" where
  "find_first_of cs [] = None"
| "find_first_of cs (x # xs) = (if x \<in> set cs then Some 0 else map_option Suc (find_first_of cs xs))"

lemma find_first_of_None_iff: "find_first_of cs s = None \<longleftrightarrow> set s \<inter> set cs = {}"
  by (induction s) auto

lemma find_first_of_append:
  "set p \<inter> set cs = {} \<Longrightarrow> c \<in> set cs \<Longrightarrow> find_first_of cs (p @ c # q) = Some (length p)"
  by (induction p) auto

lemma find_first_of_less: "find_first_of cs s = Some i \<Longrightarrow> i < length s"
  by (induction s arbitrary: i) (auto split: if_splits)

text \<open>\<open>s.rfind(c)\<close>: the last position of a character.\<close>

fun rfind :: "char \<Rightarrow> string \<Rightarrow> nat option" where
  "rfind c [] = None"
| "rfind c (x # xs) =
     (case rfind c xs of Some i \<Rightarrow> Some (Suc i) | None \<Rightarrow> if x = c then Some 0 else None)"

lemma rfind_None_iff: "rfind c s = None \<longleftrightarrow> c \<notin> set s"
  by (induction s) (auto split: option.splits)

lemma rfind_append: "c \<notin> set q \<Longrightarrow> rfind c (p @ c # q) = Some (length p)"
  by (induction p) (auto simp: rfind_None_iff split: option.splits)

lemma rfind_less: "rfind c s = Some i \<Longrightarrow> i < length s"
  by (induction s arbitrary: i) (auto split: option.splits if_splits)

text \<open>\<open>s.substr(pos)\<close> throws when \<open>pos\<close> is past the end.\<close>

definition substr_from :: "string \<Rightarrow> nat \<Rightarrow> string res" where
  "substr_from s pos = (if pos \<le> length s then Inr (drop pos s) else Inl StdOutOfRange)"

lemma substr_from_ok [simp]: "pos \<le> length s \<Longrightarrow> substr_from s pos = Inr (drop pos s)"
  by (simp add: substr_from_def)

lemmas [cpp_simps] = starts_with_def substr_from_def

section \<open>std::istringstream\<close>

text \<open>
  A string stream is what is left to read and whether its state is good. \<open>getline\<close> takes
  the old value of its string argument, because that is left alone when the stream is not
  good; reading up to the end of input sets the eof bit without failing.
\<close>

record istream =
  is_rest :: string
  is_good :: bool

definition istringstream :: "string \<Rightarrow> istream" where
  "istringstream s = \<lparr>is_rest = s, is_good = True\<rparr>"

definition getline :: "char \<Rightarrow> istream \<Rightarrow> string \<Rightarrow> bool \<times> string \<times> istream" where
  "getline d st old =
     (if \<not> is_good st then (False, old, st)
      else if is_rest st = [] then (False, [], st\<lparr>is_good := False\<rparr>)
      else (True, takeWhile (\<lambda>c. c \<noteq> d) (is_rest st),
            \<lparr>is_rest = tl (dropWhile (\<lambda>c. c \<noteq> d) (is_rest st)),
             is_good = (d \<in> set (is_rest st))\<rparr>))"

lemma getline_shorter:
  "getline d st old = (True, s, st') \<Longrightarrow> length (is_rest st') < length (is_rest st)"
proof -
  assume "getline d st old = (True, s, st')"
  then have "is_rest st \<noteq> []" and "is_rest st' = tl (dropWhile (\<lambda>c. c \<noteq> d) (is_rest st))"
    by (auto simp: getline_def split: if_splits)
  moreover have "length (dropWhile (\<lambda>c. c \<noteq> d) (is_rest st)) \<le> length (is_rest st)"
    by (rule length_dropWhile_le)
  ultimately show ?thesis
    by (cases "dropWhile (\<lambda>c. c \<noteq> d) (is_rest st)") auto
qed

lemma getline_not_good: "\<not> is_good st \<Longrightarrow> getline d st old = (False, old, st)"
  by (simp add: getline_def)

lemma getline_delim:
  "d \<notin> set p \<Longrightarrow>
   getline d \<lparr>is_rest = p @ d # q, is_good = True\<rparr> old
     = (True, p, \<lparr>is_rest = q, is_good = True\<rparr>)"
  by (simp add: getline_def takeWhile_tail dropWhile_append)

lemma getline_last:
  "d \<notin> set p \<Longrightarrow> p \<noteq> [] \<Longrightarrow>
   getline d \<lparr>is_rest = p, is_good = True\<rparr> old
     = (True, p, \<lparr>is_rest = [], is_good = False\<rparr>)"
proof -
  assume "d \<notin> set p" and "p \<noteq> []"
  moreover from this have "tl (dropWhile (\<lambda>c. c \<noteq> d) p) = tl []"
    by (intro arg_cong [where f = tl]) auto
  ultimately show ?thesis by (auto simp: getline_def takeWhile_eq_all_conv)
qed

lemma getline_fail_good:
  "getline d st old = (False, s, st') \<Longrightarrow> \<not> is_good st'"
  by (auto simp: getline_def split: if_splits)

text \<open>The lines of \<open>while (std::getline(is, str))\<close>.\<close>

function read_lines :: "istream \<Rightarrow> string list" where
  "read_lines st =
     (case getline (CHR 0x0A) st [] of
        (ok, s, st') \<Rightarrow> if ok then s # read_lines st' else [])"
  by pat_completeness auto
termination
  by (relation "measure (\<lambda>st. length (is_rest st))")
     (auto dest: getline_shorter [OF sym])

declare read_lines.simps [simp del]

text \<open>The words of \<open>while (iss >> token)\<close>; the second argument is the word being read.\<close>

definition is_space :: "char \<Rightarrow> bool" where
  "is_space c \<longleftrightarrow> c \<in> {CHR 0x20, CHR 0x09, CHR 0x0A, CHR 0x0B, CHR 0x0C, CHR 0x0D}"

fun words_from :: "string \<Rightarrow> string \<Rightarrow> string list" where
  "words_from [] w = (if w = [] then [] else [w])"
| "words_from (c # cs) w =
     (if is_space c then (if w = [] then words_from cs [] else w # words_from cs [])
      else words_from cs (w @ [c]))"

definition words :: "string \<Rightarrow> string list" where
  "words s = words_from s []"

fun join_spaces :: "string list \<Rightarrow> string" where
  "join_spaces [] = []"
| "join_spaces [w] = w"
| "join_spaces (w # v # ws) = w @ CHR 0x20 # join_spaces (v # ws)"

definition is_word :: "string \<Rightarrow> bool" where
  "is_word w \<longleftrightarrow> w \<noteq> [] \<and> (\<forall>c \<in> set w. \<not> is_space c)"

lemma words_from_word:
  "(\<forall>c \<in> set v. \<not> is_space c) \<Longrightarrow> words_from (v @ s) w = words_from s (w @ v)"
  by (induction v arbitrary: w) auto

lemma words_from_is_word:
  "(\<forall>c \<in> set w. \<not> is_space c) \<Longrightarrow> v \<in> set (words_from s w) \<Longrightarrow> is_word v"
proof (induction s w rule: words_from.induct)
  case (1 w)
  then show ?case by (auto simp: is_word_def split: if_splits)
next
  case (2 c cs w)
  show ?case
  proof (cases "is_space c")
    case True
    with 2 show ?thesis by (cases "w = []") (auto simp: is_word_def)
  next
    case False
    with 2 show ?thesis by auto
  qed
qed

lemma words_is_word: "v \<in> set (words s) \<Longrightarrow> is_word v"
  by (auto simp: words_def intro: words_from_is_word [of "[]"])

lemma words_join_spaces: "(\<forall>w \<in> set ws. is_word w) \<Longrightarrow> words (join_spaces ws) = ws"
proof (induction ws rule: join_spaces.induct)
  case 1
  then show ?case by (simp add: words_def)
next
  case (2 w)
  then have "words_from (w @ []) [] = [w]"
    by (subst words_from_word) (auto simp: is_word_def)
  then show ?case by (simp add: words_def)
next
  case (3 w v ws)
  then have "words_from (w @ CHR 0x20 # join_spaces (v # ws)) []
      = w # words_from (join_spaces (v # ws)) []"
    by (subst words_from_word) (auto simp: is_word_def is_space_def)
  with 3 show ?case by (simp add: words_def)
qed

section \<open>Numbers and strings\<close>

definition is_digit :: "char \<Rightarrow> bool" where
  "is_digit c \<longleftrightarrow> 48 \<le> (of_char c :: nat) \<and> (of_char c :: nat) \<le> 57"

fun dec_value :: "string \<Rightarrow> int \<Rightarrow> int" where
  "dec_value [] n = n"
| "dec_value (c # cs) n = dec_value cs (10 * n + (int (of_char c) - 48))"

text \<open>Leading white space, an optional sign and the longest run of digits, as \<open>strtol\<close> reads.\<close>

definition strtol10 :: "string \<Rightarrow> int option" where
  "strtol10 s =
     (let s1 = dropWhile is_space s;
          neg = (case s1 of c # _ \<Rightarrow> c = CHR ''-'' | [] \<Rightarrow> False);
          s2 = (case s1 of c # cs \<Rightarrow> if c = CHR ''-'' \<or> c = CHR ''+'' then cs else s1 | [] \<Rightarrow> []);
          ds = takeWhile is_digit s2
      in if ds = [] then None else Some (if neg then - dec_value ds 0 else dec_value ds 0))"

definition stoi :: "string \<Rightarrow> int res" where
  "stoi s = (case strtol10 s of None \<Rightarrow> Inl InvalidArgument
             | Some n \<Rightarrow> if in_int n then Inr n else Inl StdOutOfRange)"

text \<open>\<open>atoi\<close> never throws: no digits is 0 and a value outside \<open>int\<close> is undefined.\<close>

definition atoi :: "string \<Rightarrow> int res" where
  "atoi s = (case strtol10 s of None \<Rightarrow> Inr 0
             | Some n \<Rightarrow> if in_int n then Inr n else Inl Undefined)"

fun nat_string :: "nat \<Rightarrow> string" where
  "nat_string n = (if n < 10 then [char_of (48 + n)]
                   else nat_string (n div 10) @ [char_of (48 + n mod 10)])"

declare nat_string.simps [simp del]

definition to_string :: "int \<Rightarrow> string" where
  "to_string i = (if i < 0 then CHR ''-'' # nat_string (nat (- i)) else nat_string (nat i))"

lemma of_char_digit: "d < 10 \<Longrightarrow> of_char (char_of (48 + d) :: char) = (48 + d :: nat)"
  by simp

lemma is_digit_char_of: "d < 10 \<Longrightarrow> is_digit (char_of (48 + d :: nat))"
  by (simp add: is_digit_def)

lemma nat_string_digits: "c \<in> set (nat_string n) \<Longrightarrow> is_digit c"
  by (induction n rule: nat_string.induct)
     (subst (asm) (2) nat_string.simps, auto simp: is_digit_char_of split: if_splits)

lemma nat_string_nonempty: "nat_string n \<noteq> []"
  by (subst nat_string.simps) simp

lemma dec_value_append: "dec_value (s @ t) n = dec_value t (dec_value s n)"
  by (induction s arbitrary: n) auto

lemma dec_value_nat_string: "dec_value (nat_string n) 0 = int n"
proof (induction n rule: nat_string.induct)
  case (1 n)
  show ?case
  proof (cases "n < 10")
    case True
    then show ?thesis by (subst nat_string.simps) simp
  next
    case False
    with 1 have "dec_value (nat_string (n div 10)) 0 = int (n div 10)" by simp
    with False show ?thesis
      by (subst nat_string.simps) (simp add: dec_value_append zdiv_int zmod_int)
  qed
qed

lemma digit_not_space: "is_digit c \<Longrightarrow> \<not> is_space c \<and> c \<noteq> CHR ''-'' \<and> c \<noteq> CHR ''+''"
  by (auto simp: is_digit_def is_space_def)

lemma strtol10_nat_string: "strtol10 (nat_string n) = Some (int n)"
proof -
  obtain c cs where s: "nat_string n = c # cs"
    using nat_string_nonempty [of n] by (cases "nat_string n") auto
  then have "is_digit c" and all: "\<forall>x \<in> set (c # cs). is_digit x"
    using nat_string_digits [of _ n] by auto
  then have c: "\<not> is_space c \<and> c \<noteq> CHR ''-'' \<and> c \<noteq> CHR ''+''"
    using digit_not_space by blast
  have "takeWhile is_digit (c # cs) = c # cs"
    using all by (simp add: takeWhile_eq_all_conv)
  with c dec_value_nat_string [of n] show ?thesis
    unfolding s by (simp add: strtol10_def)
qed

lemma atoi_to_string: "0 \<le> i \<Longrightarrow> in_int i \<Longrightarrow> atoi (to_string i) = Inr i"
  by (simp add: atoi_def to_string_def strtol10_nat_string)

lemma stoi_to_string: "0 \<le> i \<Longrightarrow> in_int i \<Longrightarrow> stoi (to_string i) = Inr i"
  by (simp add: stoi_def to_string_def strtol10_nat_string)

lemma stoi_in_int: "stoi s = Inr n \<Longrightarrow> in_int n"
  by (auto simp: stoi_def split: option.splits if_splits)

lemma atoi_in_int: "atoi s = Inr n \<Longrightarrow> in_int n"
  by (auto simp: atoi_def in_int_def int_min_def int_max_def split: option.splits if_splits)

section \<open>std::map\<close>

text \<open>
  A \<open>std::map\<close> is its sequence of entries in key order. \<open>smap_insert\<close> is
  \<open>insert\<close>, which keeps an entry that is already there; \<open>smap_assign\<close> is
  \<open>m[k] = v\<close>, which overwrites it; \<open>smap_erase\<close> is \<open>erase\<close>.
\<close>

type_synonym ('k, 'v) smap = "('k \<times> 'v) list"

fun smap_assign :: "'k::linorder \<Rightarrow> 'v \<Rightarrow> ('k, 'v) smap \<Rightarrow> ('k, 'v) smap" where
  "smap_assign k v [] = [(k, v)]"
| "smap_assign k v (e # es) =
     (if k = fst e then (k, v) # es
      else if k < fst e then (k, v) # e # es
      else e # smap_assign k v es)"

definition smap_insert :: "'k::linorder \<Rightarrow> 'v \<Rightarrow> ('k, 'v) smap \<Rightarrow> ('k, 'v) smap" where
  "smap_insert k v m = (if map_of m k = None then smap_assign k v m else m)"

definition smap_erase :: "'k::linorder \<Rightarrow> ('k, 'v) smap \<Rightarrow> ('k, 'v) smap" where
  "smap_erase k m = filter (\<lambda>e. fst e \<noteq> k) m"

definition smap_keys :: "('k::linorder, 'v) smap \<Rightarrow> 'k list" where
  "smap_keys m = map fst m"

definition smap_ok :: "('k::linorder, 'v) smap \<Rightarrow> bool" where
  "smap_ok m \<longleftrightarrow> sorted_wrt (<) (smap_keys m)"

lemma smap_assign_keys: "set (smap_keys (smap_assign k v m)) = insert k (set (smap_keys m))"
  by (induction m) (auto simp: smap_keys_def)

lemma smap_ok_Nil [simp]: "smap_ok []"
  by (simp add: smap_ok_def smap_keys_def)

lemma smap_ok_Cons: "smap_ok (e # m) \<longleftrightarrow> (\<forall>k \<in> set (smap_keys m). fst e < k) \<and> smap_ok m"
  by (simp add: smap_ok_def smap_keys_def)

lemma smap_assign_ok [simp]: "smap_ok m \<Longrightarrow> smap_ok (smap_assign k v m)"
proof (induction m)
  case Nil
  then show ?case by (simp add: smap_ok_Cons smap_keys_def)
next
  case (Cons e m)
  then have "smap_ok m" and above: "\<forall>x \<in> set (smap_keys m). fst e < x"
    by (simp_all add: smap_ok_Cons)
  consider "k = fst e" | "k < fst e" | "fst e < k" by (rule linorder_cases) blast+
  then show ?case
  proof cases
    case 1
    with Cons.prems show ?thesis by (simp add: smap_ok_Cons)
  next
    case 2
    with Cons.prems above show ?thesis by (auto simp: smap_ok_Cons smap_keys_def)
  next
    case 3
    with above have "\<forall>x \<in> set (smap_keys (smap_assign k v m)). fst e < x"
      by (simp add: smap_assign_keys)
    with 3 Cons.IH \<open>smap_ok m\<close> show ?thesis by (auto simp: smap_ok_Cons)
  qed
qed

lemma smap_erase_ok [simp]: "smap_ok m \<Longrightarrow> smap_ok (smap_erase k m)"
  unfolding smap_ok_def smap_keys_def smap_erase_def
  by (simp add: sorted_wrt_map sorted_wrt_filter)

lemma smap_insert_ok [simp]: "smap_ok m \<Longrightarrow> smap_ok (smap_insert k v m)"
  by (simp add: smap_insert_def)

lemma map_of_smap_assign [simp]: "map_of (smap_assign k v m) = (map_of m)(k \<mapsto> v)"
  by (induction m) auto

lemma map_of_smap_insert:
  "map_of (smap_insert k v m) = (if map_of m k = None then (map_of m)(k \<mapsto> v) else map_of m)"
  by (simp add: smap_insert_def)

lemma map_of_smap_erase [simp]: "map_of (smap_erase k m) = (map_of m)(k := None)"
  unfolding smap_erase_def by (induction m) (auto simp: fun_eq_iff)

lemma smap_keys_dom: "set (smap_keys m) = dom (map_of m)"
  by (simp add: smap_keys_def dom_map_of_conv_image_fst)

lemma smap_ok_distinct: "smap_ok m \<Longrightarrow> distinct (smap_keys m)"
  by (simp add: smap_ok_def strict_sorted_iff)

text \<open>What the clients of an ordered map rely on.\<close>

locale ordered_map =
  fixes find :: "'m \<Rightarrow> 'k \<Rightarrow> 'v option"
    and insert_new :: "'k \<Rightarrow> 'v \<Rightarrow> 'm \<Rightarrow> 'm"
    and assign :: "'k \<Rightarrow> 'v \<Rightarrow> 'm \<Rightarrow> 'm"
    and erase :: "'k \<Rightarrow> 'm \<Rightarrow> 'm"
    and keys :: "'m \<Rightarrow> 'k list"
    and ok :: "'m \<Rightarrow> bool"
  assumes find_insert_new:
      "find (insert_new k v m) = (if find m k = None then (find m)(k \<mapsto> v) else find m)"
    and find_assign: "find (assign k v m) = (find m)(k \<mapsto> v)"
    and find_erase: "find (erase k m) = (find m)(k := None)"
    and keys_dom: "set (keys m) = dom (find m)"
    and keys_distinct: "ok m \<Longrightarrow> distinct (keys m)"
    and ok_insert_new: "ok m \<Longrightarrow> ok (insert_new k v m)"
    and ok_assign: "ok m \<Longrightarrow> ok (assign k v m)"
    and ok_erase: "ok m \<Longrightarrow> ok (erase k m)"
begin

lemma insert_new_keeps: "find m k = Some w \<Longrightarrow> find (insert_new k v m) = find m"
  by (simp add: find_insert_new)

lemma size_card: "ok m \<Longrightarrow> length (keys m) = card (dom (find m))"
  by (simp add: keys_dom [symmetric] distinct_card keys_distinct)

lemma finite_dom: "finite (dom (find m))"
  by (simp add: keys_dom [symmetric])

lemma size_insert_new:
  "ok m \<Longrightarrow> length (keys (insert_new k v m)) = length (keys m) + (if find m k = None then 1 else 0)"
  using finite_dom [of m]
  by (auto simp: size_card ok_insert_new find_insert_new domIff card_insert_if)

lemma size_erase:
  "ok m \<Longrightarrow> length (keys (erase k m)) = length (keys m) - (if find m k = None then 0 else 1)"
  using finite_dom [of m]
  by (auto simp: size_card ok_erase find_erase domIff)

lemma fold_assign_other:
  "k \<notin> fst ` set es \<Longrightarrow> find (fold (\<lambda>(a, b). assign a b) es m) k = find m k"
  by (induction es arbitrary: m) (auto simp: find_assign)

lemma fold_assign_ok: "ok m \<Longrightarrow> ok (fold (\<lambda>(a, b). assign a b) es m)"
  by (induction es arbitrary: m) (auto simp: ok_assign)

end

interpretation sm: ordered_map map_of smap_insert smap_assign smap_erase smap_keys smap_ok
  by unfold_locales
     (simp_all add: map_of_smap_insert smap_keys_dom smap_ok_distinct)

lemmas smap_finds = sm.find_insert_new sm.find_assign sm.find_erase

section \<open>Invariants of step relations\<close>

text \<open>
  A component with a step relation and a property that every step keeps: the property then
  holds along every sequence of steps.
\<close>

locale step_invariant =
  fixes step :: "'s \<Rightarrow> 's \<Rightarrow> bool"
    and inv :: "'s \<Rightarrow> bool"
  assumes step_inv: "inv s \<Longrightarrow> step s t \<Longrightarrow> inv t"
begin

lemma steps_inv: "step\<^sup>*\<^sup>* s t \<Longrightarrow> inv s \<Longrightarrow> inv t"
  by (induction rule: rtranclp_induct) (auto intro: step_inv)

lemma steps_rel_inv:
  assumes "step\<^sup>*\<^sup>* s t" and "inv s" and "\<And>x. P x x"
    and "\<And>x y z. P x y \<Longrightarrow> inv y \<Longrightarrow> step y z \<Longrightarrow> P x z"
  shows "P s t"
  using assms(1,2)
proof (induction rule: rtranclp_induct)
  case base
  show ?case by (rule assms(3))
next
  case (step y z)
  then show ?case using assms(4) steps_inv by blast
qed

end

end
