(* ===== verification/Json_Value.thy ===== *)
theory Json_Value
  imports Prelude
begin

text \<open>
  The JSON values that the HTTP API exchanges. \<open>json\<close> has one constructor per
  \<open>Json::ValueType\<close>; an object is an ordered map, as in jsoncpp, and a number that is not
  an integer is kept as its text. The accessors are the documented ones: reading a member of
  null gives null, reading a member of anything else but an object throws. The reader and the
  writer of JSON text are parameters of the components that call them.
\<close>

datatype json =
    JNull
  | JBool bool
  | JInt int
  | JReal string
  | JString string
  | JArray "json list"
  | JObject "(string \<times> json) list"

definition is_null :: "json \<Rightarrow> bool" where
  "is_null j \<longleftrightarrow> j = JNull"

definition is_string :: "json \<Rightarrow> bool" where
  "is_string j \<longleftrightarrow> (case j of JString _ \<Rightarrow> True | _ \<Rightarrow> False)"

text \<open>\<open>j.isMember(k)\<close>\<close>

definition is_member :: "json \<Rightarrow> string \<Rightarrow> bool res" where
  "is_member j k =
     (case j of JNull \<Rightarrow> Inr False
      | JObject m \<Rightarrow> Inr (map_of m k \<noteq> None)
      | _ \<Rightarrow> Inl JsonLogicError)"

text \<open>\<open>j[k]\<close> on a constant value\<close>

definition member :: "json \<Rightarrow> string \<Rightarrow> json res" where
  "member j k =
     (case j of JNull \<Rightarrow> Inr JNull
      | JObject m \<Rightarrow> Inr (case map_of m k of None \<Rightarrow> JNull | Some v \<Rightarrow> v)
      | _ \<Rightarrow> Inl JsonLogicError)"

text \<open>\<open>j.get(k, d)\<close>\<close>

definition member_default :: "json \<Rightarrow> string \<Rightarrow> json \<Rightarrow> json res" where
  "member_default j k d =
     (case j of JNull \<Rightarrow> Inr d
      | JObject m \<Rightarrow> Inr (case map_of m k of None \<Rightarrow> d | Some v \<Rightarrow> v)
      | _ \<Rightarrow> Inl JsonLogicError)"

text \<open>\<open>j[k] = v\<close>, which turns null into an object\<close>

definition set_member :: "json \<Rightarrow> string \<Rightarrow> json \<Rightarrow> json res" where
  "set_member j k v =
     (case j of JNull \<Rightarrow> Inr (JObject [(k, v)])
      | JObject m \<Rightarrow> Inr (JObject (smap_assign k v m))
      | _ \<Rightarrow> Inl JsonLogicError)"

text \<open>\<open>j.asString()\<close>\<close>

definition as_string :: "json \<Rightarrow> string res" where
  "as_string j =
     (case j of JNull \<Rightarrow> Inr []
      | JBool b \<Rightarrow> Inr (if b then ''true'' else ''false'')
      | JInt i \<Rightarrow> Inr (to_string i)
      | JReal s \<Rightarrow> Inr s
      | JString s \<Rightarrow> Inr s
      | JArray _ \<Rightarrow> Inl JsonLogicError
      | JObject _ \<Rightarrow> Inl JsonLogicError)"

text \<open>Building an object member by member from a null value.\<close>

definition json_object :: "(string \<times> json) list \<Rightarrow> json" where
  "json_object es = JObject (fold (\<lambda>(k, v). smap_assign k v) es [])"

lemmas json_defs =
  is_null_def is_string_def is_member_def member_def member_default_def set_member_def as_string_def

lemma member_set_member:
  "set_member j k v = Inr j' \<Longrightarrow> member j' k' = (if k' = k then Inr v else member j k')"
  by (auto simp: json_defs split: json.splits)

lemma is_member_set_member:
  "set_member j k v = Inr j' \<Longrightarrow> is_member j' k = Inr True"
  by (auto simp: json_defs split: json.splits)

lemma json_object_not_null [simp]: "json_object es \<noteq> JNull"
  by (simp add: json_object_def)

end
