(* ===== verification/Ice_Config.thy ===== *)
theory Ice_Config
  imports Stream_Options
begin

text \<open>
  ICE configuration (\<open>src/PeerConnectionManager.cpp\<close>): the server address that is on the
  network of a client, the ICE server described by a URL, the JSON answer of
  \<open>getIceServers\<close>, the resolution of the extra host, and the candidate list that
  \<open>OnIceCandidate\<close> extends. The network interfaces, name resolution and
  \<open>inet_addr\<close> are parameters. The lemmas show the round trip of a URL with
  credentials, that credentials never reach the published URI, the shape of the answer, and
  what the extra candidate is.
\<close>

section \<open>Model\<close>

text \<open>
  One entry of \<open>getifaddrs\<close>: address and netmask with their family test
  (\<open>None\<close> for a null pointer or a family other than \<open>AF_INET\<close>), in network order.
\<close>

record ifaddr =
  ifa_addr :: "32 word option"
  ifa_netmask :: "32 word option"

record net_env =
  interfaces :: "ifaddr list option" \<comment> \<open>\<open>None\<close>: \<open>getifaddrs\<close> failed\<close>
  numeric_host :: "32 word \<Rightarrow> string option" \<comment> \<open>\<open>getnameinfo\<close> with \<open>NI_NUMERICHOST\<close>\<close>
  inet_addr :: "string \<Rightarrow> 64 word"

unbundle bit_operations_syntax

definition same_network :: "32 word \<Rightarrow> 32 word \<Rightarrow> 64 word \<Rightarrow> bool" where
  "same_network addr netmask clientip \<longleftrightarrow>
     (ucast (addr AND netmask) :: 64 word) = clientip AND ucast netmask"

fun scan_interfaces :: "net_env \<Rightarrow> 64 word \<Rightarrow> ifaddr list \<Rightarrow> string \<Rightarrow> string" where
  "scan_interfaces N clientip [] serverAddress = serverAddress"
| "scan_interfaces N clientip (ifa # ifas) serverAddress =
     (case (ifa_netmask ifa, ifa_addr ifa) of
        (Some netmask, Some addr) \<Rightarrow>
          if same_network addr netmask clientip then
            (case numeric_host N addr of
               Some host \<Rightarrow> host
             | None \<Rightarrow> scan_interfaces N clientip ifas serverAddress)
          else scan_interfaces N clientip ifas serverAddress
      | _ \<Rightarrow> scan_interfaces N clientip ifas serverAddress)"

definition getServerIpFromClientIp :: "net_env \<Rightarrow> 64 word \<Rightarrow> string" where
  "getServerIpFromClientIp N clientip =
     (case interfaces N of
        None \<Rightarrow> ''127.0.0.1''
      | Some ifas \<Rightarrow> scan_interfaces N clientip ifas ''127.0.0.1'')"

text \<open>
  \<open>inet_pton\<close> accepts a numeric address; \<open>lookup\<close> is what the worker thread reports
  within one second: \<open>None\<close> for no report in time, \<open>Some None\<close> for a failed
  \<open>getaddrinfo\<close>.
\<close>

definition resolveHostnameToIp ::
  "(string \<Rightarrow> bool) \<Rightarrow> (string \<Rightarrow> string option option) \<Rightarrow> string \<Rightarrow> string" where
  "resolveHostnameToIp inet_pton lookup hostname =
     (if inet_pton hostname then hostname
      else (case lookup hostname of
              Some (Some ipstr) \<Rightarrow> ipstr
            | Some None \<Rightarrow> hostname
            | None \<Rightarrow> hostname))"

record ice_server =
  uri :: string
  username :: string
  password :: string

definition split_credentials :: "string \<Rightarrow> string \<times> string" where
  "split_credentials u =
     (case rfind (CHR ''@'') u of
        None \<Rightarrow> ([], u)
      | Some pos \<Rightarrow> (take pos u, drop (pos + 1) u))"

definition client_uri :: "net_env \<Rightarrow> string \<Rightarrow> string \<Rightarrow> string" where
  "client_uri N u clientIp =
     (if starts_with u ''0.0.0.0:'' \<and> clientIp \<noteq> [] then
        getServerIpFromClientIp N (inet_addr N clientIp) @
          (case find_first_of '':'' u of Some p \<Rightarrow> drop p u | None \<Rightarrow> [])
      else u)"

definition getIceServerFromUrl :: "net_env \<Rightarrow> string \<Rightarrow> string \<Rightarrow> ice_server" where
  "getIceServerFromUrl N url clientIp =
     (case find_first_of '':'' url of
        None \<Rightarrow> \<lparr>uri = url, username = [], password = []\<rparr>
      | Some pos \<Rightarrow>
          let protocol = take pos url;
              (credentials, u) = split_credentials (drop (pos + 1) url);
              srv = \<lparr>uri = protocol @ '':'' @ client_uri N u clientIp, username = [], password = []\<rparr>
          in if credentials = [] then srv
             else (case find_first_of '':'' credentials of
                     None \<Rightarrow> srv\<lparr>username := credentials\<rparr>
                   | Some p \<Rightarrow> srv\<lparr>username := take p credentials,
                                    password := drop (p + 1) credentials\<rparr>))"

text \<open>\<open>IceTransportsType\<close>; the option of the command line is cast to it without a check.\<close>

datatype ice_transport = kNone | kRelay | kNoHost | kAll | kOther int

definition ice_server_json :: "ice_server \<Rightarrow> json" where
  "ice_server_json srv =
     json_object
       ([(''urls'', JArray
           (if starts_with (uri srv) ''turn:''
            then [JString (uri srv @ ''?transport=udp''), JString (uri srv @ ''?transport=tcp'')]
            else [JString (uri srv)]))] @
        (if username srv \<noteq> [] then [(''username'', JString (username srv))] else []) @
        (if password srv \<noteq> [] then [(''credential'', JString (password srv))] else []))"

definition getIceServers :: "net_env \<Rightarrow> string list \<Rightarrow> ice_transport \<Rightarrow> string \<Rightarrow> json" where
  "getIceServers N iceServerList transportType clientIp =
     json_object
       [(''iceServers'', JArray (map (\<lambda>s. ice_server_json (getIceServerFromUrl N s clientIp)) iceServerList)),
        (''iceTransportPolicy'', JString (if transportType = kRelay then ''relay'' else ''all''))]"

text \<open>An ICE candidate as WebRTC reports it: media id, media line and the text of the candidate.\<close>

record ice_candidate =
  sdp_mid :: string
  sdp_mline_index :: int
  candidate_sdp :: string

definition candidate_json :: "string \<Rightarrow> int \<Rightarrow> string \<Rightarrow> json" where
  "candidate_json mid idx sdp =
     json_object [(''sdpMid'', JString mid), (''sdpMLineIndex'', JInt idx), (''candidate'', JString sdp)]"

definition extra_candidate :: "string \<Rightarrow> string \<Rightarrow> string option" where
  "extra_candidate extraHost sdp =
     (if extraHost \<noteq> [] \<and> str_find ''typ host'' sdp \<noteq> None then
        (let tokens = words sdp
         in if length tokens \<ge> 7 then Some (join_spaces (tokens[4 := extraHost])) else None)
      else None)"

definition OnIceCandidate :: "string \<Rightarrow> ice_candidate \<Rightarrow> json list \<Rightarrow> json list" where
  "OnIceCandidate extraHost c iceCandidateList =
     iceCandidateList @
     [candidate_json (sdp_mid c) (sdp_mline_index c) (candidate_sdp c)] @
     (case extra_candidate extraHost (candidate_sdp c) of
        None \<Rightarrow> []
      | Some extraSdp \<Rightarrow> [candidate_json (sdp_mid c) (sdp_mline_index c) extraSdp])"

section \<open>ICE server URLs\<close>

lemma find_colon: "CHR '':'' \<notin> set p \<Longrightarrow> find_first_of '':'' (p @ CHR '':'' # q) = Some (length p)"
  by (rule find_first_of_append) auto

lemma split_credentials_at:
  "CHR ''@'' \<notin> set host \<Longrightarrow> split_credentials (cred @ CHR ''@'' # host) = (cred, host)"
  by (simp add: split_credentials_def rfind_append)

text \<open>
  C36. A server URL \<open>protocol:user:password@host\<close> is taken apart again: the user name up to
  the first colon of the credentials, the password with any colon or at sign in it, and a URI
  that has only the protocol and the host. For a client with an address, the host \<open>0.0.0.0\<close> is
  replaced by the address of an interface of the server, and its port is kept.
\<close>

theorem getIceServerFromUrl_roundtrip:
  assumes "CHR '':'' \<notin> set protocol" and "CHR '':'' \<notin> set user" and "CHR ''@'' \<notin> set host"
  shows "getIceServerFromUrl N (protocol @ CHR '':'' # user @ CHR '':'' # pw @ CHR ''@'' # host) clientIp
           = \<lparr>uri = protocol @ CHR '':'' #
                 (if starts_with host ''0.0.0.0:'' \<and> clientIp \<noteq> []
                  then getServerIpFromClientIp N (inet_addr N clientIp) @ drop 7 host else host),
              username = user, password = pw\<rparr>"
proof -
  have "split_credentials (user @ CHR '':'' # pw @ CHR ''@'' # host) = (user @ CHR '':'' # pw, host)"
    using split_credentials_at [OF assms(3), of "user @ CHR '':'' # pw"] by simp
  moreover have "client_uri N host clientIp = (if starts_with host ''0.0.0.0:'' \<and> clientIp \<noteq> []
      then getServerIpFromClientIp N (inet_addr N clientIp) @ drop 7 host else host)"
    by (auto simp: client_uri_def starts_with_iff_prefix prefix_def)
  ultimately show ?thesis
    by (simp add: getIceServerFromUrl_def find_colon assms(1,2))
qed

definition no_net :: net_env where
  "no_net = \<lparr>interfaces = None, numeric_host = (\<lambda>_. None), inet_addr = (\<lambda>_. 0)\<rparr>"

theorem getIceServerFromUrl_roundtrip_witness:
  "getIceServerFromUrl no_net ''turn:alice:p:w@rd@relay.example:3478'' ''10.0.0.7''
     = \<lparr>uri = ''turn:relay.example:3478'', username = ''alice'', password = ''p:w@rd''\<rparr>"
  using getIceServerFromUrl_roundtrip
    [of "''turn''" "''alice''" "''relay.example:3478''" no_net "''p:w@rd''" "''10.0.0.7''"]
  by (simp add: starts_with_iff_prefix)

lemma drop_after_rfind: "rfind c s = Some i \<Longrightarrow> c \<notin> set (drop (Suc i) s)"
  by (induction s arbitrary: i) (auto simp: rfind_None_iff split: option.splits if_splits)

lemma split_credentials_no_at: "split_credentials u = (cred, v) \<Longrightarrow> CHR ''@'' \<notin> set v"
  by (auto simp: split_credentials_def rfind_None_iff dest: drop_after_rfind split: option.splits)

lemma take_find_first_of: "find_first_of cs s = Some i \<Longrightarrow> set (take i s) \<inter> set cs = {}"
  by (induction s arbitrary: i) (auto split: if_splits)

text \<open>
  What is published never carries the credentials: after the protocol part the URI of a
  server has no at sign, whether or not the wildcard address is replaced by an address of the
  client's network (which a numeric host name never contains).
\<close>

theorem getIceServerFromUrl_no_credentials:
  assumes "\<And>a host. numeric_host N a = Some host \<Longrightarrow> CHR ''@'' \<notin> set host"
    and "find_first_of '':'' url = Some pos"
  shows "\<exists>rest. uri (getIceServerFromUrl N url clientIp) = take pos url @ '':'' @ rest
           \<and> CHR ''@'' \<notin> set rest"
proof -
  have scan: "CHR ''@'' \<notin> set d \<Longrightarrow> CHR ''@'' \<notin> set (scan_interfaces N c ifas d)" for c ifas d
    by (induction ifas) (auto split: option.splits dest: assms(1))
  have ip: "CHR ''@'' \<notin> set (getServerIpFromClientIp N c)" for c
    using scan [of "''127.0.0.1''"] by (auto simp: getServerIpFromClientIp_def split: option.splits)
  obtain cred u where u: "split_credentials (drop (pos + 1) url) = (cred, u)"
    by (cases "split_credentials (drop (pos + 1) url)")
  then have "CHR ''@'' \<notin> set u" by (rule split_credentials_no_at)
  then have "CHR ''@'' \<notin> set (client_uri N u clientIp)"
    using ip by (auto simp: client_uri_def dest: in_set_dropD split: option.splits)
  then show ?thesis
    using u assms(2) by (auto simp: getIceServerFromUrl_def Let_def split: option.splits)
qed

theorem getIceServerFromUrl_no_credentials_witness:
  "\<exists>rest. uri (getIceServerFromUrl no_net ''turn:u:p@0.0.0.0:3478'' ''10.0.0.7'')
       = take 4 ''turn:u:p@0.0.0.0:3478'' @ '':'' @ rest \<and> CHR ''@'' \<notin> set rest"
  by (rule getIceServerFromUrl_no_credentials) (simp_all add: no_net_def)

section \<open>The address for a client\<close>

text \<open>
  The address that replaces \<open>0.0.0.0\<close> is that of an interface on the client's network
  that has a numeric host name, or the loopback address.
\<close>

theorem getServerIpFromClientIp_on_network:
  "getServerIpFromClientIp N clientip = ''127.0.0.1'' \<or>
   (\<exists>ifas ifa addr netmask. interfaces N = Some ifas \<and> ifa \<in> set ifas \<and>
      ifa_addr ifa = Some addr \<and> ifa_netmask ifa = Some netmask \<and> same_network addr netmask clientip \<and>
      numeric_host N addr = Some (getServerIpFromClientIp N clientip))"
proof -
  have "scan_interfaces N clientip ifas d = d \<or>
     (\<exists>ifa addr netmask. ifa \<in> set ifas \<and> ifa_addr ifa = Some addr \<and> ifa_netmask ifa = Some netmask \<and>
        same_network addr netmask clientip \<and>
        numeric_host N addr = Some (scan_interfaces N clientip ifas d))" for ifas d
    by (induction ifas) (auto split: option.splits)
  then show ?thesis
    by (auto simp: getServerIpFromClientIp_def split: option.splits)
qed

section \<open>The answer of getIceServers\<close>

lemma json_object_member:
  "k \<notin> fst ` set es \<Longrightarrow> member (json_object ((k, v) # es)) k = Inr v"
  using sm.fold_assign_other [of k es "smap_assign k v []"]
  by (simp add: json_object_def member_def)

text \<open>
  \<open>getIceServers\<close> lists one entry per configured server, in order, with a UDP and a TCP
  URL for a TURN server and one URL for any other, and never answers null.
\<close>

theorem getIceServers_answer:
  "getIceServers N servers t clientIp \<noteq> JNull \<and>
   member (getIceServers N servers t clientIp) ''iceServers''
     = Inr (JArray (map (\<lambda>s. ice_server_json (getIceServerFromUrl N s clientIp)) servers)) \<and>
   (\<forall>srv. member (ice_server_json srv) ''urls'' =
      Inr (JArray (map JString
        (if prefix ''turn:'' (uri srv)
         then [uri srv @ ''?transport=udp'', uri srv @ ''?transport=tcp''] else [uri srv]))))"
  by (auto simp: getIceServers_def ice_server_json_def json_object_member starts_with_iff_prefix)

section \<open>The extra host candidate\<close>

lemma extra_candidate_tokens:
  assumes "extra_candidate h sdp = Some e" and "is_word h"
  shows "words e = (words sdp)[4 := h] \<and> 7 \<le> length (words sdp)"
proof -
  from assms(1) have len: "7 \<le> length (words sdp)" and e: "e = join_spaces ((words sdp)[4 := h])"
    by (auto simp: extra_candidate_def Let_def split: if_splits)
  have "\<forall>w \<in> set ((words sdp)[4 := h]). is_word w"
    using set_update_subset_insert [of "words sdp" 4 h] words_is_word assms(2) by auto
  with len e show ?thesis by (simp add: words_join_spaces)
qed

text \<open>
  A reported candidate is always listed as it is. With an extra host, a host candidate of
  at least seven fields is followed by one more candidate that has the same media line and
  the same fields but the extra host as its address; no other candidate is added.
\<close>

theorem OnIceCandidate_extra_host:
  assumes "is_word extraHost"
  shows "\<exists>extra. OnIceCandidate extraHost c l
           = l @ candidate_json (sdp_mid c) (sdp_mline_index c) (candidate_sdp c) # extra \<and>
         (if str_find ''typ host'' (candidate_sdp c) \<noteq> None \<and> 7 \<le> length (words (candidate_sdp c))
          then \<exists>e. extra = [candidate_json (sdp_mid c) (sdp_mline_index c) e] \<and>
                   words e = (words (candidate_sdp c))[4 := extraHost]
          else extra = [])"
proof (cases "extra_candidate extraHost (candidate_sdp c)")
  case None
  then show ?thesis
    using assms by (auto simp: OnIceCandidate_def extra_candidate_def Let_def is_word_def split: if_splits)
next
  case (Some e)
  then have "str_find ''typ host'' (candidate_sdp c) \<noteq> None"
    by (auto simp: extra_candidate_def split: if_splits)
  with Some extra_candidate_tokens [OF Some assms] show ?thesis
    by (auto simp: OnIceCandidate_def)
qed

theorem OnIceCandidate_extra_host_witness:
  "\<exists>extra. OnIceCandidate ''203.0.113.5''
       \<lparr>sdp_mid = ''0'', sdp_mline_index = 0, candidate_sdp = ''candidate:1 1 udp 2122 10.0.0.2 5000 typ host''\<rparr> []
     = candidate_json ''0'' 0 ''candidate:1 1 udp 2122 10.0.0.2 5000 typ host'' # extra \<and>
     (\<exists>e. extra = [candidate_json ''0'' 0 e] \<and>
        words e = [''candidate:1'', ''1'', ''udp'', ''2122'', ''203.0.113.5'', ''5000'', ''typ'', ''host''])"
  using OnIceCandidate_extra_host [of "''203.0.113.5''"
      "\<lparr>sdp_mid = ''0'', sdp_mline_index = 0, candidate_sdp = ''candidate:1 1 udp 2122 10.0.0.2 5000 typ host''\<rparr>" "[]"]
  by (simp add: is_word_def is_space_def words_def)

end
