(* ===== verification/Video_Scaler.thy ===== *)
theory Video_Scaler
  imports Prelude
begin

text \<open>
  The video scaler (\<open>inc/VideoScaler.h\<close>): the region of interest and the output size read
  from the options of a stream, and \<open>OnFrame\<close>, which clamps the region to each frame and
  then forwards the frame or hands a cropped and scaled copy to the broadcaster. The lemmas
  show that a crop never leaves its frame, that no frame makes the arithmetic fail when all
  sizes are below 32768, and two ways in which the region is not what the options ask for.
\<close>

section \<open>Model\<close>

type_synonym options = "(string, string) smap"

text \<open>\<open>if (opts.find(k) != opts.end()) x = std::stoi(opts.at(k));\<close>\<close>

definition opt_int :: "options \<Rightarrow> string \<Rightarrow> int \<Rightarrow> int res" where
  "opt_int opts k x = (case map_of opts k of None \<Rightarrow> Inr x | Some v \<Rightarrow> stoi v)"

datatype rotation = Rotation_0 | Rotation_90 | Rotation_180 | Rotation_270

record scaler =
  m_width :: int
  m_height :: int
  m_rotation :: rotation
  m_roi_x :: int
  m_roi_y :: int
  m_roi_width :: int
  m_roi_height :: int

definition rotation_of :: "int \<Rightarrow> rotation \<Rightarrow> rotation" where
  "rotation_of n r =
     (if n = 90 then Rotation_90 else if n = 180 then Rotation_180
      else if n = 270 then Rotation_270 else r)"

text \<open>An absent rotation option is not parsed; \<open>opt_int\<close> with 0 selects no case either.\<close>

definition VideoScaler :: "options \<Rightarrow> scaler res" where
  "VideoScaler opts =
     rbind (opt_int opts ''width'' 0) (\<lambda>w.
     rbind (opt_int opts ''height'' 0) (\<lambda>h.
     rbind (opt_int opts ''rotation'' 0) (\<lambda>r.
     rbind (opt_int opts ''roi_x'' 0) (\<lambda>x.
     rbind (opt_int opts ''roi_y'' 0) (\<lambda>y.
     rbind (opt_int opts ''roi_width'' 0) (\<lambda>rw.
     rbind (opt_int opts ''roi_height'' 0) (\<lambda>rh.
       Inr \<lparr>m_width = w, m_height = h, m_rotation = rotation_of r Rotation_0,
            m_roi_x = (if x < 0 then 0 else x),
            m_roi_y = (if y < 0 then 0 else y),
            m_roi_width = (if rw \<le> 0 then 0 else rw),
            m_roi_height = (if rh \<le> 0 then 0 else rh)\<rparr>)))))))"

text \<open>
  A frame is its size, whether its buffer is of type \<open>kNative\<close>, and the time stamps and
  identifier that a scaled frame inherits.
\<close>

record video_frame =
  width :: int
  height :: int
  native :: bool
  rtp_timestamp :: "32 word"
  timestamp_us :: int
  frame_id :: int

text \<open>The size of the new \<open>I420Buffer\<close>.\<close>

definition createOutputBuffer :: "scaler \<Rightarrow> (int \<times> int) res" where
  "createOutputBuffer s =
     (if m_height s = 0 \<and> m_width s = 0 then Inr (m_roi_width s, m_roi_height s)
      else if m_height s = 0 then
        rbind (cint (m_roi_height s * m_width s)) (\<lambda>p.
        rbind (cdiv p (m_roi_width s)) (\<lambda>h. Inr (m_width s, h)))
      else if m_width s = 0 then
        rbind (cint (m_roi_width s * m_height s)) (\<lambda>p.
        rbind (cdiv p (m_roi_height s)) (\<lambda>w. Inr (w, m_height s)))
      else Inr (m_width s, m_height s))"

text \<open>
  What \<open>m_broadcaster.OnFrame\<close> receives: the frame itself, or a frame built on an output
  buffer of the given size that was filled from the whole frame or from a region of it.
\<close>

datatype content =
    ScaleFrom
  | CropAndScaleFrom (crop_x: int) (crop_y: int) (crop_w: int) (crop_h: int)

datatype broadcast =
    Forward video_frame
  | Scaled (out_size: "int \<times> int") (out_content: content) (out_rotation: rotation)
      (out_rtp: "32 word") (out_us: int) (out_id: int)

definition clamp_roi_pos :: "video_frame \<Rightarrow> scaler \<Rightarrow> scaler" where
  "clamp_roi_pos f s =
     (let s1 = (if m_roi_x s \<noteq> 0 \<and> m_roi_x s \<ge> width f then s\<lparr>m_roi_x := 0\<rparr> else s)
      in if m_roi_y s1 \<noteq> 0 \<and> m_roi_y s1 \<ge> height f then s1\<lparr>m_roi_y := 0\<rparr> else s1)"

definition clamp_roi_size :: "video_frame \<Rightarrow> scaler \<Rightarrow> scaler res" where
  "clamp_roi_size f s =
     rbind (if m_roi_width s \<noteq> 0
            then rbind (cint (m_roi_width s + m_roi_x s)) (\<lambda>e.
                   Inr (if e > width f then s\<lparr>m_roi_width := 0\<rparr> else s))
            else Inr s) (\<lambda>s1.
     rbind (if m_roi_height s1 \<noteq> 0
            then rbind (cint (m_roi_height s1 + m_roi_y s1)) (\<lambda>e.
                   Inr (if e > height f then s1\<lparr>m_roi_height := 0\<rparr> else s1))
            else Inr s1) (\<lambda>s2.
     rbind (if m_roi_width s2 = 0
            then rbind (cint (width f - m_roi_x s2)) (\<lambda>w. Inr (s2\<lparr>m_roi_width := w\<rparr>))
            else Inr s2) (\<lambda>s3.
     if m_roi_height s3 = 0
     then rbind (cint (height f - m_roi_y s3)) (\<lambda>h. Inr (s3\<lparr>m_roi_height := h\<rparr>))
     else Inr s3)))"

definition emit_frame :: "video_frame \<Rightarrow> scaler \<Rightarrow> broadcast res" where
  "emit_frame f s =
     (if (m_roi_width s \<noteq> width f \<and> m_roi_height s = height f \<and> m_rotation s = Rotation_0) \<or> native f
      then Inr (Forward f)
      else rbind (createOutputBuffer s) (\<lambda>sz.
        Inr (Scaled sz
               (if m_roi_width s \<noteq> width f \<or> m_roi_height s \<noteq> height f
                then CropAndScaleFrom (m_roi_x s) (m_roi_y s) (m_roi_width s) (m_roi_height s)
                else ScaleFrom)
               (m_rotation s) (rtp_timestamp f) (timestamp_us f) (frame_id f))))"

definition OnFrame :: "scaler \<Rightarrow> video_frame \<Rightarrow> (scaler \<times> broadcast) res" where
  "OnFrame s f =
     rbind (clamp_roi_size f (clamp_roi_pos f s)) (\<lambda>s'.
     rbind (emit_frame f s') (\<lambda>b. Inr (s', b)))"

text \<open>A sequence of frames through one scaler.\<close>

fun scale_frames :: "scaler \<Rightarrow> video_frame list \<Rightarrow> (scaler \<times> broadcast list) res" where
  "scale_frames s [] = Inr (s, [])"
| "scale_frames s (f # fs) =
     rbind (OnFrame s f) (\<lambda>(s', b).
     rbind (scale_frames s' fs) (\<lambda>(s'', bs). Inr (s'', b # bs)))"

section \<open>Well-formedness of the region\<close>

definition roi_ok :: "scaler \<Rightarrow> bool" where
  "roi_ok s \<longleftrightarrow> 0 \<le> m_roi_x s \<and> 0 \<le> m_roi_y s \<and> 0 \<le> m_roi_width s \<and> 0 \<le> m_roi_height s"

definition frame_ok :: "video_frame \<Rightarrow> bool" where
  "frame_ok f \<longleftrightarrow> 1 \<le> width f \<and> width f \<le> int_max \<and> 1 \<le> height f \<and> height f \<le> int_max"

definition roi_inside :: "scaler \<Rightarrow> video_frame \<Rightarrow> bool" where
  "roi_inside s f \<longleftrightarrow>
     0 \<le> m_roi_x s \<and> 1 \<le> m_roi_width s \<and> m_roi_x s + m_roi_width s \<le> width f \<and>
     0 \<le> m_roi_y s \<and> 1 \<le> m_roi_height s \<and> m_roi_y s + m_roi_height s \<le> height f"

lemmas roi_defs = roi_ok_def frame_ok_def roi_inside_def

lemma VideoScaler_roi_ok: "VideoScaler opts = Inr s \<Longrightarrow> roi_ok s"
  by (auto simp: VideoScaler_def roi_ok_def)

lemma clamp_roi_pos_inside:
  "roi_ok s \<Longrightarrow> frame_ok f \<Longrightarrow>
   roi_ok (clamp_roi_pos f s) \<and> m_roi_x (clamp_roi_pos f s) < width f
     \<and> m_roi_y (clamp_roi_pos f s) < height f"
  by (auto simp: clamp_roi_pos_def roi_defs Let_def)

lemma clamp_roi_size_result:
  assumes "clamp_roi_size f s = Inr s'"
  shows "s' = s\<lparr>m_roi_width := (if m_roi_width s = 0 \<or> m_roi_width s + m_roi_x s > width f
                                then width f - m_roi_x s else m_roi_width s),
               m_roi_height := (if m_roi_height s = 0 \<or> m_roi_height s + m_roi_y s > height f
                                 then height f - m_roi_y s else m_roi_height s)\<rparr>"
  using assms unfolding clamp_roi_size_def
  by (cases "m_roi_width s = 0"; cases "m_roi_height s = 0";
      cases "m_roi_width s + m_roi_x s > width f"; cases "m_roi_height s + m_roi_y s > height f")
     (auto elim!: rbind_InrE)

lemma clamp_roi_size_inside:
  assumes "roi_ok s" and "frame_ok f" and "m_roi_x s < width f" and "m_roi_y s < height f"
    and "clamp_roi_size f s = Inr s'"
  shows "roi_inside s' f"
  using assms(1-4) clamp_roi_size_result [OF assms(5)] by (simp add: roi_defs)

lemma clamp_roi_size_keeps:
  "clamp_roi_size f s = Inr s' \<Longrightarrow>
   m_width s' = m_width s \<and> m_height s' = m_height s \<and> m_rotation s' = m_rotation s
     \<and> m_roi_x s' = m_roi_x s \<and> m_roi_y s' = m_roi_y s"
  by (drule clamp_roi_size_result) simp

lemma OnFrame_roi_inside:
  assumes "roi_ok s" and "frame_ok f" and "OnFrame s f = Inr (s', b)"
  shows "roi_inside s' f"
  using assms clamp_roi_pos_inside [OF assms(1,2)]
  by (auto simp: OnFrame_def intro: clamp_roi_size_inside)

lemma roi_inside_ok: "roi_inside s f \<Longrightarrow> roi_ok s"
  by (auto simp: roi_defs)

text \<open>A crop request refers to a region of its frame.\<close>

definition crop_inside :: "video_frame \<Rightarrow> broadcast \<Rightarrow> bool" where
  "crop_inside f b \<longleftrightarrow>
     (case b of
        Scaled _ (CropAndScaleFrom x y w h) _ _ _ _ \<Rightarrow>
          0 \<le> x \<and> 1 \<le> w \<and> x + w \<le> width f \<and> 0 \<le> y \<and> 1 \<le> h \<and> y + h \<le> height f
      | _ \<Rightarrow> True)"

lemma OnFrame_crop_inside:
  assumes "roi_ok s" and "frame_ok f" and "OnFrame s f = Inr (s', b)"
  shows "crop_inside f b"
  using OnFrame_roi_inside [OF assms] assms(3)
  by (auto simp: OnFrame_def emit_frame_def crop_inside_def roi_inside_def split: if_splits)

lemma scale_frames_inside:
  assumes "roi_ok s" and "scale_frames s fs = Inr (s', bs)" and "\<forall>f \<in> set fs. frame_ok f"
  shows "list_all2 crop_inside fs bs"
  using assms
proof (induction fs arbitrary: s bs)
  case Nil
  then show ?case by simp
next
  case (Cons f fs)
  then obtain t b cs where step: "OnFrame s f = Inr (t, b)"
    and rest: "scale_frames t fs = Inr (s', cs)" and bs: "bs = b # cs"
    by auto
  have "roi_ok t"
    using OnFrame_roi_inside [OF Cons.prems(1) _ step] Cons.prems(3) roi_inside_ok by auto
  then have "list_all2 crop_inside fs cs"
    using Cons.IH rest Cons.prems(3) by auto
  moreover have "crop_inside f b"
    using OnFrame_crop_inside [OF Cons.prems(1) _ step] Cons.prems(3) by simp
  ultimately show ?case by (simp add: bs)
qed

text \<open>The only way to fail is an overflow: nothing is divided by a side of an empty region.\<close>

lemma cint_overflow: "cint i = Inl e \<Longrightarrow> e = SignedOverflow"
  by (simp add: cint_def split: if_splits)

lemma rbind_Inl_cases: "rbind m f = Inl e \<Longrightarrow> m = Inl e \<or> (\<exists>x. m = Inr x \<and> f x = Inl e)"
  by (cases m) simp_all

lemma clamp_roi_size_overflow:
  assumes "clamp_roi_size f s = Inl e"
  shows "e = SignedOverflow"
  using assms unfolding clamp_roi_size_def
  by (cases "m_roi_width s = 0"; cases "m_roi_height s = 0";
      cases "m_roi_width s + m_roi_x s > width f"; cases "m_roi_height s + m_roi_y s > height f")
     (auto dest!: rbind_Inl_cases cint_overflow)

lemma createOutputBuffer_overflow:
  assumes "createOutputBuffer s = Inl e" and "1 \<le> m_roi_width s" and "1 \<le> m_roi_height s"
  shows "e = SignedOverflow"
  using assms
  by (auto simp: createOutputBuffer_def cdiv_def dest!: rbind_Inl_cases cint_overflow split: if_splits)

lemma OnFrame_overflow:
  assumes "roi_ok s" and "frame_ok f" and "OnFrame s f = Inl e"
  shows "e = SignedOverflow"
proof (cases "clamp_roi_size f (clamp_roi_pos f s)")
  case (Inl e')
  with assms(3) clamp_roi_size_overflow [OF Inl] show ?thesis by (simp add: OnFrame_def)
next
  case (Inr s')
  then have "roi_inside s' f" using clamp_roi_pos_inside [OF assms(1,2)] clamp_roi_size_inside [OF _ assms(2) _ _ Inr] by blast
  then have "1 \<le> m_roi_width s'" "1 \<le> m_roi_height s'" by (simp_all add: roi_inside_def)
  with assms(3) Inr show ?thesis
    by (auto simp: OnFrame_def emit_frame_def dest!: rbind_Inl_cases dest: createOutputBuffer_overflow split: if_splits)
qed

lemma scale_frames_overflow:
  assumes "roi_ok s" and "\<forall>f \<in> set fs. frame_ok f" and "scale_frames s fs = Inl e"
  shows "e = SignedOverflow"
  using assms
proof (induction fs arbitrary: s)
  case (Cons f fs)
  show ?case
  proof (cases "OnFrame s f")
    case (Inl e')
    with Cons.prems OnFrame_overflow [OF Cons.prems(1) _ Inl] show ?thesis by simp
  next
    case (Inr r)
    obtain t b where t: "OnFrame s f = Inr (t, b)" using Inr by (cases r) simp
    then have "roi_ok t" using OnFrame_roi_inside [OF Cons.prems(1) _ t] Cons.prems(2) roi_inside_ok by auto
    moreover have "scale_frames t fs = Inl e" using Cons.prems(3) t by (auto dest!: rbind_Inl_cases)
    ultimately show ?thesis using Cons by simp
  qed
qed simp

text \<open>The hypotheses hold for a centred region on a stream that changes its frame size.\<close>

definition demo_frame :: "int \<Rightarrow> int \<Rightarrow> video_frame" where
  "demo_frame w h = \<lparr>width = w, height = h, native = False, rtp_timestamp = 0,
                     timestamp_us = 0, frame_id = 0\<rparr>"

definition demo_roi :: options where
  "demo_roi = [(''roi_height'', ''240''), (''roi_width'', ''320''), (''roi_x'', ''160'')]"

lemmas demo_scaler_defs = demo_frame_def demo_roi_def VideoScaler_def opt_int_def stoi_def
  strtol10_def is_space_def is_digit_def in_int_def int_min_def int_max_def rotation_of_def

section \<open>No frame makes the arithmetic fail\<close>

definition small :: "int \<Rightarrow> bool" where
  "small n \<longleftrightarrow> 0 \<le> n \<and> n \<le> 32767"

definition sizes_small :: "scaler \<Rightarrow> bool" where
  "sizes_small s \<longleftrightarrow> small (m_width s) \<and> small (m_height s) \<and> small (m_roi_x s) \<and>
     small (m_roi_y s) \<and> small (m_roi_width s) \<and> small (m_roi_height s)"

definition frame_small :: "video_frame \<Rightarrow> bool" where
  "frame_small f \<longleftrightarrow> 1 \<le> width f \<and> width f \<le> 32767 \<and> 1 \<le> height f \<and> height f \<le> 32767"

lemmas small_defs = small_def sizes_small_def frame_small_def

lemma cint_small_sum: "small a \<Longrightarrow> small b \<Longrightarrow> cint (a + b) = Inr (a + b)"
  and cint_small_diff: "small a \<Longrightarrow> small b \<Longrightarrow> cint (a - b) = Inr (a - b)"
  by (simp_all add: small_def in_int_def int_min_def int_max_def cint_def)

lemma small_product:
  assumes "small a" and "small b"
  shows "0 \<le> a * b" and "in_int (a * b)"
proof -
  have "a * b \<le> 32767 * 32767"
    using assms by (intro mult_mono) (auto simp: small_def)
  moreover show "0 \<le> a * b" using assms by (simp add: small_def)
  ultimately show "in_int (a * b)" by (simp add: in_int_def int_min_def int_max_def)
qed

lemma scaled_side_defined:
  assumes "small a" and "small b" and "0 < c"
  shows "rbind (cint (a * b)) (\<lambda>p. cdiv p c) = Inr (a * b div c)"
  using small_product [OF assms(1,2)] assms(3) by (simp add: cint_def cdiv_nonneg)

lemma clamp_roi_size_small:
  assumes "sizes_small s" and "frame_small f" and "m_roi_x s < width f" and "m_roi_y s < height f"
  shows "\<exists>s'. clamp_roi_size f s = Inr s' \<and> sizes_small s'"
proof -
  have f: "small (width f)" "small (height f)" using assms(2) by (simp_all add: small_defs)
  have s: "small (m_roi_x s)" "small (m_roi_y s)" "small (m_roi_width s)" "small (m_roi_height s)"
    using assms(1) by (simp_all add: sizes_small_def)
  obtain s' where s': "clamp_roi_size f s = Inr s'"
    using f s unfolding clamp_roi_size_def
    by (cases "m_roi_width s = 0"; cases "m_roi_height s = 0";
        cases "m_roi_width s + m_roi_x s > width f"; cases "m_roi_height s + m_roi_y s > height f")
       (simp_all add: cint_small_sum cint_small_diff)
  show ?thesis
    using s' clamp_roi_size_result [OF s'] assms by (simp add: small_defs)
qed

lemma createOutputBuffer_defined:
  assumes "sizes_small s" and "0 < m_roi_width s" and "0 < m_roi_height s"
  shows "\<exists>sz. createOutputBuffer s = Inr sz"
  using assms scaled_side_defined
  by (auto simp: createOutputBuffer_def sizes_small_def rbind_assoc [symmetric])

lemma frame_small_ok: "frame_small f \<Longrightarrow> frame_ok f"
  by (simp add: frame_small_def frame_ok_def int_max_def)

lemma sizes_small_roi_ok: "sizes_small s \<Longrightarrow> roi_ok s"
  by (simp add: small_defs roi_ok_def)

lemma clamp_roi_pos_small: "sizes_small s \<Longrightarrow> sizes_small (clamp_roi_pos f s)"
  by (auto simp: clamp_roi_pos_def small_defs Let_def)

lemma OnFrame_defined:
  assumes "sizes_small s" and "frame_small f"
  shows "\<exists>s' b. OnFrame s f = Inr (s', b) \<and> sizes_small s'"
proof -
  let ?p = "clamp_roi_pos f s"
  note inside = clamp_roi_pos_inside [OF sizes_small_roi_ok [OF assms(1)] frame_small_ok [OF assms(2)]]
  obtain s' where s': "clamp_roi_size f ?p = Inr s'" "sizes_small s'"
    using clamp_roi_size_small [OF clamp_roi_pos_small [OF assms(1)] assms(2)] inside by blast
  then have "roi_inside s' f"
    using clamp_roi_size_inside inside frame_small_ok [OF assms(2)] by blast
  then have "\<exists>sz. createOutputBuffer s' = Inr sz"
    using createOutputBuffer_defined [OF s'(2)] by (simp add: roi_inside_def)
  with s' show ?thesis by (auto simp: OnFrame_def emit_frame_def)
qed

text \<open>
  With output sizes, region and frame sizes below 32768 the scaler handles every sequence
  of non-empty frames: it never divides by zero, no product overflows, and it hands exactly one
  frame to the broadcaster for each frame it receives.
\<close>

theorem scale_frames_total:
  assumes "sizes_small s" and "\<forall>f \<in> set fs. frame_small f"
  shows "\<exists>s' bs. scale_frames s fs = Inr (s', bs) \<and> length bs = length fs"
  using assms
proof (induction fs arbitrary: s)
  case Nil
  then show ?case by simp
next
  case (Cons f fs)
  then obtain t b where t: "OnFrame s f = Inr (t, b)" "sizes_small t"
    using OnFrame_defined by fastforce
  then obtain s' bs where "scale_frames t fs = Inr (s', bs)" "length bs = length fs"
    using Cons by fastforce
  with t show ?case by simp
qed

theorem scale_frames_total_witness:
  "\<exists>s' bs. scale_frames \<lparr>m_width = 0, m_height = 90, m_rotation = Rotation_90, m_roi_x = 700,
       m_roi_y = 0, m_roi_width = 0, m_roi_height = 0\<rparr> [demo_frame 640 480, demo_frame 1280 720]
       = Inr (s', bs) \<and> length bs = length [demo_frame 640 480, demo_frame 1280 720]"
  by (rule scale_frames_total) (simp_all add: small_defs demo_frame_def)

text \<open>
  C22. For every stream option and every sequence of non-empty frames, however their size
  changes: every crop that the scaler requests lies inside the frame it is taken from; the only
  failure there can be is the overflow of an \<open>int\<close> (a region or an output size near its
  limit, no division by zero); and there is none when the sizes in the options and of the
  frames are below 32768.
\<close>

theorem scale_frames_crop_inside:
  assumes "VideoScaler opts = Inr s" and "\<forall>f \<in> set fs. frame_ok f"
  shows "(case scale_frames s fs of Inr (s', bs) \<Rightarrow> list_all2 crop_inside fs bs | Inl e \<Rightarrow> e = SignedOverflow) \<and>
    (sizes_small s \<and> (\<forall>f \<in> set fs. frame_small f) \<longrightarrow> (\<exists>s' bs. scale_frames s fs = Inr (s', bs)))"
proof
  have roi: "roi_ok s" using VideoScaler_roi_ok [OF assms(1)] .
  show "case scale_frames s fs of Inr (s', bs) \<Rightarrow> list_all2 crop_inside fs bs | Inl e \<Rightarrow> e = SignedOverflow"
    using scale_frames_inside [OF roi _ assms(2)] scale_frames_overflow [OF roi assms(2)]
    by (auto split: sum.split)
  show "sizes_small s \<and> (\<forall>f \<in> set fs. frame_small f) \<longrightarrow> (\<exists>s' bs. scale_frames s fs = Inr (s', bs))"
    using scale_frames_total [of s fs] by blast
qed

theorem scale_frames_crop_inside_witness:
  "\<exists>s s' bs. VideoScaler demo_roi = Inr s \<and>
     scale_frames s [demo_frame 640 480, demo_frame 320 200] = Inr (s', bs) \<and>
     list_all2 crop_inside [demo_frame 640 480, demo_frame 320 200] bs"
proof -
  have init: "VideoScaler demo_roi = Inr \<lparr>m_width = 0, m_height = 0, m_rotation = Rotation_0,
      m_roi_x = 160, m_roi_y = 0, m_roi_width = 320, m_roi_height = 240\<rparr>" (is "_ = Inr ?s")
    by (simp add: demo_scaler_defs)
  have ok: "\<forall>f \<in> set [demo_frame 640 480, demo_frame 320 200]. frame_ok f"
    by (simp add: demo_frame_def frame_ok_def int_max_def)
  have "sizes_small ?s" "\<forall>f \<in> set [demo_frame 640 480, demo_frame 320 200]. frame_small f"
    by (simp_all add: small_defs demo_frame_def)
  with scale_frames_crop_inside [OF init ok] init show ?thesis by auto
qed

section \<open>Where the region is not what the options ask for\<close>

text \<open>
  A region that is narrower than the frame but has its full height is never cropped: with
  no rotation the frame goes to the broadcaster as it is, so the options \<open>roi_x\<close> and
  \<open>roi_width\<close> alone, and any output size given with them, have no effect.
\<close>

theorem OnFrame_narrow_roi_ignored:
  assumes "roi_ok s" and "frame_ok f" and "m_rotation s = Rotation_0"
    and "m_roi_y s = 0" and "m_roi_height s = 0"
    and "0 < m_roi_width s" and "m_roi_x s + m_roi_width s \<le> width f" and "m_roi_width s \<noteq> width f"
  shows "\<exists>s'. OnFrame s f = Inr (s', Forward f)"
  using assms
  by (auto simp: OnFrame_def clamp_roi_pos_def clamp_roi_size_def emit_frame_def roi_defs
      cint_def in_int_def int_min_def int_max_def)

theorem OnFrame_narrow_roi_ignored_witness:
  "\<exists>s'. OnFrame \<lparr>m_width = 0, m_height = 0, m_rotation = Rotation_0, m_roi_x = 160, m_roi_y = 0,
       m_roi_width = 320, m_roi_height = 0\<rparr> (demo_frame 640 480) = Inr (s', Forward (demo_frame 640 480))"
  by (rule OnFrame_narrow_roi_ignored) (simp_all add: roi_defs demo_frame_def int_max_def)

text \<open>
  The size that stands for "the whole frame" is computed on the first frame and kept: when
  no region was asked for and a later frame is larger in both directions, only the top left
  part of the size of the first frame is taken from it.
\<close>

theorem OnFrame_grown_frame_cropped:
  assumes "m_roi_x s = 0" and "m_roi_y s = 0" and "m_roi_width s = 0" and "m_roi_height s = 0"
    and "m_width s = 0" and "m_height s = 0"
    and "frame_ok f" and "frame_ok g" and "\<not> native f" and "\<not> native g"
    and "width f < width g" and "height f < height g"
  shows "\<exists>t u. OnFrame s f = Inr (t, Scaled (width f, height f) ScaleFrom (m_rotation s)
                                  (rtp_timestamp f) (timestamp_us f) (frame_id f)) \<and>
           OnFrame t g = Inr (u, Scaled (width f, height f)
                                  (CropAndScaleFrom 0 0 (width f) (height f)) (m_rotation s)
                                  (rtp_timestamp g) (timestamp_us g) (frame_id g))"
proof -
  let ?t = "s\<lparr>m_roi_width := width f, m_roi_height := height f\<rparr>"
  have "OnFrame s f = Inr (?t, Scaled (width f, height f) ScaleFrom (m_rotation s)
                                  (rtp_timestamp f) (timestamp_us f) (frame_id f))"
    using assms by (simp add: OnFrame_def clamp_roi_pos_def clamp_roi_size_def emit_frame_def
        createOutputBuffer_def frame_ok_def cint_def in_int_def int_min_def int_max_def)
  moreover have "OnFrame ?t g = Inr (?t, Scaled (width f, height f)
                                  (CropAndScaleFrom 0 0 (width f) (height f)) (m_rotation s)
                                  (rtp_timestamp g) (timestamp_us g) (frame_id g))"
    using assms by (simp add: OnFrame_def clamp_roi_pos_def clamp_roi_size_def emit_frame_def
        createOutputBuffer_def frame_ok_def cint_def in_int_def int_min_def int_max_def)
  ultimately show ?thesis by blast
qed

theorem OnFrame_grown_frame_cropped_witness:
  "\<exists>t u. OnFrame \<lparr>m_width = 0, m_height = 0, m_rotation = Rotation_0, m_roi_x = 0, m_roi_y = 0,
       m_roi_width = 0, m_roi_height = 0\<rparr> (demo_frame 640 480)
       = Inr (t, Scaled (640, 480) ScaleFrom Rotation_0 0 0 0) \<and>
     OnFrame t (demo_frame 1280 720)
       = Inr (u, Scaled (640, 480) (CropAndScaleFrom 0 0 640 480) Rotation_0 0 0 0)"
  using OnFrame_grown_frame_cropped
    [of "\<lparr>m_width = 0, m_height = 0, m_rotation = Rotation_0, m_roi_x = 0, m_roi_y = 0,
         m_roi_width = 0, m_roi_height = 0\<rparr>" "demo_frame 640 480" "demo_frame 1280 720"]
  by (simp add: demo_frame_def frame_ok_def int_max_def)

end
