(* ===== verification/Capturer_Factory.thy ===== *)
theory Capturer_Factory
  imports Video_Scaler
begin

text \<open>
  The capturer factory (\<open>inc/CapturerFactory.h\<close>) with the constructors of the capturers it
  chooses from (\<open>inc/VcmCapturer.h\<close>, \<open>inc/V4l2Capturer.h\<close>,
  \<open>inc/desktopcapturer.h\<close>, \<open>inc/screencapturer.h\<close>, \<open>inc/windowcapturer.h\<close>,
  \<open>inc/rtspvideocapturer.h\<close>, \<open>inc/filevideocapturer.h\<close>,
  \<open>inc/rtpvideocapturer.h\<close>, the audio sources). The capture modules, the display and the
  audio device module are parameters. The lemmas show that the publish filter decides what can
  be opened, that a listed device name opens that device, and that a recording device is only
  selected when it exists.
\<close>

section \<open>Environment\<close>

record capture_env =
  have_live555 :: bool
  use_x11 :: bool
  have_rtmp :: bool
  have_v4l2 :: bool
  publish :: "string \<Rightarrow> bool" \<comment> \<open>\<open>regex_match\<close> of a scheme with the publish filter\<close>
  vcm_info :: bool \<comment> \<open>\<open>CreateDeviceInfo\<close> gave an object\<close>
  vcm_count :: nat \<comment> \<open>\<open>NumberOfDevices\<close>\<close>
  vcm_name :: "32 word \<Rightarrow> int \<times> string" \<comment> \<open>result and id of \<open>GetDeviceName\<close>\<close>
  vcm_module :: "string \<Rightarrow> bool" \<comment> \<open>\<open>VideoCaptureFactory::Create\<close> gave a module\<close>
  vcm_start :: "string \<Rightarrow> int \<Rightarrow> int \<Rightarrow> int \<Rightarrow> bool" \<comment> \<open>\<open>StartCapture\<close> returned 0\<close>
  vcm_started :: "string \<Rightarrow> bool" \<comment> \<open>\<open>CaptureStarted\<close>\<close>
  dev_entries :: "string list option" \<comment> \<open>names in \<open>/dev\<close>\<close>
  v4l2_open :: "string \<Rightarrow> string \<Rightarrow> int \<Rightarrow> int \<Rightarrow> int \<Rightarrow> bool" \<comment> \<open>\<open>V4l2Capture::create\<close>\<close>
  screen_capturer :: bool \<comment> \<open>\<open>CreateScreenCapturer\<close> gave an object\<close>
  screen_sources :: "(int \<times> string) list option"
  window_capturer :: bool
  window_sources :: "(int \<times> string) list option"
  sdp_from_rtp_url :: "string \<Rightarrow> string"

section \<open>Capturers\<close>

datatype live_client = RTSPConnection | MKVClient | SDPClient

record desktop =
  d_width :: int
  d_height :: int
  d_source :: "int option" \<comment> \<open>argument of \<open>SelectSource\<close>\<close>
  d_running :: bool

text \<open>The flag of the first two constructors: frames come from the null decoder factory.\<close>

datatype video_source =
    LiveVideo live_client string options scaler (live_wait: bool) bool
  | RtmpVideo string scaler bool
  | ScreenVideo desktop
  | WindowVideo desktop
  | V4l2Video string string int int int
  | VcmVideo string int int int

definition LiveVideoSource_create ::
  "live_client \<Rightarrow> bool \<Rightarrow> string \<Rightarrow> options \<Rightarrow> bool \<Rightarrow> video_source option res" where
  "LiveVideoSource_create client wait url opts nullDecoder =
     rbind (VideoScaler opts) (\<lambda>s. Inr (Some (LiveVideo client url opts s wait nullDecoder)))"

definition RTSPVideoCapturer_Create :: "string \<Rightarrow> options \<Rightarrow> bool \<Rightarrow> video_source option res" where
  "RTSPVideoCapturer_Create = LiveVideoSource_create RTSPConnection False"

definition FileVideoCapturer_Create :: "string \<Rightarrow> options \<Rightarrow> bool \<Rightarrow> video_source option res" where
  "FileVideoCapturer_Create = LiveVideoSource_create MKVClient True"

definition RTPVideoCapturer_Create :: "string \<Rightarrow> options \<Rightarrow> bool \<Rightarrow> video_source option res" where
  "RTPVideoCapturer_Create = LiveVideoSource_create SDPClient False"

definition RtmpVideoSource_Create :: "string \<Rightarrow> options \<Rightarrow> bool \<Rightarrow> video_source option res" where
  "RtmpVideoSource_Create url opts nullDecoder =
     rbind (VideoScaler opts) (\<lambda>s. Inr (Some (RtmpVideo url s nullDecoder)))"

definition DesktopCapturer_init :: "options \<Rightarrow> desktop res" where
  "DesktopCapturer_init opts =
     rbind (opt_int opts ''width'' 0) (\<lambda>w.
     rbind (opt_int opts ''height'' 0) (\<lambda>h.
       Inr \<lparr>d_width = w, d_height = h, d_source = None, d_running = False\<rparr>))"

text \<open>
  \<open>Start\<close> and the capture thread use \<open>m_capturer\<close> without a test. A missing display
  is a null capturer.
\<close>

definition DesktopCapturer_Start :: "bool \<Rightarrow> desktop \<Rightarrow> desktop res" where
  "DesktopCapturer_Start has_capturer d =
     (if has_capturer then Inr (d\<lparr>d_running := True\<rparr>) else Inl NullDeref)"

text \<open>The loop over the sources calls \<open>atoi\<close> once per source and stops at the first match.\<close>

fun select_screen :: "string \<Rightarrow> (int \<times> string) list \<Rightarrow> int option res" where
  "select_screen screen [] = Inr None"
| "select_screen screen (src # srcs) =
     rbind (atoi screen) (\<lambda>n. if n = fst src then Inr (Some (fst src)) else select_screen screen srcs)"

definition ScreenCapturer_Create :: "capture_env \<Rightarrow> string \<Rightarrow> options \<Rightarrow> video_source option res" where
  "ScreenCapturer_Create E url opts =
     rbind (DesktopCapturer_init opts) (\<lambda>d.
     rbind (if screen_capturer E then
              (case screen_sources E of
                 None \<Rightarrow> Inr d
               | Some srcs \<Rightarrow>
                   rbind (substr_from url (length ''screen://'')) (\<lambda>screen.
                   if screen = [] then Inr d
                   else rbind (select_screen screen srcs) (\<lambda>sel. Inr (d\<lparr>d_source := sel\<rparr>))))
            else Inr d) (\<lambda>d'.
     rbind (DesktopCapturer_Start (screen_capturer E) d') (\<lambda>d''. Inr (Some (ScreenVideo d'')))))"

definition WindowCapturer_Create :: "capture_env \<Rightarrow> string \<Rightarrow> options \<Rightarrow> video_source option res" where
  "WindowCapturer_Create E url opts =
     rbind (DesktopCapturer_init opts) (\<lambda>d.
     let prefixed = starts_with url ''window://'';
         sel = (if prefixed \<and> window_capturer E then
                  (case window_sources E of
                     None \<Rightarrow> None
                   | Some srcs \<Rightarrow>
                       map_option fst (find (\<lambda>src. drop (length ''window://'') url = snd src) srcs))
                else None)
     in rbind (DesktopCapturer_Start (prefixed \<and> window_capturer E) (d\<lparr>d_source := sel\<rparr>)) (\<lambda>d'.
          Inr (Some (WindowVideo d'))))"

text \<open>The sizes are kept as \<open>int\<close>: the conversion to \<open>size_t\<close> and back is exact.\<close>

definition V4l2Capturer_Create :: "capture_env \<Rightarrow> string \<Rightarrow> options \<Rightarrow> video_source option res" where
  "V4l2Capturer_Create E url opts =
     rbind (opt_int opts ''width'' 0) (\<lambda>w.
     rbind (opt_int opts ''height'' 0) (\<lambda>h.
     rbind (opt_int opts ''fps'' 0) (\<lambda>fps.
     let format = (case map_of opts ''format'' of None \<Rightarrow> ''H264'' | Some f \<Rightarrow> f);
         device = (if starts_with url ''v4l2://'' then drop (length ''v4l2://'') url else ''/dev/video0'')
     in Inr (if v4l2_open E device format w h fps then Some (V4l2Video device format w h fps) else None))))"

definition VcmCapturer_Init :: "capture_env \<Rightarrow> int \<Rightarrow> int \<Rightarrow> int \<Rightarrow> string \<Rightarrow> video_source option res" where
  "VcmCapturer_Init E w h fps url =
     (if \<not> vcm_info E then Inl NullDeref
      else
        rbind (if starts_with url ''videocap://'' then
                 rbind (atoi (drop (length ''videocap://'') url)) (\<lambda>deviceNumber.
                   Inr (case vcm_name E (word_of_int deviceNumber) of
                          (r, ident) \<Rightarrow> if r = 0 then ident else []))
               else Inr []) (\<lambda>deviceId.
        if deviceId = [] then Inr None
        else if \<not> vcm_module E deviceId then Inl NullDeref
        else if \<not> vcm_start E deviceId w h fps then Inr None
        else if \<not> vcm_started E deviceId then Inl CheckFailed
        else Inr (Some (VcmVideo deviceId w h fps))))"

definition VcmCapturer_Create :: "capture_env \<Rightarrow> string \<Rightarrow> options \<Rightarrow> video_source option res" where
  "VcmCapturer_Create E url opts =
     rbind (opt_int opts ''width'' 800) (\<lambda>w.
     rbind (opt_int opts ''height'' 600) (\<lambda>h.
     rbind (opt_int opts ''fps'' 0) (\<lambda>fps. VcmCapturer_Init E w h fps url)))"

section \<open>Choosing a video source\<close>

definition CreateVideoSource ::
  "capture_env \<Rightarrow> string \<Rightarrow> options \<Rightarrow> bool \<Rightarrow> video_source option res" where
  "CreateVideoSource E videourl opts nullDecoder =
     (if (starts_with videourl ''rtsp://'' \<or> starts_with videourl ''rtsps://'') \<and> publish E ''rtsp://'' then
        (if have_live555 E then RTSPVideoCapturer_Create videourl opts nullDecoder else Inr None)
      else if starts_with videourl ''file://'' \<and> publish E ''file://'' then
        (if have_live555 E then FileVideoCapturer_Create videourl opts nullDecoder else Inr None)
      else if starts_with videourl ''rtp://'' \<and> publish E ''rtp://'' then
        (if have_live555 E then RTPVideoCapturer_Create (sdp_from_rtp_url E videourl) opts nullDecoder
         else Inr None)
      else if starts_with videourl ''screen://'' \<and> publish E ''screen://'' then
        (if use_x11 E then ScreenCapturer_Create E videourl opts else Inr None)
      else if starts_with videourl ''window://'' \<and> publish E ''window://'' then
        (if use_x11 E then WindowCapturer_Create E videourl opts else Inr None)
      else if starts_with videourl ''rtmp://'' \<and> publish E ''rtmp://'' then
        (if have_rtmp E then RtmpVideoSource_Create videourl opts nullDecoder else Inr None)
      else if starts_with videourl ''v4l2://'' \<and> publish E ''v4l2://'' then
        (if have_v4l2 E then V4l2Capturer_Create E videourl opts else Inr None)
      else if publish E ''videocap://'' then VcmCapturer_Create E videourl opts
      else Inr None)"

section \<open>Device and source lists\<close>

definition GetVideoCaptureDeviceList :: "capture_env \<Rightarrow> bool \<Rightarrow> string list" where
  "GetVideoCaptureDeviceList E useNullCodec =
     (if publish E ''videocap://'' \<and> \<not> useNullCodec \<and> vcm_info E then
        [''videocap://'' @ to_string (int i). i \<leftarrow> [0..<vcm_count E],
           fst (vcm_name E (of_nat i)) \<noteq> -1]
      else []) @
     (if publish E ''v4l2://'' \<and> useNullCodec \<and> have_v4l2 E then
        (case dev_entries E of
           None \<Rightarrow> []
         | Some names \<Rightarrow>
             [''v4l2://'' @ ''/dev/'' @ d_name. d_name \<leftarrow> names,
                starts_with d_name ''video'' \<and> v4l2_open E (''/dev/'' @ d_name) ''H264'' 0 0 0])
      else [])"

definition GetVideoSourceList :: "capture_env \<Rightarrow> bool \<Rightarrow> string list" where
  "GetVideoSourceList E useNullCodec =
     (if use_x11 E then
        (if publish E ''window://'' \<and> \<not> useNullCodec \<and> window_capturer E then
           (case window_sources E of None \<Rightarrow> [] | Some srcs \<Rightarrow> map (\<lambda>s. ''window://'' @ snd s) srcs)
         else []) @
        (if publish E ''screen://'' \<and> \<not> useNullCodec \<and> screen_capturer E then
           (case screen_sources E of None \<Rightarrow> [] | Some srcs \<Rightarrow> map (\<lambda>s. ''screen://'' @ to_string (fst s)) srcs)
         else [])
      else [])"

section \<open>Audio\<close>

text \<open>
  The calls that change the audio device module are recorded; its answers may depend on the
  calls made so far.
\<close>

datatype adm_call = Adm_Terminate | Adm_Init | Adm_SetRecordingDevice int

record adm_env =
  recording_devices :: "adm_call list \<Rightarrow> 16 word"
  recording_name :: "adm_call list \<Rightarrow> 16 word \<Rightarrow> int" \<comment> \<open>result of \<open>RecordingDeviceName\<close>\<close>
  playout_devices :: "adm_call list \<Rightarrow> 16 word"
  playout_name :: "adm_call list \<Rightarrow> 16 word \<Rightarrow> int"

datatype audio_source =
    LiveAudio live_client string options bool
  | DeviceAudio

definition GetAudioCaptureDeviceList :: "capture_env \<Rightarrow> adm_env \<Rightarrow> adm_call list \<Rightarrow> string list" where
  "GetAudioCaptureDeviceList E A log =
     (if publish E ''audiocap://'' then
        [''audiocap://'' @ to_string (int i). i \<leftarrow> [0..<nat (sint (recording_devices A log))],
           recording_name A log (of_nat i) \<noteq> -1]
      else [])"

definition GetAudioPlayoutDeviceList :: "capture_env \<Rightarrow> adm_env \<Rightarrow> adm_call list \<Rightarrow> string list" where
  "GetAudioPlayoutDeviceList E A log =
     (if publish E ''audioplay://'' then
        [''audioplay://'' @ to_string (int i). i \<leftarrow> [0..<nat (sint (playout_devices A log))],
           playout_name A log (of_nat i) \<noteq> -1]
      else [])"

text \<open>\<open>idx_audioDevice\<close> is an \<open>int16_t\<close> and the argument of \<open>RecordingDeviceName\<close> a \<open>uint16_t\<close>.\<close>

definition CreateAudioSource ::
  "capture_env \<Rightarrow> adm_env \<Rightarrow> adm_call list \<Rightarrow> string \<Rightarrow> options
     \<Rightarrow> (audio_source option \<times> adm_call list) res" where
  "CreateAudioSource E A log audiourl opts =
     (if starts_with audiourl ''rtsp://'' \<and> publish E ''rtsp://'' then
        (if have_live555 E
         then Inr (Some (LiveAudio RTSPConnection audiourl opts False), log @ [Adm_Terminate])
         else Inr (None, log))
      else if starts_with audiourl ''file://'' \<and> publish E ''file://'' then
        (if have_live555 E
         then Inr (Some (LiveAudio MKVClient audiourl opts True), log @ [Adm_Terminate])
         else Inr (None, log))
      else if publish E ''audiocap://'' then
        (let log1 = log @ [Adm_Init];
             num = sint (recording_devices A log1)
         in rbind (if starts_with audiourl ''audiocap://'' then
                     rbind (atoi (drop (length ''audiocap://'') audiourl)) (\<lambda>deviceNumber.
                       Inr (if recording_name A log1 (word_of_int deviceNumber) \<noteq> -1
                            then sint (word_of_int deviceNumber :: 16 word) else -1))
                   else Inr (-1)) (\<lambda>idx.
            if 0 \<le> idx \<and> idx < num
            then Inr (Some DeviceAudio, log1 @ [Adm_SetRecordingDevice idx])
            else Inr (None, log1)))
      else Inr (None, log))"

section \<open>The publish filter\<close>

definition source_scheme :: "video_source \<Rightarrow> string" where
  "source_scheme v =
     (case v of
        LiveVideo RTSPConnection _ _ _ _ _ \<Rightarrow> ''rtsp://''
      | LiveVideo MKVClient _ _ _ _ _ \<Rightarrow> ''file://''
      | LiveVideo SDPClient _ _ _ _ _ \<Rightarrow> ''rtp://''
      | RtmpVideo _ _ _ \<Rightarrow> ''rtmp://''
      | ScreenVideo _ \<Rightarrow> ''screen://''
      | WindowVideo _ \<Rightarrow> ''window://''
      | V4l2Video _ _ _ _ _ \<Rightarrow> ''v4l2://''
      | VcmVideo _ _ _ _ \<Rightarrow> ''videocap://'')"

lemmas capturer_creates =
  RTSPVideoCapturer_Create_def FileVideoCapturer_Create_def RTPVideoCapturer_Create_def
  LiveVideoSource_create_def RtmpVideoSource_Create_def ScreenCapturer_Create_def
  WindowCapturer_Create_def V4l2Capturer_Create_def VcmCapturer_Create_def VcmCapturer_Init_def

lemma created_schemes:
  "RTSPVideoCapturer_Create u opts n = Inr (Some v) \<Longrightarrow> source_scheme v = ''rtsp://''"
  "FileVideoCapturer_Create u opts n = Inr (Some v) \<Longrightarrow> source_scheme v = ''file://''"
  "RTPVideoCapturer_Create u opts n = Inr (Some v) \<Longrightarrow> source_scheme v = ''rtp://''"
  "RtmpVideoSource_Create u opts n = Inr (Some v) \<Longrightarrow> source_scheme v = ''rtmp://''"
  "ScreenCapturer_Create E u opts = Inr (Some v) \<Longrightarrow> source_scheme v = ''screen://''"
  "WindowCapturer_Create E u opts = Inr (Some v) \<Longrightarrow> source_scheme v = ''window://''"
  "V4l2Capturer_Create E u opts = Inr (Some v) \<Longrightarrow> source_scheme v = ''v4l2://''"
  "VcmCapturer_Create E u opts = Inr (Some v) \<Longrightarrow> source_scheme v = ''videocap://''"
  by (auto simp: capturer_creates source_scheme_def Let_def split: if_splits)

text \<open>
  The publish filter decides what a client can open: a video source exists only if the
  filter accepts the scheme of its kind, for every URL, option map and build configuration.
\<close>

theorem CreateVideoSource_published:
  assumes "CreateVideoSource E url opts n = Inr (Some v)"
  shows "publish E (source_scheme v)"
  using assms by (auto simp: CreateVideoSource_def dest!: created_schemes split: if_splits)

definition demo_env :: capture_env where
  "demo_env = \<lparr>have_live555 = True, use_x11 = True, have_rtmp = True, have_v4l2 = True,
     publish = (\<lambda>s. s \<in> {''rtsp://'', ''videocap://'', ''audiocap://''}), vcm_info = True, vcm_count = 2,
     vcm_name = (\<lambda>i. if i < 2 then (0, ''cam'' @ to_string (uint i)) else (-1, [])),
     vcm_module = (\<lambda>_. True), vcm_start = (\<lambda>_ _ _ _. True), vcm_started = (\<lambda>_. True),
     dev_entries = None, v4l2_open = (\<lambda>_ _ _ _ _. False), screen_capturer = False,
     screen_sources = None, window_capturer = False, window_sources = None,
     sdp_from_rtp_url = id\<rparr>"

lemmas demo_capture_defs = demo_env_def CreateVideoSource_def capturer_creates starts_with_def
  VideoScaler_def opt_int_def rotation_of_def

theorem CreateVideoSource_published_witness:
  "\<exists>v. CreateVideoSource demo_env ''rtsps://camera/live'' [] True = Inr (Some v) \<and>
       publish demo_env (source_scheme v)"
proof -
  have "\<exists>v. CreateVideoSource demo_env ''rtsps://camera/live'' [] True = Inr (Some v)"
    by (simp add: demo_capture_defs)
  then show ?thesis using CreateVideoSource_published by blast
qed

section \<open>Listed devices can be opened\<close>

lemma VcmCapturer_Init_device:
  assumes "vcm_info E" and "int i \<le> int_max"
    and "vcm_name E (of_nat i) = (0, ident)" and "ident \<noteq> []"
    and "vcm_module E ident" and "vcm_start E ident w h fps" and "vcm_started E ident"
  shows "VcmCapturer_Init E w h fps (''videocap://'' @ to_string (int i)) = Inr (Some (VcmVideo ident w h fps))"
proof -
  have "atoi (to_string (int i)) = Inr (int i)"
    using assms(2) by (intro atoi_to_string) (simp_all add: in_int_nonneg)
  with assms show ?thesis
    by (simp add: VcmCapturer_Init_def starts_with_iff_prefix)
qed

lemma videocap_only_vcm:
  "publish E ''videocap://'' \<Longrightarrow>
   CreateVideoSource E (''videocap://'' @ s) opts n = VcmCapturer_Create E (''videocap://'' @ s) opts"
  by (simp add: CreateVideoSource_def starts_with_iff_prefix)

text \<open>
  The names in the device list are usable as URLs: opening a listed capture device without
  options starts the device with the number that the list was made from, at 800 by 600, when
  the capture module accepts it (a device name lookup that does not report an error reports
  success and an identifier).
\<close>

theorem listed_device_opens:
  assumes "name \<in> set (GetVideoCaptureDeviceList E False)" and "int (vcm_count E) \<le> int_max"
    and "\<And>i. fst (vcm_name E i) \<noteq> -1 \<Longrightarrow> fst (vcm_name E i) = 0 \<and> snd (vcm_name E i) \<noteq> []"
    and "\<And>ident. vcm_module E ident \<and> vcm_start E ident 800 600 0 \<and> vcm_started E ident"
  shows "\<exists>i < vcm_count E. name = ''videocap://'' @ to_string (int i) \<and>
           CreateVideoSource E name [] False = Inr (Some (VcmVideo (snd (vcm_name E (of_nat i))) 800 600 0))"
proof -
  from assms(1) obtain i where i: "i < vcm_count E" "fst (vcm_name E (of_nat i)) \<noteq> -1"
    and name: "name = ''videocap://'' @ to_string (int i)"
    and on: "publish E ''videocap://''" "vcm_info E"
    by (auto simp: GetVideoCaptureDeviceList_def split: if_splits)
  have "VcmCapturer_Init E 800 600 0 name = Inr (Some (VcmVideo (snd (vcm_name E (of_nat i))) 800 600 0))"
    unfolding name using assms(2,3,4) i on
    by (intro VcmCapturer_Init_device) (auto simp: prod_eq_iff)
  moreover have "CreateVideoSource E name [] False = VcmCapturer_Init E 800 600 0 name"
    unfolding name videocap_only_vcm [OF on(1)] by (simp add: VcmCapturer_Create_def opt_int_def)
  ultimately show ?thesis using i name by auto
qed

theorem listed_device_opens_witness:
  "\<exists>i < vcm_count demo_env. ''videocap://1'' = ''videocap://'' @ to_string (int i) \<and>
     CreateVideoSource demo_env ''videocap://1'' [] False
       = Inr (Some (VcmVideo (snd (vcm_name demo_env (of_nat i))) 800 600 0))"
proof (rule listed_device_opens)
  show "''videocap://1'' \<in> set (GetVideoCaptureDeviceList demo_env False)"
    by (simp add: GetVideoCaptureDeviceList_def demo_env_def to_string_def nat_string.simps
        upt_conv_Cons char_of_def bit_iff_odd)
qed (auto simp: demo_env_def int_max_def to_string_def nat_string_nonempty split: if_splits)

section \<open>Audio devices\<close>

text \<open>
  A recording device is selected only if its number is below the number of recording
  devices that the module reports, whatever the URL says.
\<close>

theorem CreateAudioSource_device_in_range:
  assumes "CreateAudioSource E A log url opts = Inr (src, log')"
    and "Adm_SetRecordingDevice i \<in> set log'" and "Adm_SetRecordingDevice i \<notin> set log"
  shows "src = Some DeviceAudio \<and> publish E ''audiocap://'' \<and>
         0 \<le> i \<and> i < sint (recording_devices A (log @ [Adm_Init]))"
  using assms by (auto simp: CreateAudioSource_def Let_def split: if_splits)

definition demo_adm :: adm_env where
  "demo_adm = \<lparr>recording_devices = (\<lambda>_. 2), recording_name = (\<lambda>_ i. if i < 2 then 0 else -1),
     playout_devices = (\<lambda>_. 0), playout_name = (\<lambda>_ _. -1)\<rparr>"

lemmas demo_audio_defs = demo_adm_def demo_env_def CreateAudioSource_def starts_with_def atoi_def
  strtol10_def is_space_def is_digit_def in_int_def int_min_def int_max_def

theorem CreateAudioSource_device_in_range_witness:
  "\<exists>src. CreateAudioSource demo_env demo_adm [] ''audiocap://1'' []
       = Inr (src, [Adm_Init, Adm_SetRecordingDevice 1]) \<and>
     src = Some DeviceAudio \<and> publish demo_env ''audiocap://'' \<and>
     (0::int) \<le> 1 \<and> 1 < sint (recording_devices demo_adm ([] @ [Adm_Init]))"
proof -
  have c: "CreateAudioSource demo_env demo_adm [] ''audiocap://1'' []
       = Inr (Some DeviceAudio, [Adm_Init, Adm_SetRecordingDevice 1])"
    by (simp add: demo_audio_defs)
  from CreateAudioSource_device_in_range [OF c, of 1] c show ?thesis by simp
qed

text \<open>
  \<open>rtsps\<close> URLs are accepted for video only: the same URL as an audio source never opens
  the RTSP client, and gives no source at all.
\<close>

theorem rtsps_audio_refused:
  "\<exists>log'. CreateAudioSource E A log (''rtsps://'' @ rest) opts = Inr (None, log')"
  by (simp add: CreateAudioSource_def starts_with_iff_prefix)

end
