(* ===== verification/Peer_Manager.thy ===== *)
theory Peer_Manager
  imports Ice_Config Capturer_Factory
begin

text \<open>
  The peer connection manager (\<open>src/PeerConnectionManager.cpp\<close>,
  \<open>inc/PeerConnectionManager.h\<close>): its state and every operation of the signalling API.
  Observers live in an explicit store, so that a map entry is a pointer and \<open>delete\<close>
  makes it dangle; the two maps are ordered maps. WebRTC objects are opaque: the record
  \<open>webrtc\<close> is the interface that the manager calls, with \<open>'pc\<close> the state of a peer
  connection, \<open>'sd\<close> a session description and \<open>'cand\<close> a parsed candidate. Waiting
  for a promise is the outcome that the wait observes. Log output is not modelled.
\<close>

section \<open>The WebRTC interface\<close>

record track_info =
  t_kind :: string
  t_id :: string
  t_state :: "int option" \<comment> \<open>state of the source, if the track has one\<close>
  t_size :: "(int \<times> int) option" \<comment> \<open>\<open>GetStats\<close> of a video source\<close>
  t_level :: "int option" \<comment> \<open>\<open>GetSignalLevel\<close> of an audio track\<close>

record sender =
  stream_ids :: "string list"
  track :: "track_info option"

record rtc_config =
  plan_b :: bool
  servers :: "ice_server list"
  transport :: ice_transport
  min_port :: int
  max_port :: int

datatype sdp_type = Offer | Answer

text \<open>How an asynchronous operation ended, as far as the five second wait sees it.\<close>

datatype completion = Succeeded | Failed | Late
datatype 'sd creation = Created 'sd | CreationFailed | CreationLate

datatype media = Video video_source | Audio audio_source

record ('pc, 'sd, 'cand) webrtc =
  create_pc :: "rtc_config \<Rightarrow> bool \<Rightarrow> 'pc option"
  create_data_channel :: "'pc \<Rightarrow> string \<Rightarrow> 'pc \<times> bool"
  senders :: "'pc \<Rightarrow> sender list"
  remove_track :: "'pc \<Rightarrow> sender \<Rightarrow> 'pc"
  create_track :: "media \<Rightarrow> string \<Rightarrow> bool" \<comment> \<open>the factory gave a track\<close>
  add_track :: "'pc \<Rightarrow> media \<Rightarrow> string \<Rightarrow> string \<Rightarrow> 'pc \<times> bool"
  set_bitrate :: "'pc \<Rightarrow> int \<times> int \<times> int \<Rightarrow> 'pc"
  parse_candidate :: "string \<Rightarrow> int \<Rightarrow> string \<Rightarrow> 'cand option"
  add_candidate :: "'pc \<Rightarrow> 'cand \<Rightarrow> 'pc \<times> bool"
  parse_sdp :: "sdp_type \<Rightarrow> string \<Rightarrow> 'sd option"
  sdp_text :: "'sd \<Rightarrow> string"
  sdp_kind :: "'sd \<Rightarrow> string"
  local_description :: "'pc \<Rightarrow> 'sd option"
  remote_description :: "'pc \<Rightarrow> 'sd option"
  set_local :: "'pc \<Rightarrow> 'sd \<Rightarrow> 'pc \<times> completion"
  set_remote :: "'pc \<Rightarrow> 'sd \<Rightarrow> 'pc \<times> completion"
  create_offer :: "'pc \<Rightarrow> 'pc \<times> 'sd creation" \<comment> \<open>with \<open>offer_to_receive\<close> 0 for both media\<close>
  create_answer :: "'pc \<Rightarrow> 'pc \<times> 'sd creation"
  gathering_complete :: "'pc \<Rightarrow> nat \<Rightarrow> bool" \<comment> \<open>state seen by the n-th poll\<close>
  json_string :: "json \<Rightarrow> string \<Rightarrow> string option" \<comment> \<open>\<open>GetStringFromJsonObject\<close>\<close>
  json_int :: "json \<Rightarrow> string \<Rightarrow> int option" \<comment> \<open>\<open>GetIntFromJsonObject\<close>\<close>

section \<open>State\<close>

record config =
  m_iceServerList :: "string list"
  m_config :: json
  m_videoaudiomap :: "(string, string) smap"
  m_webrtcPortRange :: string
  m_useNullCodec :: bool
  m_usePlanB :: bool
  m_maxpc :: int
  m_transportType :: ice_transport
  m_extraHost :: string
  builtin_factory :: bool \<comment> \<open>\<open>m_builtin_peer_connection_factory\<close> is not null\<close>
  null_factory :: bool
  hash_fn :: "string \<Rightarrow> nat"
  capture :: capture_env
  adm :: adm_env
  net :: net_env

record 'pc observer =
  m_peerid :: string
  m_pc :: "'pc option"
  m_iceCandidateList :: "json list"
  m_deleting :: bool
  m_creationTime :: "64 word"

type_synonym stream_pair = "video_source option \<times> audio_source option"

record 'pc manager =
  heap :: "nat \<Rightarrow> 'pc observer option"
  next_addr :: nat
  peer_map :: "(string, nat) smap" \<comment> \<open>\<open>m_peer_connectionobs_map\<close>\<close>
  stream_map :: "(string, stream_pair) smap" \<comment> \<open>\<open>m_stream_map\<close>\<close>
  adm_log :: "adm_call list"
  waits :: nat \<comment> \<open>sleeps of 250 ms spent on gathering\<close>
  hangup_threads :: "nat list" \<comment> \<open>detached threads that have not run yet: the captured \<open>this\<close>\<close>

definition init_manager :: "'pc manager" where
  "init_manager = \<lparr>heap = (\<lambda>_. None), next_addr = 0, peer_map = [], stream_map = [],
                   adm_log = [], waits = 0, hangup_threads = []\<rparr>"

definition InitializePeerConnection :: "config \<Rightarrow> bool" where
  "InitializePeerConnection C \<longleftrightarrow> builtin_factory C \<and> null_factory C"

text \<open>\<open>it->second->...\<close>\<close>

definition deref :: "'pc manager \<Rightarrow> nat \<Rightarrow> 'pc observer res" where
  "deref st a = (case heap st a of None \<Rightarrow> Inl UseAfterFree | Some obs \<Rightarrow> Inr obs)"

definition nonnull :: "'a option \<Rightarrow> 'a res" where
  "nonnull p = (case p of None \<Rightarrow> Inl NullDeref | Some x \<Rightarrow> Inr x)"

text \<open>The peer connection is shared: a call through it changes what the observer holds.\<close>

definition put_pc :: "nat \<Rightarrow> 'pc \<Rightarrow> 'pc manager \<Rightarrow> 'pc manager" where
  "put_pc a pc st =
     st\<lparr>heap := (heap st)(a := map_option (\<lambda>obs. obs\<lparr>m_pc := Some pc\<rparr>) (heap st a))\<rparr>"

text \<open>
  \<open>OnIceConnectionChange\<close> of the observer at an address: a connection that failed or closed
  loses its candidates, and a thread is started to hang it up unless it is being deleted.
\<close>

datatype ice_connection_state = IceNew | IceChecking | IceConnected | IceCompleted | IceFailed
  | IceDisconnected | IceClosed

definition OnIceConnectionChange ::
  "'pc manager \<Rightarrow> nat \<Rightarrow> ice_connection_state \<Rightarrow> 'pc manager res" where
  "OnIceConnectionChange st a state =
     rbind (deref st a) (\<lambda>obs.
       if state = IceFailed \<or> state = IceClosed then
         let st1 = st\<lparr>heap := (heap st)(a \<mapsto> obs\<lparr>m_iceCandidateList := []\<rparr>)\<rparr>
         in Inr (if \<not> m_deleting obs then st1\<lparr>hangup_threads := hangup_threads st1 @ [a]\<rparr> else st1)
       else Inr st)"

text \<open>
  \<open>delete pcObserver\<close>: the destructor marks the observer and closes the connection, which
  calls \<open>OnIceConnectionChange\<close> on the way.
\<close>

definition close_observer :: "nat \<Rightarrow> 'pc manager \<Rightarrow> 'pc manager" where
  "close_observer a st =
     (case heap st a of
        None \<Rightarrow> st
      | Some obs \<Rightarrow>
          if m_pc obs \<noteq> None then
            (case OnIceConnectionChange (st\<lparr>heap := (heap st)(a \<mapsto> obs\<lparr>m_deleting := True\<rparr>)\<rparr>) a IceClosed of
               Inr st' \<Rightarrow> st' | Inl _ \<Rightarrow> st)
          else st)"

definition delete_observer :: "nat \<Rightarrow> 'pc manager \<Rightarrow> 'pc manager" where
  "delete_observer a st = (let st' = close_observer a st in st'\<lparr>heap := (heap st')(a := None)\<rparr>)"

definition register_peer :: "string \<Rightarrow> nat \<Rightarrow> 'pc manager \<Rightarrow> 'pc manager" where
  "register_peer peerid a st = st\<lparr>peer_map := smap_insert peerid a (peer_map st)\<rparr>"

section \<open>Session description observers\<close>

text \<open>
  What the promise of a \<open>SetSessionDescriptionObserver\<close> holds after the wait: \<open>None\<close>
  when it is not ready, \<open>Some None\<close> for the null pointer of \<open>OnFailure\<close>. On success it
  is a copy of the local description, or else of the remote one; with neither the promise is
  never set.
\<close>

definition session_promise :: "('pc, 'sd, 'cand) webrtc \<Rightarrow> 'pc \<Rightarrow> completion \<Rightarrow> 'sd option option" where
  "session_promise W pc c =
     (case c of
        Succeeded \<Rightarrow> (case local_description W pc of
                        Some d \<Rightarrow> Some (Some d)
                      | None \<Rightarrow> (case remote_description W pc of
                                   Some d \<Rightarrow> Some (Some d)
                                 | None \<Rightarrow> None))
      | Failed \<Rightarrow> Some None
      | Late \<Rightarrow> None)"

text \<open>\<open>CreateSessionDescriptionObserver\<close>: success installs the description locally.\<close>

definition creation_promise ::
  "('pc, 'sd, 'cand) webrtc \<Rightarrow> 'pc \<times> 'sd creation \<Rightarrow> 'pc \<times> 'sd option option" where
  "creation_promise W r =
     (case r of
        (pc, Created d) \<Rightarrow> (case set_local W pc d of (pc', c) \<Rightarrow> (pc', session_promise W pc' c))
      | (pc, CreationFailed) \<Rightarrow> (pc, Some None)
      | (pc, CreationLate) \<Rightarrow> (pc, None))"

definition description_json :: "('pc, 'sd, 'cand) webrtc \<Rightarrow> 'sd \<Rightarrow> json" where
  "description_json W d = json_object [(''type'', JString (sdp_kind W d)), (''sdp'', JString (sdp_text W d))]"

section \<open>Looking up, hanging up\<close>

definition getPeerConnection :: "'pc manager \<Rightarrow> string \<Rightarrow> 'pc option res" where
  "getPeerConnection st peerid =
     (case map_of (peer_map st) peerid of
        None \<Rightarrow> Inr None
      | Some a \<Rightarrow> rbind (deref st a) (\<lambda>obs. Inr (m_pc obs)))"

definition sender_label :: "sender \<Rightarrow> string option" where
  "sender_label s = (case stream_ids s of [] \<Rightarrow> None | l # _ \<Rightarrow> Some l)"

fun still_used ::
  "('pc, 'sd, 'cand) webrtc \<Rightarrow> 'pc manager \<Rightarrow> string \<Rightarrow> (string \<times> nat) list \<Rightarrow> bool res" where
  "still_used W st streamLabel [] = Inr False"
| "still_used W st streamLabel (e # es) =
     rbind (deref st (snd e)) (\<lambda>obs.
     rbind (nonnull (m_pc obs)) (\<lambda>pc.
     rbind (still_used W st streamLabel es) (\<lambda>rest.
       Inr (list_ex (\<lambda>s. sender_label s = Some streamLabel) (senders W pc) \<or> rest))))"

definition streamStillUsed ::
  "('pc, 'sd, 'cand) webrtc \<Rightarrow> 'pc manager \<Rightarrow> string \<Rightarrow> bool res" where
  "streamStillUsed W st streamLabel = still_used W st streamLabel (peer_map st)"

text \<open>The loop of \<open>hangUp\<close> over a copy of the senders.\<close>

fun release_senders ::
  "('pc, 'sd, 'cand) webrtc \<Rightarrow> 'pc manager \<Rightarrow> 'pc \<Rightarrow> sender list \<Rightarrow> ('pc manager \<times> 'pc) res" where
  "release_senders W st pc [] = Inr (st, pc)"
| "release_senders W st pc (s # ss) =
     (case sender_label s of
        None \<Rightarrow> release_senders W st pc ss
      | Some streamLabel \<Rightarrow>
          rbind (streamStillUsed W st streamLabel) (\<lambda>stillUsed.
          let st' = (if stillUsed then st
                     else st\<lparr>stream_map := smap_erase streamLabel (stream_map st)\<rparr>)
          in release_senders W st' (remove_track W pc s) ss))"

definition hangUp ::
  "('pc, 'sd, 'cand) webrtc \<Rightarrow> 'pc manager \<Rightarrow> string \<Rightarrow> (json \<times> 'pc manager) res" where
  "hangUp W st peerid =
     (case map_of (peer_map st) peerid of
        None \<Rightarrow> Inr (JNull, st)
      | Some a \<Rightarrow>
          rbind (deref st a) (\<lambda>obs.
          rbind (nonnull (m_pc obs)) (\<lambda>pc.
          rbind (release_senders W (st\<lparr>peer_map := smap_erase peerid (peer_map st)\<rparr>) pc (senders W pc))
            (\<lambda>(st', pc'). Inr (JBool True, delete_observer a st')))))"

section \<open>Creating a peer connection\<close>

fun oldest ::
  "'pc manager \<Rightarrow> (string \<times> nat) list \<Rightarrow> 64 word \<Rightarrow> string \<Rightarrow> string res" where
  "oldest st [] oldestpc oldestpeerid = Inr oldestpeerid"
| "oldest st (e # es) oldestpc oldestpeerid =
     rbind (deref st (snd e)) (\<lambda>obs.
     if m_creationTime obs < oldestpc
     then oldest st es (m_creationTime obs) (m_peerid obs)
     else oldest st es oldestpc oldestpeerid)"

definition getOldestPeerCannection :: "config \<Rightarrow> 'pc manager \<Rightarrow> string res" where
  "getOldestPeerCannection C st =
     (if m_maxpc C > 0 \<and> int (length (peer_map st)) \<ge> m_maxpc C
      then oldest st (peer_map st) (- 1) []
      else Inr [])"

definition peer_config :: "config \<Rightarrow> rtc_config res" where
  "peer_config C =
     rbind (parse_port_range (m_webrtcPortRange C)) (\<lambda>(minPort, maxPort).
       Inr \<lparr>plan_b = m_usePlanB C,
            servers = map (\<lambda>s. getIceServerFromUrl (net C) s []) (m_iceServerList C),
            transport = m_transportType C, min_port = minPort, max_port = maxPort\<rparr>)"

text \<open>The constructor of \<open>PeerConnectionObserver\<close>.\<close>

definition PeerConnectionObserver ::
  "('pc, 'sd, 'cand) webrtc \<Rightarrow> string \<Rightarrow> rtc_config \<Rightarrow> bool \<Rightarrow> 64 word \<Rightarrow> 'pc observer" where
  "PeerConnectionObserver W peerid cfg nullCodec now =
     \<lparr>m_peerid = peerid,
      m_pc = (case create_pc W cfg nullCodec of
                None \<Rightarrow> None
              | Some pc \<Rightarrow> Some (fst (create_data_channel W pc ''ServerDataChannel''))),
      m_iceCandidateList = [], m_deleting = False, m_creationTime = now\<rparr>"

definition factory_of :: "config \<Rightarrow> bool \<Rightarrow> bool" where
  "factory_of C nullCodec = (if nullCodec then null_factory C else builtin_factory C)"

definition CreatePeerConnection ::
  "config \<Rightarrow> ('pc, 'sd, 'cand) webrtc \<Rightarrow> 'pc manager \<Rightarrow> string \<Rightarrow> bool \<Rightarrow> 64 word
     \<Rightarrow> (nat option \<times> 'pc manager) res" where
  "CreatePeerConnection C W st peerid nullCodec now =
     rbind (getOldestPeerCannection C st) (\<lambda>oldestpeerid.
     rbind (if oldestpeerid \<noteq> [] then hangUp W st oldestpeerid else Inr (JNull, st)) (\<lambda>(_, st1).
     rbind (peer_config C) (\<lambda>cfg.
       if \<not> factory_of C nullCodec then Inr (None, st1)
       else Inr (Some (next_addr st1),
                 st1\<lparr>heap := (heap st1)(next_addr st1 \<mapsto> PeerConnectionObserver W peerid cfg nullCodec now),
                     next_addr := Suc (next_addr st1)\<rparr>))))"

section \<open>Adding streams\<close>

text \<open>
  One of the two blocks that put a track on the connection: without a source nothing happens;
  a track that the factory did not create counts as added.
\<close>

definition attach ::
  "('pc, 'sd, 'cand) webrtc \<Rightarrow> media option \<Rightarrow> string \<Rightarrow> string \<Rightarrow> 'pc option \<times> bool
     \<Rightarrow> ('pc option \<times> bool) res" where
  "attach W source trackid streamLabel r =
     (case r of (pc, ret) \<Rightarrow>
        (case source of
           None \<Rightarrow> Inr (pc, ret)
         | Some m \<Rightarrow>
             if create_track W m trackid then
               rbind (nonnull pc) (\<lambda>p.
                 case add_track W p m trackid streamLabel of (p', ok) \<Rightarrow>
                   Inr (Some p', if ok then True else ret))
             else Inr (pc, True)))"

definition add_tracks ::
  "('pc, 'sd, 'cand) webrtc \<Rightarrow> stream_pair \<Rightarrow> string \<Rightarrow> 'pc option \<Rightarrow> ('pc option \<times> bool) res" where
  "add_tracks W pair streamLabel pc =
     rbind (attach W (map_option Video (fst pair)) (streamLabel @ ''_video'') streamLabel (pc, False))
       (attach W (map_option Audio (snd pair)) (streamLabel @ ''_audio'') streamLabel)"

definition apply_bitrate ::
  "('pc, 'sd, 'cand) webrtc \<Rightarrow> options \<Rightarrow> 'pc option \<Rightarrow> 'pc option res" where
  "apply_bitrate W opts pc =
     (case map_of opts ''bitrate'' of
        None \<Rightarrow> Inr pc
      | Some v \<Rightarrow>
          rbind (stoi v) (\<lambda>bitrate.
          rbind (bitrate_settings bitrate) (\<lambda>b.
          rbind (nonnull pc) (\<lambda>p. Inr (Some (set_bitrate W p b))))))"

text \<open>
  Creating the sources when the label is not in the map, with the second look under the lock:
  an entry that is there by then stays.
\<close>

definition ensure_stream ::
  "config \<Rightarrow> 'pc manager \<Rightarrow> string \<Rightarrow> string \<Rightarrow> string \<Rightarrow> options \<Rightarrow> bool \<Rightarrow> 'pc manager res" where
  "ensure_stream C st streamLabel video audio opts nullCodec =
     (if map_of (stream_map st) streamLabel = None then
        rbind (CreateVideoSource (capture C) video opts nullCodec) (\<lambda>videoSource.
        rbind (CreateAudioSource (capture C) (adm C) (adm_log st) audio opts) (\<lambda>(audioSource, log).
          Inr (st\<lparr>adm_log := log,
                  stream_map := smap_insert streamLabel (videoSource, audioSource) (stream_map st)\<rparr>)))
      else Inr st)"

definition AddStreams ::
  "config \<Rightarrow> ('pc, 'sd, 'cand) webrtc \<Rightarrow> 'pc manager \<Rightarrow> 'pc option \<Rightarrow> string \<Rightarrow> string \<Rightarrow> string \<Rightarrow> bool
     \<Rightarrow> (bool \<times> 'pc option \<times> 'pc manager) res" where
  "AddStreams C W st pc videourl audiourl opts0 nullCodec =
     (if \<not> factory_of C nullCodec then Inr (False, pc, st)
      else
        rbind (merge_options (m_config C) videourl opts0) (\<lambda>optstring.
        let opts = parse_options optstring in
        rbind (resolve_url (m_config C) ''video'' videourl) (\<lambda>video.
        rbind (resolve_url (m_config C) ''audio'' audiourl) (\<lambda>audio.
        rbind (apply_bitrate W opts pc) (\<lambda>pc1.
        let streamLabel = stream_label (hash_fn C) videourl audiourl
                            (capturer_options video audio opts) nullCodec in
        rbind (ensure_stream C st streamLabel video audio opts nullCodec) (\<lambda>st1.
        case map_of (stream_map st1) streamLabel of
          None \<Rightarrow> Inr (False, pc1, st1)
        | Some pair \<Rightarrow>
            rbind (add_tracks W pair streamLabel pc1) (\<lambda>(pc2, ret). Inr (ret, pc2, st1))))))))"

text \<open>The effect of \<open>AddStreams\<close> on the connection of the observer at an address.\<close>

definition put_pc_opt :: "nat \<Rightarrow> 'pc option \<Rightarrow> 'pc manager \<Rightarrow> 'pc manager" where
  "put_pc_opt a pc st = (case pc of None \<Rightarrow> st | Some p \<Rightarrow> put_pc a p st)"

section \<open>Offers and answers\<close>

definition createOffer ::
  "config \<Rightarrow> ('pc, 'sd, 'cand) webrtc \<Rightarrow> 'pc manager \<Rightarrow> string \<Rightarrow> string \<Rightarrow> string \<Rightarrow> string \<Rightarrow> 64 word
     \<Rightarrow> (json \<times> 'pc manager) res" where
  "createOffer C W st peerid videourl audiourl opts now =
     rbind (CreatePeerConnection C W st peerid (m_useNullCodec C) now) (\<lambda>(obs, st1).
     case obs of
       None \<Rightarrow> Inr (JNull, st1)
     | Some a \<Rightarrow>
         rbind (deref st1 a) (\<lambda>ob.
         rbind (AddStreams C W st1 (m_pc ob) videourl audiourl opts (m_useNullCodec C)) (\<lambda>(added, pc, st2).
         let st3 = put_pc_opt a pc st2 in
         if \<not> added then Inr (JNull, st3)
         else
           let st4 = register_peer peerid a st3 in
           rbind (nonnull pc) (\<lambda>p.
             case creation_promise W (create_offer W p) of (p', desc) \<Rightarrow>
               Inr (case desc of
                      Some (Some d) \<Rightarrow> description_json W d
                    | Some None \<Rightarrow> JNull
                    | None \<Rightarrow> JNull,
                    put_pc a p' st4)))))"

definition error_json :: "string \<Rightarrow> json" where
  "error_json msg = json_object [(''error'', JString msg)]"

definition setAnswer ::
  "('pc, 'sd, 'cand) webrtc \<Rightarrow> 'pc manager \<Rightarrow> string \<Rightarrow> json \<Rightarrow> (json \<times> 'pc manager) res" where
  "setAnswer W st peerid jmessage =
     (case json_string W jmessage ''sdp'' of
        None \<Rightarrow> Inr (error_json ''Can't parse received message.'', st)
      | Some sdp \<Rightarrow>
          (case parse_sdp W Answer sdp of
             None \<Rightarrow> Inr (error_json ''Can't parse received session description message.'', st)
           | Some sd \<Rightarrow>
               (case map_of (peer_map st) peerid of
                  None \<Rightarrow> Inr (JNull, st)
                | Some a \<Rightarrow>
                    rbind (deref st a) (\<lambda>obs.
                      case m_pc obs of
                        None \<Rightarrow> Inr (JNull, st)
                      | Some pc \<Rightarrow>
                          (case set_remote W pc sd of (pc', c) \<Rightarrow>
                             Inr (case session_promise W pc' c of
                                    Some (Some d) \<Rightarrow> description_json W d
                                  | Some None \<Rightarrow> error_json ''Can't get remote description.''
                                  | None \<Rightarrow> error_json ''Can't get remote description.'',
                                  put_pc a pc' st))))))"

text \<open>\<open>while (state != complete && retry > 0)\<close>: the number of sleeps.\<close>

fun wait_gathering :: "(nat \<Rightarrow> bool) \<Rightarrow> nat \<Rightarrow> nat \<Rightarrow> nat" where
  "wait_gathering complete poll 0 = 0"
| "wait_gathering complete poll (Suc retry) =
     (if complete poll then 0 else Suc (wait_gathering complete (Suc poll) retry))"

definition negotiate ::
  "('pc, 'sd, 'cand) webrtc \<Rightarrow> nat \<Rightarrow> 'pc \<Rightarrow> 'sd \<Rightarrow> bool \<Rightarrow> 'pc manager \<Rightarrow> 'sd option \<times> 'pc manager" where
  "negotiate W a pc sd waitgathering st =
     (case set_remote W pc sd of (pc1, _) \<Rightarrow>
      case creation_promise W (create_answer W pc1) of (pc2, desc) \<Rightarrow>
      let sleeps = (if waitgathering then wait_gathering (gathering_complete W pc2) 0 5 else 0);
          st' = (put_pc a pc2 st)\<lparr>waits := waits st + sleeps\<rparr>
      in (case desc of Some (Some d) \<Rightarrow> (Some d, st') | Some None \<Rightarrow> (None, st') | None \<Rightarrow> (None, st')))"

definition getAnswer ::
  "config \<Rightarrow> ('pc, 'sd, 'cand) webrtc \<Rightarrow> 'pc manager \<Rightarrow> string \<Rightarrow> 'sd \<Rightarrow> string \<Rightarrow> string \<Rightarrow> string
     \<Rightarrow> bool \<Rightarrow> bool \<Rightarrow> 64 word \<Rightarrow> ('sd option \<times> 'pc manager) res" where
  "getAnswer C W st peerid sd videourl audiourl opts waitgathering nullCodec now =
     rbind (CreatePeerConnection C W st peerid nullCodec now) (\<lambda>(obs, st1).
     case obs of
       None \<Rightarrow> Inr (None, st1)
     | Some a \<Rightarrow>
         rbind (deref st1 a) (\<lambda>ob.
         case m_pc ob of
           None \<Rightarrow> Inr (None, delete_observer a st1)
         | Some pc \<Rightarrow>
             let st2 = register_peer peerid a st1 in
             rbind (AddStreams C W st2 (Some pc) videourl audiourl opts nullCodec) (\<lambda>(added, pc', st3).
             let st4 = put_pc_opt a pc' st3 in
             if \<not> added then Inr (None, st4)
             else rbind (nonnull pc') (\<lambda>p. Inr (negotiate W a p sd waitgathering st4)))))"

definition getAnswer_sdp ::
  "config \<Rightarrow> ('pc, 'sd, 'cand) webrtc \<Rightarrow> 'pc manager \<Rightarrow> string \<Rightarrow> string \<Rightarrow> string \<Rightarrow> string \<Rightarrow> string
     \<Rightarrow> bool \<Rightarrow> bool \<Rightarrow> 64 word \<Rightarrow> ('sd option \<times> 'pc manager) res" where
  "getAnswer_sdp C W st peerid sdpoffer videourl audiourl opts waitgathering nullCodec now =
     (case parse_sdp W Offer sdpoffer of
        None \<Rightarrow> Inr (None, st)
      | Some sd \<Rightarrow> getAnswer C W st peerid sd videourl audiourl opts waitgathering nullCodec now)"

definition call ::
  "config \<Rightarrow> ('pc, 'sd, 'cand) webrtc \<Rightarrow> 'pc manager \<Rightarrow> string \<Rightarrow> string \<Rightarrow> string \<Rightarrow> string \<Rightarrow> json \<Rightarrow> bool
     \<Rightarrow> 64 word \<Rightarrow> (json \<times> 'pc manager) res" where
  "call C W st peerid videourl audiourl opts jmessage nullCodec now =
     (case json_string W jmessage ''sdp'' of
        None \<Rightarrow> Inr (JNull, st)
      | Some sdp \<Rightarrow>
          rbind (getAnswer_sdp C W st peerid sdp videourl audiourl opts False nullCodec now) (\<lambda>(desc, st').
            Inr (case desc of Some d \<Rightarrow> description_json W d | None \<Rightarrow> JNull, st')))"

section \<open>Candidates\<close>

text \<open>Handing a parsed candidate to the connection of a peer: whether it was applied.\<close>

definition apply_candidate ::
  "('pc, 'sd, 'cand) webrtc \<Rightarrow> 'pc manager \<Rightarrow> string \<Rightarrow> 'cand \<Rightarrow> (bool \<times> 'pc manager) res" where
  "apply_candidate W st peerid cand =
     (case map_of (peer_map st) peerid of
        None \<Rightarrow> Inr (False, st)
      | Some a \<Rightarrow>
          rbind (deref st a) (\<lambda>obs.
            case m_pc obs of
              None \<Rightarrow> Inr (False, st)
            | Some pc \<Rightarrow>
                (case add_candidate W pc cand of (pc', ok) \<Rightarrow> Inr (ok, put_pc a pc' st))))"

definition addIceCandidate ::
  "('pc, 'sd, 'cand) webrtc \<Rightarrow> 'pc manager \<Rightarrow> string \<Rightarrow> json \<Rightarrow> (json \<times> 'pc manager) res" where
  "addIceCandidate W st peerid jmessage =
     (case (json_string W jmessage ''sdpMid'', json_int W jmessage ''sdpMLineIndex'',
            json_string W jmessage ''candidate'') of
        (Some mid, Some idx, Some sdp) \<Rightarrow>
          (case parse_candidate W mid idx sdp of
             None \<Rightarrow> Inr (JNull, st)
           | Some cand \<Rightarrow>
               rbind (apply_candidate W st peerid cand) (\<lambda>(ok, st').
                 Inr (if ok then JBool True else JNull, st')))
      | _ \<Rightarrow> Inr (JNull, st))"

definition getIceCandidateList :: "'pc manager \<Rightarrow> string \<Rightarrow> json res" where
  "getIceCandidateList st peerid =
     (case map_of (peer_map st) peerid of
        None \<Rightarrow> Inr JNull
      | Some a \<Rightarrow> rbind (deref st a) (\<lambda>obs. Inr (JArray (m_iceCandidateList obs))))"

text \<open>\<open>OnIceCandidate\<close> of the observer at an address.\<close>

definition observer_candidate :: "config \<Rightarrow> 'pc manager \<Rightarrow> nat \<Rightarrow> ice_candidate \<Rightarrow> 'pc manager res" where
  "observer_candidate C st a c =
     rbind (deref st a) (\<lambda>obs.
       Inr (st\<lparr>heap := (heap st)(a \<mapsto>
         obs\<lparr>m_iceCandidateList := OnIceCandidate (m_extraHost C) c (m_iceCandidateList obs)\<rparr>)\<rparr>))"

text \<open>A detached thread runs: \<open>hangUp(m_peerid)\<close> through the captured pointer.\<close>

definition run_hangup_thread ::
  "('pc, 'sd, 'cand) webrtc \<Rightarrow> 'pc manager \<Rightarrow> nat \<Rightarrow> (json \<times> 'pc manager) res" where
  "run_hangup_thread W st a =
     rbind (deref st a) (\<lambda>obs.
       hangUp W (st\<lparr>hangup_threads := remove1 a (hangup_threads st)\<rparr>) (m_peerid obs))"

section \<open>WHEP\<close>

record whep_patch =
  p_mid :: string
  p_code :: int

definition strip_cr :: "string \<Rightarrow> string" where
  "strip_cr s = filter (\<lambda>c. c \<noteq> CHR 0x0D) s"

text \<open>\<open>strstr(str.c_str(), ...)\<close> sees the characters before the first NUL.\<close>

definition strstr :: "string \<Rightarrow> string \<Rightarrow> bool" where
  "strstr str needle \<longleftrightarrow> str_find needle (takeWhile (\<lambda>c. c \<noteq> CHR 0x00) str) \<noteq> None"

definition patch_line ::
  "('pc, 'sd, 'cand) webrtc \<Rightarrow> string \<Rightarrow> whep_patch \<times> 'pc manager \<Rightarrow> string
     \<Rightarrow> (whep_patch \<times> 'pc manager) res" where
  "patch_line W peerid r line =
     (case r of (p, st) \<Rightarrow>
      let str = strip_cr line in
      if strstr str ''a=mid:'' then
        rbind (substr_from str (length ''a=mid:'')) (\<lambda>mid. Inr (p\<lparr>p_mid := mid\<rparr>, st))
      else if strstr str ''a=candidate'' then
        rbind (substr_from str (length ''a='')) (\<lambda>sdp.
          case parse_candidate W (p_mid p) 0 sdp of
            None \<Rightarrow> Inr (p, st)
          | Some cand \<Rightarrow>
              rbind (apply_candidate W st peerid cand) (\<lambda>(ok, st').
                Inr (if ok then p\<lparr>p_code := 200\<rparr> else p, st')))
      else if strstr str ''a=end-of-candidates'' then Inr (p\<lparr>p_code := 200\<rparr>, st)
      else Inr (p, st))"

fun patch_lines ::
  "('pc, 'sd, 'cand) webrtc \<Rightarrow> string \<Rightarrow> whep_patch \<times> 'pc manager \<Rightarrow> string list
     \<Rightarrow> (whep_patch \<times> 'pc manager) res" where
  "patch_lines W peerid r [] = Inr r"
| "patch_lines W peerid r (l # ls) = rbind (patch_line W peerid r l) (\<lambda>r'. patch_lines W peerid r' ls)"

type_synonym headers = "(string, string) smap"
type_synonym http_return = "int \<times> headers \<times> json"

definition whep ::
  "config \<Rightarrow> ('pc, 'sd, 'cand) webrtc \<Rightarrow> 'pc manager \<Rightarrow> string \<Rightarrow> string \<Rightarrow> string \<Rightarrow> string \<Rightarrow> string
     \<Rightarrow> string \<Rightarrow> bool \<Rightarrow> json \<Rightarrow> (nat \<Rightarrow> nat) \<Rightarrow> 64 word \<Rightarrow> (http_return \<times> 'pc manager) res" where
  "whep C W st method url requestPeerId videourl audiourl opts nullCodec body rand now =
     (let peerid = (if requestPeerId = [] then random_string rand 32 else requestPeerId);
          locationurl = (if requestPeerId = [] then url @ ''&'' @ ''peerid='' @ peerid else url)
      in if method = ''DELETE'' then
           rbind (hangUp W st peerid) (\<lambda>(_, st'). Inr ((501, [], JString []), st'))
         else if method = ''PATCH'' then
           rbind (as_string body) (\<lambda>text.
           rbind (patch_lines W peerid (\<lparr>p_mid = [], p_code = 501\<rparr>, st)
                    (read_lines (istringstream text))) (\<lambda>(p, st').
             Inr ((p_code p, [], JString []), st')))
         else
           rbind (as_string body) (\<lambda>offersdp.
           rbind (getAnswer_sdp C W st peerid offersdp videourl audiourl opts True nullCodec now)
             (\<lambda>(desc, st').
             case desc of
               Some d \<Rightarrow>
                 Inr ((201, fold (\<lambda>(k, v). smap_assign k v)
                              [(''Location'', locationurl),
                               (''Access-Control-Expose-Headers'', ''Location''),
                               (''Content-Type'', ''application/sdp'')] [],
                       JString (sdp_text W d)), st')
             | None \<Rightarrow> Inr ((501, [], JString []), st'))))"

section \<open>Lists\<close>

definition getStreamList :: "'pc manager \<Rightarrow> json" where
  "getStreamList st = JArray (map (\<lambda>e. JString (fst e)) (stream_map st))"

definition getVideoDeviceList :: "config \<Rightarrow> json" where
  "getVideoDeviceList C = JArray (map JString (GetVideoCaptureDeviceList (capture C) (m_useNullCodec C)))"

definition getAudioDeviceList :: "config \<Rightarrow> 'pc manager \<Rightarrow> json" where
  "getAudioDeviceList C st =
     JArray (map JString (GetAudioCaptureDeviceList (capture C) (adm C) (adm_log st)))"

definition getAudioPlayoutList :: "config \<Rightarrow> 'pc manager \<Rightarrow> json" where
  "getAudioPlayoutList C st =
     JArray (map JString (GetAudioPlayoutDeviceList (capture C) (adm C) (adm_log st)))"

text \<open>A configured stream is listed with its name in place of its URLs.\<close>

definition named_media :: "string \<times> json \<Rightarrow> json res" where
  "named_media e =
     rbind (is_member (snd e) ''video'') (\<lambda>v.
     rbind (if v then set_member (snd e) ''video'' (JString (fst e)) else Inr (snd e)) (\<lambda>m1.
     rbind (is_member m1 ''audio'') (\<lambda>a.
       if a then set_member m1 ''audio'' (JString (fst e)) else Inr m1)))"

fun named_medias :: "(string \<times> json) list \<Rightarrow> json list res" where
  "named_medias [] = Inr []"
| "named_medias (e # es) =
     rbind (named_media e) (\<lambda>m. rbind (named_medias es) (\<lambda>ms. Inr (m # ms)))"

text \<open>What \<open>for (it = m_config.begin(); ...)\<close> visits: the entries of an object, the elements
  of an array under their numbers, nothing else.\<close>

definition config_entries :: "json \<Rightarrow> (string \<times> json) list" where
  "config_entries j =
     (case j of
        JObject m \<Rightarrow> m
      | JArray xs \<Rightarrow> zip (map (\<lambda>i. to_string (int i)) [0..<length xs]) xs
      | _ \<Rightarrow> [])"

definition getMediaList :: "config \<Rightarrow> json res" where
  "getMediaList C =
     rbind (named_medias (config_entries (m_config C))) (\<lambda>named.
       Inr (JArray
         (map (\<lambda>d. json_object ((''video'', JString d) #
              (case map_of (m_videoaudiomap C) d of None \<Rightarrow> [] | Some a \<Rightarrow> [(''audio'', JString a)])))
            (GetVideoCaptureDeviceList (capture C) (m_useNullCodec C)) @
          map (\<lambda>v. json_object [(''video'', JString v)])
            (GetVideoSourceList (capture C) (m_useNullCodec C)) @
          named)))"

end
