(* ===== verification/Peer_Invariants.thy ===== *)
theory Peer_Invariants
  imports Peer_Manager
begin

text \<open>
  The invariant of the store and the maps of the peer connection manager (\<open>mgr_ok\<close>), the
  step relation of its operations (\<open>api_step\<close>), and that every operation preserves the
  invariant, errors and early returns included.
\<close>

section \<open>The invariant\<close>

text \<open>
  Both maps are in key order; a registered pointer refers to a live observer that carries the
  key as its peer id and has a connection; live addresses are below the next free one.
\<close>

definition mgr_ok :: "'pc manager \<Rightarrow> bool" where
  "mgr_ok st \<longleftrightarrow>
     smap_ok (peer_map st) \<and> smap_ok (stream_map st) \<and>
     (\<forall>k a. map_of (peer_map st) k = Some a \<longrightarrow>
        (\<exists>obs. heap st a = Some obs \<and> m_peerid obs = k \<and> m_pc obs \<noteq> None)) \<and>
     (\<forall>a. heap st a \<noteq> None \<longrightarrow> a < next_addr st)"

lemma wf_init: "mgr_ok init_manager"
  by (simp add: mgr_ok_def init_manager_def)

lemma wf_peer:
  assumes "mgr_ok st" and "map_of (peer_map st) k = Some a"
  obtains obs pc where "heap st a = Some obs" and "m_peerid obs = k" and "m_pc obs = Some pc"
  using assms unfolding mgr_ok_def by blast

lemma wf_peer_inj:
  "mgr_ok st \<Longrightarrow> map_of (peer_map st) k = Some a \<Longrightarrow> map_of (peer_map st) k' = Some a \<Longrightarrow> k = k'"
  by (metis wf_peer option.inject)

lemma wf_mapped_live: "mgr_ok st \<Longrightarrow> map_of (peer_map st) k = Some a \<Longrightarrow> a < next_addr st"
  unfolding mgr_ok_def by force

text \<open>The connection of a registered peer, and the labels that its senders carry.\<close>

definition peer_pc :: "'pc manager \<Rightarrow> string \<Rightarrow> 'pc option" where
  "peer_pc st k = (case map_of (peer_map st) k of None \<Rightarrow> None
                   | Some a \<Rightarrow> (case heap st a of None \<Rightarrow> None | Some obs \<Rightarrow> m_pc obs))"

lemma peer_pc_SomeE:
  assumes "peer_pc st k = Some pc"
  obtains a obs where "map_of (peer_map st) k = Some a" and "heap st a = Some obs"
    and "m_pc obs = Some pc"
  using assms by (auto simp: peer_pc_def split: option.splits)

definition labels :: "('pc, 'sd, 'cand) webrtc \<Rightarrow> 'pc \<Rightarrow> string set" where
  "labels W pc = {l. \<exists>s \<in> set (senders W pc). sender_label s = Some l}"

definition in_use :: "('pc, 'sd, 'cand) webrtc \<Rightarrow> 'pc manager \<Rightarrow> string \<Rightarrow> bool" where
  "in_use W st l \<longleftrightarrow> (\<exists>k pc. peer_pc st k = Some pc \<and> l \<in> labels W pc)"

lemma still_used_list:
  assumes "\<And>e. e \<in> set es \<Longrightarrow> \<exists>obs pc. heap st (snd e) = Some obs \<and> m_pc obs = Some pc"
  shows "still_used W st l es = Inr (\<exists>e \<in> set es. \<exists>obs pc. heap st (snd e) = Some obs \<and>
           m_pc obs = Some pc \<and> l \<in> labels W pc)"
  using assms
proof (induction es)
  case Nil
  then show ?case by simp
next
  case (Cons e es)
  then obtain obs pc where "heap st (snd e) = Some obs" "m_pc obs = Some pc" by fastforce
  with Cons show ?case
    by (auto simp: deref_def nonnull_def labels_def list_ex_iff)
qed

lemma streamStillUsed_in_use:
  assumes "mgr_ok st"
  shows "streamStillUsed W st l = Inr (in_use W st l)"
proof -
  have dist: "distinct (map fst (peer_map st))"
    using assms smap_ok_distinct by (auto simp: mgr_ok_def smap_keys_def)
  have entry: "e \<in> set (peer_map st) \<Longrightarrow> map_of (peer_map st) (fst e) = Some (snd e)" for e
    using dist by (simp add: map_of_eq_Some_iff)
  have "still_used W st l (peer_map st) = Inr (\<exists>e \<in> set (peer_map st). \<exists>obs pc.
          heap st (snd e) = Some obs \<and> m_pc obs = Some pc \<and> l \<in> labels W pc)"
    by (rule still_used_list) (metis entry wf_peer [OF assms])
  moreover have "(\<exists>e \<in> set (peer_map st). \<exists>obs pc.
          heap st (snd e) = Some obs \<and> m_pc obs = Some pc \<and> l \<in> labels W pc) = in_use W st l"
    (is "?used = _")
  proof
    assume ?used
    then obtain e obs pc where "e \<in> set (peer_map st)" "heap st (snd e) = Some obs"
      "m_pc obs = Some pc" "l \<in> labels W pc" by blast
    then have "peer_pc st (fst e) = Some pc" using entry by (simp add: peer_pc_def)
    with \<open>l \<in> labels W pc\<close> show "in_use W st l" by (auto simp: in_use_def)
  next
    assume "in_use W st l"
    then obtain k pc where "peer_pc st k = Some pc" and l: "l \<in> labels W pc"
      by (auto simp: in_use_def)
    then obtain a obs where "map_of (peer_map st) k = Some a" "heap st a = Some obs"
      "m_pc obs = Some pc"
      by (elim peer_pc_SomeE)
    with l show ?used by (intro bexI [of _ "(k, a)"]) (auto dest: map_of_SomeD)
  qed
  ultimately show ?thesis by (simp add: streamStillUsed_def)
qed

section \<open>Hanging up\<close>

text \<open>What a state looks like apart from its streams does not depend on the stream map.\<close>

lemma wf_stream_map [simp]: "mgr_ok st \<Longrightarrow> smap_ok m \<Longrightarrow> mgr_ok (st\<lparr>stream_map := m\<rparr>)"
  by (simp add: mgr_ok_def)

lemma peer_pc_stream_map [simp]: "peer_pc (st\<lparr>stream_map := m\<rparr>) = peer_pc st"
  by (simp add: peer_pc_def fun_eq_iff split: option.splits)

lemma in_use_stream_map [simp]: "in_use W (st\<lparr>stream_map := m\<rparr>) = in_use W st"
  by (simp add: in_use_def fun_eq_iff)

definition drop_unused ::
  "('pc, 'sd, 'cand) webrtc \<Rightarrow> 'pc manager \<Rightarrow> string set \<Rightarrow> 'pc manager" where
  "drop_unused W st L =
     st\<lparr>stream_map := filter (\<lambda>e. \<not> (fst e \<in> L \<and> \<not> in_use W st (fst e))) (stream_map st)\<rparr>"

lemma smap_ok_filter: "smap_ok m \<Longrightarrow> smap_ok (filter P m)"
  unfolding smap_ok_def smap_keys_def by (simp add: sorted_wrt_map sorted_wrt_filter)

lemma map_of_filter_key:
  "map_of (filter (\<lambda>e. P (fst e)) m) k = (if P k then map_of m k else None)"
  by (induction m) auto

lemma release_senders_drop:
  assumes "mgr_ok st"
  shows "\<exists>pc'. release_senders W st pc ss = Inr (drop_unused W st {l. \<exists>s \<in> set ss. sender_label s = Some l}, pc')"
  using assms
proof (induction ss arbitrary: st pc)
  case Nil
  then show ?case by (simp add: drop_unused_def)
next
  case (Cons s ss)
  show ?case
  proof (cases "sender_label s")
    case None
    then have "{l. \<exists>t \<in> set (s # ss). sender_label t = Some l} = {l. \<exists>t \<in> set ss. sender_label t = Some l}"
      by auto
    with None Cons show ?thesis by simp
  next
    case (Some l)
    let ?st = "if in_use W st l then st else st\<lparr>stream_map := smap_erase l (stream_map st)\<rparr>"
    let ?L = "{l. \<exists>t \<in> set ss. sender_label t = Some l}"
    have "mgr_ok ?st" using Cons.prems by (auto simp: mgr_ok_def)
    then obtain pc' where
      rest: "release_senders W ?st (remove_track W pc s) ss = Inr (drop_unused W ?st ?L, pc')"
      using Cons.IH by blast
    have "drop_unused W ?st ?L = drop_unused W st {l. \<exists>t \<in> set (s # ss). sender_label t = Some l}"
      using Some by (auto simp: drop_unused_def smap_erase_def conj_commute
          intro!: arg_cong [where f = "\<lambda>m. st\<lparr>stream_map := m\<rparr>"] filter_cong)
    with rest Some streamStillUsed_in_use [OF Cons.prems, of W l] show ?thesis
      by (auto simp: Let_def)
  qed
qed

text \<open>Removing a peer from the map, and its observer from the store.\<close>

definition unregister :: "string \<Rightarrow> 'pc manager \<Rightarrow> 'pc manager" where
  "unregister k st = st\<lparr>peer_map := smap_erase k (peer_map st)\<rparr>"

lemma wf_unregister: "mgr_ok st \<Longrightarrow> mgr_ok (unregister k st)"
  by (auto simp: mgr_ok_def unregister_def)

lemma peer_pc_unregister: "peer_pc (unregister k st) = (peer_pc st)(k := None)"
  by (auto simp: peer_pc_def unregister_def fun_eq_iff split: option.splits)

lemma hangUp_registered:
  assumes "mgr_ok st" and "map_of (peer_map st) k = Some a" and "peer_pc st k = Some pc"
  shows "hangUp W st k = Inr (JBool True, delete_observer a (drop_unused W (unregister k st) (labels W pc)))"
proof -
  from assms obtain obs where obs: "heap st a = Some obs" "m_pc obs = Some pc"
    by (auto simp: peer_pc_def split: option.splits)
  obtain pc' where "release_senders W (unregister k st) pc (senders W pc)
      = Inr (drop_unused W (unregister k st) (labels W pc), pc')"
    using release_senders_drop [OF wf_unregister [OF assms(1)]] unfolding labels_def by blast
  with obs assms(2) show ?thesis
    by (simp add: hangUp_def deref_def nonnull_def unregister_def)
qed

lemma hangUp_unknown: "map_of (peer_map st) k = None \<Longrightarrow> hangUp W st k = Inr (JNull, st)"
  by (simp add: hangUp_def)

lemma wf_peer_pc:
  "mgr_ok st \<Longrightarrow> map_of (peer_map st) k = Some a \<Longrightarrow> \<exists>pc. peer_pc st k = Some pc"
  by (auto simp: peer_pc_def elim!: wf_peer)

lemma delete_observer_heap: "delete_observer a st = st\<lparr>heap := (heap st)(a := None)\<rparr>"
  by (auto simp: delete_observer_def close_observer_def OnIceConnectionChange_def deref_def Let_def
      split: option.splits)

lemma wf_delete:
  assumes "mgr_ok st" and "\<And>k. map_of (peer_map st) k \<noteq> Some a"
  shows "mgr_ok (delete_observer a st)"
  using assms by (auto simp: mgr_ok_def delete_observer_heap)

lemma hangUp_wf:
  assumes "mgr_ok st" and "hangUp W st k = Inr (j, st')"
  shows "mgr_ok st'"
proof (cases "map_of (peer_map st) k")
  case None
  with assms show ?thesis by (simp add: hangUp_unknown)
next
  case (Some a)
  then obtain pc where pc: "peer_pc st k = Some pc" using wf_peer_pc [OF assms(1)] by blast
  let ?d = "drop_unused W (unregister k st) (labels W pc)"
  have "mgr_ok ?d"
    using wf_unregister [OF assms(1)] by (simp add: drop_unused_def smap_ok_filter mgr_ok_def)
  moreover have "map_of (peer_map ?d) k' \<noteq> Some a" for k'
    using wf_peer_inj [OF assms(1) Some] by (auto simp: drop_unused_def unregister_def)
  ultimately have "mgr_ok (delete_observer a ?d)" by (rule wf_delete)
  with hangUp_registered [OF assms(1) Some pc, of W] assms(2) show ?thesis by simp
qed

lemma hangUp_defined: "mgr_ok st \<Longrightarrow> \<exists>j st'. hangUp W st k = Inr (j, st')"
  using wf_peer_pc [of st k] hangUp_registered [of st k _ _ W]
  by (cases "map_of (peer_map st) k") (auto simp: hangUp_unknown)

section \<open>Preservation by the other operations\<close>

lemma wf_put_pc: "mgr_ok st \<Longrightarrow> mgr_ok (put_pc a pc st)"
  by (fastforce simp: mgr_ok_def put_pc_def)

lemma wf_put_pc_opt: "mgr_ok st \<Longrightarrow> mgr_ok (put_pc_opt a pc st)"
  by (simp add: put_pc_opt_def wf_put_pc split: option.splits)

lemma wf_register:
  assumes "mgr_ok st" and "heap st a = Some obs" and "m_peerid obs = k" and "m_pc obs \<noteq> None"
  shows "mgr_ok (register_peer k a st)"
  using assms by (auto simp: mgr_ok_def register_peer_def sm.find_insert_new)

lemma wf_waits [simp]: "mgr_ok (st\<lparr>waits := n\<rparr>) = mgr_ok st"
  by (simp add: mgr_ok_def)

lemma wf_adm_log [simp]: "mgr_ok (st\<lparr>adm_log := l\<rparr>) = mgr_ok st"
  by (simp add: mgr_ok_def)

text \<open>A new observer: its address is free before and not registered afterwards.\<close>

lemma CreatePeerConnection_cases:
  assumes "CreatePeerConnection C W st peerid n now = Inr (r, st')"
  obtains st1 where "\<not> factory_of C n" "r = None" "st' = st1"
      "st1 = st \<or> (\<exists>k j. hangUp W st k = Inr (j, st1))"
  | st1 cfg where "factory_of C n" "peer_config C = Inr cfg" "r = Some (next_addr st1)"
      "st' = st1\<lparr>heap := (heap st1)(next_addr st1 \<mapsto> PeerConnectionObserver W peerid cfg n now),
                 next_addr := Suc (next_addr st1)\<rparr>"
      "st1 = st \<or> (\<exists>k j. hangUp W st k = Inr (j, st1))"
proof -
  from assms obtain old p where
    p: "(if old \<noteq> [] then hangUp W st old else Inr (JNull, st)) = (Inr p :: _ res)" and
    rest: "(case p of (_, st1) \<Rightarrow> rbind (peer_config C) (\<lambda>cfg.
       if \<not> factory_of C n then Inr (None, st1)
       else Inr (Some (next_addr st1),
                 st1\<lparr>heap := (heap st1)(next_addr st1 \<mapsto> PeerConnectionObserver W peerid cfg n now),
                     next_addr := Suc (next_addr st1)\<rparr>))) = Inr (r, st')"
    unfolding CreatePeerConnection_def rbind_eq_Inr_iff by (elim exE conjE)
  obtain j st1 where pair: "p = (j, st1)" by (cases p)
  from rest obtain cfg where cfg: "peer_config C = Inr cfg" and
    res: "(if \<not> factory_of C n then Inr (None, st1)
       else Inr (Some (next_addr st1),
                 st1\<lparr>heap := (heap st1)(next_addr st1 \<mapsto> PeerConnectionObserver W peerid cfg n now),
                     next_addr := Suc (next_addr st1)\<rparr>)) = (Inr (r, st') :: _ res)"
    unfolding pair prod.case by (rule rbind_InrE)
  have "st1 = st \<or> (\<exists>k j. hangUp W st k = Inr (j, st1))"
    using p pair by (auto split: if_splits)
  with res cfg that show thesis by (cases "factory_of C n") auto
qed

lemma CreatePeerConnection_wf:
  assumes "mgr_ok st" and "CreatePeerConnection C W st peerid n now = Inr (r, st')"
  shows "mgr_ok st'"
    and "r = Some a \<Longrightarrow> \<exists>cfg. heap st' a = Some (PeerConnectionObserver W peerid cfg n now)"
    and "r = Some a \<Longrightarrow> map_of (peer_map st') k \<noteq> Some a"
proof -
  have ok: "mgr_ok st1" if "st1 = st \<or> (\<exists>k j. hangUp W st k = Inr (j, st1))" for st1
    using that assms(1) hangUp_wf by blast
  have unmapped: "map_of (peer_map st1) k \<noteq> Some (next_addr st1)" if "mgr_ok st1"
    for st1 :: "'a manager" and k
    using wf_mapped_live [OF that] by blast
  show "mgr_ok st'"
    using assms(2) ok unmapped
    by (elim CreatePeerConnection_cases) (auto simp: mgr_ok_def less_Suc_eq)
  show "r = Some a \<Longrightarrow> \<exists>cfg. heap st' a = Some (PeerConnectionObserver W peerid cfg n now)"
    using assms(2) by (elim CreatePeerConnection_cases) auto
  show "r = Some a \<Longrightarrow> map_of (peer_map st') k \<noteq> Some a"
    using assms(2) ok unmapped by (elim CreatePeerConnection_cases) auto
qed

text \<open>
  \<open>AddStreams\<close> touches the sources only: at most one entry is added to the stream map, the
  audio module may be called, and the observers and the peer map stay.
\<close>

definition sources_step :: "'pc manager \<Rightarrow> 'pc manager \<Rightarrow> bool" where
  "sources_step st st' \<longleftrightarrow> (\<exists>m log. st' = st\<lparr>adm_log := log, stream_map := m\<rparr> \<and>
     (m = stream_map st \<or>
      (\<exists>l pair. map_of (stream_map st) l = None \<and> m = smap_insert l pair (stream_map st))))"

lemma sources_step_refl: "sources_step st st"
  unfolding sources_step_def by (intro exI [of _ "stream_map st"] exI [of _ "adm_log st"]) simp

lemma ensure_stream_frame:
  assumes "ensure_stream C st l video audio opts n = Inr st'"
  shows "sources_step st st'"
proof (cases "map_of (stream_map st) l")
  case None
  with assms show ?thesis by (auto simp: ensure_stream_def sources_step_def)
next
  case (Some pair)
  with assms show ?thesis by (simp add: ensure_stream_def sources_step_refl)
qed

lemma attach_pc: "attach W src tid l (pc, ret) = Inr (pc', ret') \<Longrightarrow> (pc' = None) = (pc = None)"
  by (auto simp: attach_def nonnull_def split: option.splits if_splits prod.splits)

lemma add_tracks_pc: "add_tracks W pair l pc = Inr (pc', ret) \<Longrightarrow> (pc' = None) = (pc = None)"
  by (auto simp: add_tracks_def dest!: attach_pc)

lemma apply_bitrate_pc: "apply_bitrate W opts pc = Inr pc' \<Longrightarrow> (pc' = None) = (pc = None)"
  by (auto simp: apply_bitrate_def nonnull_def split: option.splits)

lemma AddStreams_frame:
  assumes "AddStreams C W st pc videourl audiourl opts n = Inr (added, pc', st')"
  shows "sources_step st st'" and "(pc' = None) = (pc = None)"
  using assms
  by (auto simp: AddStreams_def Let_def sources_step_refl split: if_splits option.splits
      dest!: ensure_stream_frame apply_bitrate_pc add_tracks_pc)

lemma AddStreams_wf:
  assumes "mgr_ok st" and "AddStreams C W st pc videourl audiourl opts n = Inr (added, pc', st')"
  shows "mgr_ok st'" and "heap st' = heap st" and "peer_map st' = peer_map st"
    and "waits st' = waits st"
  using AddStreams_frame(1) [OF assms(2)] assms(1) by (auto simp: mgr_ok_def sources_step_def)

lemma heap_put_pc: "heap st a = Some obs \<Longrightarrow> heap (put_pc a p st) a = Some (obs\<lparr>m_pc := Some p\<rparr>)"
  by (simp add: put_pc_def)

lemma createOffer_wf:
  assumes "mgr_ok st" and "createOffer C W st peerid videourl audiourl opts now = Inr (j, st')"
  shows "mgr_ok st'"
proof -
  from assms(2) obtain r st1 where
    create: "CreatePeerConnection C W st peerid (m_useNullCodec C) now = Inr (r, st1)"
    by (auto simp: createOffer_def)
  note ok1 = CreatePeerConnection_wf(1) [OF assms(1) create]
  show ?thesis
  proof (cases r)
    case None
    with create assms(2) ok1 show ?thesis by (auto simp: createOffer_def)
  next
    case (Some a)
    then obtain cfg where
      new: "heap st1 a = Some (PeerConnectionObserver W peerid cfg (m_useNullCodec C) now)"
      using CreatePeerConnection_wf(2) [OF assms(1) create] by blast
    then obtain added pc st2 where
      add: "AddStreams C W st1 (m_pc (PeerConnectionObserver W peerid cfg (m_useNullCodec C) now))
              videourl audiourl opts (m_useNullCodec C) = Inr (added, pc, st2)"
      using create Some assms(2) by (auto simp: createOffer_def deref_def)
    note st2 = AddStreams_wf [OF ok1 add]
    have "mgr_ok (register_peer peerid a (put_pc a p st2))" for p
      using st2 new wf_put_pc [OF st2(1)]
      by (intro wf_register) (auto simp: heap_put_pc PeerConnectionObserver_def)
    with assms(2) create Some new add st2(1) show ?thesis
      by (auto simp: createOffer_def deref_def nonnull_def Let_def put_pc_opt_def
          split: if_splits option.splits prod.splits intro: wf_put_pc)
  qed
qed

lemma negotiate_wf: "negotiate W a pc sd w st = (d, st') \<Longrightarrow> mgr_ok st \<Longrightarrow> mgr_ok st'"
  by (auto simp: negotiate_def Let_def wf_put_pc split: prod.splits option.splits)

lemma getAnswer_wf:
  assumes "mgr_ok st"
    and "getAnswer C W st peerid sd videourl audiourl opts w n now = Inr (d, st')"
  shows "mgr_ok st'"
proof -
  from assms(2) obtain r st1 where
    create: "CreatePeerConnection C W st peerid n now = Inr (r, st1)"
    by (auto simp: getAnswer_def)
  note ok1 = CreatePeerConnection_wf(1) [OF assms(1) create]
  show ?thesis
  proof (cases r)
    case None
    with create assms(2) ok1 show ?thesis by (auto simp: getAnswer_def)
  next
    case (Some a)
    then obtain cfg where new: "heap st1 a = Some (PeerConnectionObserver W peerid cfg n now)"
      using CreatePeerConnection_wf(2) [OF assms(1) create] by blast
    show ?thesis
    proof (cases "m_pc (PeerConnectionObserver W peerid cfg n now)")
      case None
      have "mgr_ok (delete_observer a st1)"
        using ok1 CreatePeerConnection_wf(3) [OF assms(1) create Some] by (rule wf_delete)
      with None assms(2) create Some new show ?thesis
        by (auto simp: getAnswer_def deref_def)
    next
      case pc: (Some pc)
      have ok2: "mgr_ok (register_peer peerid a st1)"
        using ok1 new pc by (intro wf_register) (auto simp: PeerConnectionObserver_def)
      from assms(2) create Some new pc obtain added pc' st3 where
        add: "AddStreams C W (register_peer peerid a st1) (Some pc) videourl audiourl opts n
                = Inr (added, pc', st3)" and
        res: "(if \<not> added then Inr (None, put_pc_opt a pc' st3)
               else rbind (nonnull pc') (\<lambda>p. Inr (negotiate W a p sd w (put_pc_opt a pc' st3))))
              = (Inr (d, st') :: _ res)"
        by (auto simp: getAnswer_def deref_def Let_def)
      note ok4 = wf_put_pc_opt [OF AddStreams_wf(1) [OF ok2 add], of a pc']
      from res ok4 show ?thesis by (auto split: if_splits intro: negotiate_wf)
    qed
  qed
qed

lemma getAnswer_sdp_wf:
  "mgr_ok st \<Longrightarrow> getAnswer_sdp C W st peerid sdp videourl audiourl opts w n now = Inr (d, st') \<Longrightarrow> mgr_ok st'"
  by (auto simp: getAnswer_sdp_def split: option.splits intro: getAnswer_wf)

lemma call_wf:
  "mgr_ok st \<Longrightarrow> call C W st peerid videourl audiourl opts msg n now = Inr (j, st') \<Longrightarrow> mgr_ok st'"
  by (auto simp: call_def split: option.splits dest: getAnswer_sdp_wf)

lemma setAnswer_wf: "mgr_ok st \<Longrightarrow> setAnswer W st peerid msg = Inr (j, st') \<Longrightarrow> mgr_ok st'"
  by (auto simp: setAnswer_def split: option.splits prod.splits intro: wf_put_pc)

lemma apply_candidate_wf:
  "mgr_ok st \<Longrightarrow> apply_candidate W st peerid cand = Inr (ok, st') \<Longrightarrow> mgr_ok st'"
  by (auto simp: apply_candidate_def split: option.splits prod.splits intro: wf_put_pc)

lemma addIceCandidate_wf:
  "mgr_ok st \<Longrightarrow> addIceCandidate W st peerid msg = Inr (j, st') \<Longrightarrow> mgr_ok st'"
  by (auto simp: addIceCandidate_def split: option.splits dest: apply_candidate_wf)

lemma wf_heap_update:
  assumes "mgr_ok st" and "heap st a = Some obs" and "m_peerid obs' = m_peerid obs"
    and "m_pc obs' = m_pc obs"
  shows "mgr_ok (st\<lparr>heap := (heap st)(a \<mapsto> obs')\<rparr>)"
  using assms unfolding mgr_ok_def by (simp, metis option.inject option.distinct(1))

lemma observer_candidate_wf:
  assumes "mgr_ok st" and "observer_candidate C st a c = Inr st'"
  shows "mgr_ok st'"
proof -
  from assms(2) obtain obs where obs: "heap st a = Some obs"
    and st': "st' = st\<lparr>heap := (heap st)(a \<mapsto>
        obs\<lparr>m_iceCandidateList := OnIceCandidate (m_extraHost C) c (m_iceCandidateList obs)\<rparr>)\<rparr>"
    by (auto simp: observer_candidate_def deref_def split: option.splits)
  show ?thesis unfolding st' using assms(1) obs by (rule wf_heap_update) simp_all
qed

lemma wf_threads [simp]: "mgr_ok (st\<lparr>hangup_threads := l\<rparr>) = mgr_ok st"
  by (simp add: mgr_ok_def)

lemma OnIceConnectionChange_wf:
  assumes "mgr_ok st" and "OnIceConnectionChange st a state = Inr st'"
  shows "mgr_ok st'"
proof -
  from assms(2) obtain obs where obs: "heap st a = Some obs"
    by (auto simp: OnIceConnectionChange_def deref_def split: option.splits)
  have "mgr_ok (st\<lparr>heap := (heap st)(a \<mapsto> obs\<lparr>m_iceCandidateList := []\<rparr>)\<rparr>)"
    using assms(1) obs by (rule wf_heap_update) simp_all
  with assms obs show ?thesis
    by (auto simp: OnIceConnectionChange_def deref_def Let_def split: if_splits)
qed

lemma run_hangup_thread_wf:
  "mgr_ok st \<Longrightarrow> run_hangup_thread W st a = Inr (j, st') \<Longrightarrow> mgr_ok st'"
  unfolding run_hangup_thread_def by (erule rbind_InrE, erule hangUp_wf [rotated], simp)

lemma patch_line_wf:
  "patch_line W peerid (p, st) line = Inr (p', st') \<Longrightarrow> mgr_ok st \<Longrightarrow> mgr_ok st'"
  by (auto simp: patch_line_def Let_def split: if_splits option.splits dest: apply_candidate_wf)

lemma patch_lines_wf:
  "patch_lines W peerid (p, st) ls = Inr (p', st') \<Longrightarrow> mgr_ok st \<Longrightarrow> mgr_ok st'"
proof (induction ls arbitrary: p st)
  case Nil
  then show ?case by simp
next
  case (Cons l ls)
  then obtain q st1 where "patch_line W peerid (p, st) l = Inr (q, st1)"
    and "patch_lines W peerid (q, st1) ls = Inr (p', st')"
    by auto
  with Cons show ?case using patch_line_wf by blast
qed

lemma whep_wf:
  assumes "whep C W st method url pid videourl audiourl opts n body rand now = Inr (r, st')"
    and "mgr_ok st"
  shows "mgr_ok st'"
  using assms
  by (auto simp: whep_def Let_def split: if_splits option.splits
      dest: patch_lines_wf getAnswer_sdp_wf hangUp_wf)

section \<open>Runs of the server\<close>

text \<open>
  One step of the manager: a signalling request that completes, a candidate or a connection
  state reported to a live observer, the run of a detached thread, or a change of a connection
  by WebRTC itself, which is anything but a change of the streams that its senders carry.
\<close>

inductive api_step :: "config \<Rightarrow> ('pc, 'sd, 'cand) webrtc \<Rightarrow> 'pc manager \<Rightarrow> 'pc manager \<Rightarrow> bool"
  for C W where
  offer: "createOffer C W st peerid videourl audiourl opts now = Inr (j, st') \<Longrightarrow> api_step C W st st'"
| answer: "setAnswer W st peerid msg = Inr (j, st') \<Longrightarrow> api_step C W st st'"
| call: "call C W st peerid videourl audiourl opts msg n now = Inr (j, st') \<Longrightarrow> api_step C W st st'"
| whep: "whep C W st method url peerid videourl audiourl opts n body rand now = Inr (r, st')
    \<Longrightarrow> api_step C W st st'"
| candidate: "addIceCandidate W st peerid msg = Inr (j, st') \<Longrightarrow> api_step C W st st'"
| hangup: "hangUp W st peerid = Inr (j, st') \<Longrightarrow> api_step C W st st'"
| local_candidate: "observer_candidate C st a c = Inr st' \<Longrightarrow> api_step C W st st'"
| ice_change: "OnIceConnectionChange st a state = Inr st' \<Longrightarrow> api_step C W st st'"
| detached_hangup: "a \<in> set (hangup_threads st) \<Longrightarrow> run_hangup_thread W st a = Inr (j, st') \<Longrightarrow> api_step C W st st'"
| background: "heap st a = Some obs \<Longrightarrow> m_pc obs = Some pc \<Longrightarrow> labels W pc' = labels W pc
    \<Longrightarrow> api_step C W st (put_pc a pc' st)"

interpretation run: step_invariant "api_step C W" "mgr_ok :: 'pc manager \<Rightarrow> bool"
  for C and W :: "('pc, 'sd, 'cand) webrtc"
proof
  fix st st' :: "'pc manager"
  assume "mgr_ok st" and "api_step C W st st'"
  from this(2,1) show "mgr_ok st'"
    by (cases rule: api_step.cases)
      (blast intro: createOffer_wf setAnswer_wf call_wf whep_wf addIceCandidate_wf hangUp_wf
        observer_candidate_wf OnIceConnectionChange_wf run_hangup_thread_wf wf_put_pc)+
qed

definition reachable :: "config \<Rightarrow> ('pc, 'sd, 'cand) webrtc \<Rightarrow> 'pc manager \<Rightarrow> bool" where
  "reachable C W st \<longleftrightarrow> (api_step C W)\<^sup>*\<^sup>* init_manager st"

lemma reachable_ok: "reachable C W st \<Longrightarrow> mgr_ok st"
  unfolding reachable_def using run.steps_inv wf_init by blast

end
