(* ===== verification/Peer_Properties.thy ===== *)
theory Peer_Properties
  imports Peer_Invariants
begin

text \<open>
  What hanging up does over the runs of the manager: it frees the observer of the peer and
  exactly the streams that nobody uses any more. (That the operations which follow registered
  pointers complete is shown in \<open>Peer_Stats\<close>, where the last of them is defined.)
\<close>

section \<open>A concrete WebRTC\<close>

text \<open>
  A connection that is just its list of senders, used to instantiate the parameters of the
  model: every operation succeeds, and a description is its text.
\<close>

definition demo_webrtc :: "(sender list, string, string) webrtc" where
  "demo_webrtc =
     \<lparr>create_pc = (\<lambda>_ _. Some []), create_data_channel = (\<lambda>pc _. (pc, True)), senders = id,
      remove_track = (\<lambda>pc s. removeAll s pc), create_track = (\<lambda>_ _. True),
      add_track = (\<lambda>pc _ tid l. (pc @ [\<lparr>stream_ids = [l], track = None\<rparr>], True)),
      set_bitrate = (\<lambda>pc _. pc), parse_candidate = (\<lambda>_ _ s. if s = [] then None else Some s),
      add_candidate = (\<lambda>pc _. (pc, True)),
      parse_sdp = (\<lambda>_ s. if s = [] then None else Some s), sdp_text = id,
      sdp_kind = (\<lambda>_. ''answer''), local_description = (\<lambda>_. Some ''v=0''),
      remote_description = (\<lambda>_. None), set_local = (\<lambda>pc _. (pc, Succeeded)),
      set_remote = (\<lambda>pc _. (pc, Succeeded)), create_offer = (\<lambda>pc. (pc, Created ''v=0'')),
      create_answer = (\<lambda>pc. (pc, Created ''v=0'')), gathering_complete = (\<lambda>_ n. n = 2),
      json_string = (\<lambda>j k. case member j k of Inr (JString s) \<Rightarrow> Some s | _ \<Rightarrow> None),
      json_int = (\<lambda>j k. case member j k of Inr (JInt i) \<Rightarrow> Some i | _ \<Rightarrow> None)\<rparr>"

definition demo_config :: config where
  "demo_config =
     \<lparr>m_iceServerList = [], m_config = JNull, m_videoaudiomap = [],
      m_webrtcPortRange = [], m_useNullCodec = False, m_usePlanB = False,
      m_maxpc = 0, m_transportType = kAll, m_extraHost = [], builtin_factory = True,
      null_factory = True, hash_fn = length, capture = demo_env, adm = demo_adm, net = no_net\<rparr>"

text \<open>A run: one viewer asks for an offer, another calls, and the first hangs up.\<close>

definition demo_state :: "sender list manager" where
  "demo_state = (case createOffer demo_config demo_webrtc init_manager ''p'' ''videocap://1'' [] [] 7 of
                   Inr (_, st) \<Rightarrow> st | Inl _ \<Rightarrow> init_manager)"

lemma demo_state_reachable: "reachable demo_config demo_webrtc demo_state"
proof -
  have "\<not> isl (createOffer demo_config demo_webrtc init_manager ''p'' ''videocap://1'' [] [] 7)"
    by code_simp
  then have "\<exists>j. createOffer demo_config demo_webrtc init_manager ''p'' ''videocap://1'' [] [] 7 = Inr (j, demo_state)"
    by (auto simp: demo_state_def split: sum.splits)
  then have "api_step demo_config demo_webrtc init_manager demo_state" by (blast intro: api_step.offer)
  then show ?thesis by (simp add: reachable_def)
qed

section \<open>Hanging up\<close>

lemma hangUp_effect:
  assumes "mgr_ok st" and "map_of (peer_map st) k = Some a" and "peer_pc st k = Some pc"
    and "hangUp W st k = Inr (j, st')"
  shows "j = JBool True" and "peer_pc st' = (peer_pc st)(k := None)"
    and "heap st' = (heap st)(a := None)" and "peer_map st' = smap_erase k (peer_map st)"
    and "map_of (stream_map st') l =
           (if l \<in> labels W pc \<and> \<not> in_use W st' l then None else map_of (stream_map st) l)"
proof -
  let ?d = "drop_unused W (unregister k st) (labels W pc)"
  have st': "j = JBool True" "st' = delete_observer a ?d"
    using hangUp_registered [OF assms(1-3), of W] assms(4) by simp_all
  show "j = JBool True" by (rule st')
  have "map_of (peer_map (unregister k st)) k' \<noteq> Some a" for k'
    using wf_peer_inj [OF assms(1,2)] by (auto simp: unregister_def)
  then have pcs: "peer_pc st' = peer_pc (unregister k st)"
    by (auto simp: st'(2) delete_observer_heap drop_unused_def peer_pc_def fun_eq_iff
        split: option.splits)
  then show "peer_pc st' = (peer_pc st)(k := None)" by (simp add: peer_pc_unregister)
  show "heap st' = (heap st)(a := None)" "peer_map st' = smap_erase k (peer_map st)"
    by (simp_all add: st'(2) delete_observer_heap drop_unused_def unregister_def)
  have "in_use W st' = in_use W (unregister k st)" using pcs by (simp add: in_use_def fun_eq_iff)
  then show "map_of (stream_map st') l =
      (if l \<in> labels W pc \<and> \<not> in_use W st' l then None else map_of (stream_map st) l)"
    using map_of_filter_key [of "\<lambda>l. \<not> (l \<in> labels W pc \<and> \<not> in_use W (unregister k st) l)" "stream_map st" l]
    by (simp add: st'(2) delete_observer_heap drop_unused_def unregister_def)
qed

text \<open>
  C1. Hanging up a registered peer always succeeds and answers true. The peer and its observer
  are gone, every other peer keeps its connection, and a stream is removed exactly when the
  peer sent it and no remaining peer does.
\<close>

theorem hangUp_removes_unused:
  assumes "reachable C W st" and "map_of (peer_map st) k = Some a"
  shows "\<exists>pc st'. peer_pc st k = Some pc \<and> hangUp W st k = Inr (JBool True, st') \<and>
           peer_pc st' = (peer_pc st)(k := None) \<and> heap st' = (heap st)(a := None) \<and>
           (\<forall>l. map_of (stream_map st') l =
              (if l \<in> labels W pc \<and> \<not> in_use W st' l then None else map_of (stream_map st) l))"
proof -
  note ok = reachable_ok [OF assms(1)]
  obtain pc where pc: "peer_pc st k = Some pc" using wf_peer_pc [OF ok assms(2)] by blast
  obtain j st' where h: "hangUp W st k = Inr (j, st')" using hangUp_defined [OF ok] by blast
  from hangUp_effect [OF ok assms(2) pc h] pc h show ?thesis by blast
qed

theorem hangUp_removes_unused_witness:
  "\<exists>pc st'. peer_pc demo_state ''p'' = Some pc \<and> hangUp demo_webrtc demo_state ''p'' = Inr (JBool True, st') \<and>
     peer_pc st' = (peer_pc demo_state)(''p'' := None) \<and> heap st' = (heap demo_state)(0 := None) \<and>
     (\<forall>l. map_of (stream_map st') l =
        (if l \<in> labels demo_webrtc pc \<and> \<not> in_use demo_webrtc st' l then None
         else map_of (stream_map demo_state) l))"
proof (rule hangUp_removes_unused [OF demo_state_reachable])
  show "map_of (peer_map demo_state) ''p'' = Some 0" by code_simp
qed

end
