(* ===== verification/Peer_Streams.thy ===== *)
theory Peer_Streams
  imports Peer_Properties
begin

text \<open>
  The shared streams: what the model assumes of the connections about the labels that their
  senders carry (\<open>webrtc_laws\<close>), the invariant that a stream sent by a registered peer is in
  the map with an open source (\<open>streams_live\<close>), the reuse of a source by later requests, and
  what becomes of a source that could not be opened.
\<close>

section \<open>Labels of the senders\<close>

text \<open>
  The documented behaviour of a peer connection: a new one sends nothing, \<open>AddTrack\<close> adds a
  sender with the given stream id, and no other call adds one that carries a stream id.
\<close>

definition webrtc_laws :: "('pc, 'sd, 'cand) webrtc \<Rightarrow> bool" where
  "webrtc_laws W \<longleftrightarrow>
     (\<forall>cfg n pc. create_pc W cfg n = Some pc \<longrightarrow> labels W pc = {}) \<and>
     (\<forall>pc l. labels W (fst (create_data_channel W pc l)) \<subseteq> labels W pc) \<and>
     (\<forall>pc m t l. labels W (fst (add_track W pc m t l)) \<subseteq> insert l (labels W pc)) \<and>
     (\<forall>pc b. labels W (set_bitrate W pc b) \<subseteq> labels W pc) \<and>
     (\<forall>pc c. labels W (fst (add_candidate W pc c)) \<subseteq> labels W pc) \<and>
     (\<forall>pc d. labels W (fst (set_local W pc d)) \<subseteq> labels W pc) \<and>
     (\<forall>pc d. labels W (fst (set_remote W pc d)) \<subseteq> labels W pc) \<and>
     (\<forall>pc. labels W (fst (create_offer W pc)) \<subseteq> labels W pc) \<and>
     (\<forall>pc. labels W (fst (create_answer W pc)) \<subseteq> labels W pc)"

lemma webrtc_lawsD:
  assumes "webrtc_laws W"
  shows "create_pc W cfg n = Some pc \<Longrightarrow> labels W pc = {}"
    and "labels W (fst (create_data_channel W pc l)) \<subseteq> labels W pc"
    and "labels W (fst (add_track W pc m t l)) \<subseteq> insert l (labels W pc)"
    and "labels W (set_bitrate W pc b) \<subseteq> labels W pc"
    and "labels W (fst (add_candidate W pc c)) \<subseteq> labels W pc"
    and "labels W (fst (set_local W pc d)) \<subseteq> labels W pc"
    and "labels W (fst (set_remote W pc d)) \<subseteq> labels W pc"
    and "labels W (fst (create_offer W pc)) \<subseteq> labels W pc"
    and "labels W (fst (create_answer W pc)) \<subseteq> labels W pc"
  using assms by (simp_all add: webrtc_laws_def del: split_paired_All)

lemma labels_new_observer:
  assumes "webrtc_laws W" and "m_pc (PeerConnectionObserver W peerid cfg n now) = Some pc"
  shows "labels W pc = {}"
proof -
  from assms(2) obtain p where "create_pc W cfg n = Some p"
    and "pc = fst (create_data_channel W p ''ServerDataChannel'')"
    by (auto simp: PeerConnectionObserver_def split: option.splits)
  then show ?thesis using webrtc_lawsD(1,2) [OF assms(1)] by (metis subset_empty)
qed

lemma labels_creation_promise:
  assumes "webrtc_laws W" and "creation_promise W r = (pc', d)"
  shows "labels W pc' \<subseteq> labels W (fst r)"
proof (cases r)
  case (Pair pc c)
  show ?thesis
  proof (cases c)
    case (Created sd)
    then show ?thesis
      using assms(2) Pair webrtc_lawsD(6) [OF assms(1), of pc sd]
      by (auto simp: creation_promise_def split: prod.splits)
  qed (use assms(2) Pair in \<open>auto simp: creation_promise_def\<close>)
qed

definition live :: "'pc manager \<Rightarrow> string set" where
  "live st = {l. \<exists>pair. map_of (stream_map st) l = Some pair \<and> pair \<noteq> (None, None)}"

definition streams_live :: "('pc, 'sd, 'cand) webrtc \<Rightarrow> 'pc manager \<Rightarrow> bool" where
  "streams_live W st \<longleftrightarrow> (\<forall>k pc. peer_pc st k = Some pc \<longrightarrow> labels W pc \<subseteq> live st)"

lemma attach_labels:
  assumes "webrtc_laws W" and "attach W src tid l (Some pc, ret) = Inr (Some pc', ret')"
  shows "labels W pc' \<subseteq> labels W pc \<union> (if src = None then {} else {l})"
proof (cases src)
  case None
  with assms(2) show ?thesis by (auto simp: attach_def)
next
  case (Some m)
  have "labels W (fst (add_track W pc m tid l)) \<subseteq> insert l (labels W pc)"
    by (rule webrtc_lawsD(3) [OF assms(1)])
  with Some assms(2) show ?thesis
    by (auto simp: attach_def nonnull_def split: if_splits prod.splits)
qed

lemma add_tracks_labels:
  assumes "webrtc_laws W" and "add_tracks W pair l (Some pc) = Inr (Some pc', ret)"
  shows "labels W pc' \<subseteq> labels W pc \<union> (if pair = (None, None) then {} else {l})"
proof -
  from assms(2) obtain r where
    v: "attach W (map_option Video (fst pair)) (l @ ''_video'') l (Some pc, False) = Inr r" and
    a: "attach W (map_option Audio (snd pair)) (l @ ''_audio'') l r = Inr (Some pc', ret)"
    unfolding add_tracks_def by (rule rbind_InrE)
  obtain p ok where r: "r = (Some p, ok)"
    using attach_pc [of W _ _ l "Some pc" False "fst r" "snd r"] v by (cases r) auto
  have "labels W p \<subseteq> labels W pc \<union> (if fst pair = None then {} else {l})"
    using attach_labels [OF assms(1) v [unfolded r]] by simp
  moreover have "labels W pc' \<subseteq> labels W p \<union> (if snd pair = None then {} else {l})"
    using attach_labels [OF assms(1) a [unfolded r]] by simp
  ultimately show ?thesis by (cases pair) (auto split: if_splits)
qed

text \<open>The intermediate values of a request that adds streams, with the label it uses.\<close>

definition request_label :: "config \<Rightarrow> string \<Rightarrow> string \<Rightarrow> string \<Rightarrow> bool \<Rightarrow> string res" where
  "request_label C videourl audiourl opts n =
     rbind (merge_options (m_config C) videourl opts) (\<lambda>optstring.
     rbind (resolve_url (m_config C) ''video'' videourl) (\<lambda>video.
     rbind (resolve_url (m_config C) ''audio'' audiourl) (\<lambda>audio.
       Inr (stream_label (hash_fn C) videourl audiourl
              (capturer_options video audio (parse_options optstring)) n))))"

lemma AddStreams_cases:
  assumes "AddStreams C W st pc videourl audiourl opts n = Inr (added, pc', st')" and "factory_of C n"
  obtains l om video audio pc1 where "request_label C videourl audiourl opts n = Inr l"
    and "apply_bitrate W om pc = Inr pc1" and "ensure_stream C st l video audio om n = Inr st'"
    and "(case map_of (stream_map st') l of None \<Rightarrow> Inr (False, pc1, st')
          | Some pair \<Rightarrow> rbind (add_tracks W pair l pc1) (\<lambda>(pc2, ret). Inr (ret, pc2, st')))
         = (Inr (added, pc', st') :: _ res)"
proof -
  from assms obtain os video audio pc1 st1 l where
    reads: "merge_options (m_config C) videourl opts = Inr os"
      "resolve_url (m_config C) ''video'' videourl = Inr video"
      "resolve_url (m_config C) ''audio'' audiourl = Inr audio"
      "apply_bitrate W (parse_options os) pc = Inr pc1" and
    l: "l = stream_label (hash_fn C) videourl audiourl (capturer_options video audio (parse_options os)) n" and
    "ensure_stream C st l video audio (parse_options os) n = Inr st1" and
    res: "(case map_of (stream_map st1) l of None \<Rightarrow> Inr (False, pc1, st1)
          | Some pair \<Rightarrow> rbind (add_tracks W pair l pc1) (\<lambda>(pc2, ret). Inr (ret, pc2, st1)))
         = (Inr (added, pc', st') :: _ res)"
    unfolding AddStreams_def Let_def by (simp only: rbind_eq_Inr_iff not_True_eq_False if_False) blast
  moreover from res have "st1 = st'" by (auto split: option.splits)
  moreover have "request_label C videourl audiourl opts n = Inr l"
    by (simp add: request_label_def reads l)
  ultimately show thesis using that by blast
qed

lemma AddStreams_labels:
  assumes "webrtc_laws W"
    and "AddStreams C W st (Some pc) videourl audiourl opts n = Inr (added, Some pc', st')"
  shows "labels W pc' \<subseteq> labels W pc \<union> live st'"
proof (cases "factory_of C n")
  case False
  with assms(2) show ?thesis by (simp add: AddStreams_def)
next
  case True
  with assms(2) obtain l om video audio pc1 where
    b: "apply_bitrate W om (Some pc) = Inr pc1" and
    res: "(case map_of (stream_map st') l of None \<Rightarrow> Inr (False, pc1, st')
           | Some pair \<Rightarrow> rbind (add_tracks W pair l pc1) (\<lambda>(pc2, ret). Inr (ret, pc2, st')))
          = (Inr (added, Some pc', st') :: _ res)"
    by (rule AddStreams_cases)
  obtain p where p: "pc1 = Some p" using apply_bitrate_pc [OF b] by auto
  have bit: "labels W p \<subseteq> labels W pc"
    using b p webrtc_lawsD(4) [OF assms(1), of pc]
    by (auto simp: apply_bitrate_def nonnull_def split: option.splits)
  show ?thesis
  proof (cases "map_of (stream_map st') l")
    case None
    with res p bit show ?thesis by auto
  next
    case (Some pair)
    then have "add_tracks W pair l (Some p) = Inr (Some pc', added)"
      using res p by auto
    moreover have "pair = (None, None) \<or> l \<in> live st'" using Some by (cases pair) (auto simp: live_def)
    ultimately show ?thesis
      using add_tracks_labels [OF assms(1), of pair l p pc' added] bit by (auto split: if_splits)
  qed
qed

section \<open>Streams that are sent are open\<close>

lemma streams_live_init: "streams_live W init_manager"
  by (simp add: streams_live_def peer_pc_def init_manager_def)

lemma streams_liveD: "streams_live W st \<Longrightarrow> peer_pc st k = Some pc \<Longrightarrow> labels W pc \<subseteq> live st"
  unfolding streams_live_def by blast

text \<open>The elementary changes of the state, one per lemma.\<close>

lemma peer_pc_put_pc:
  "peer_pc (put_pc a p st) k = (if map_of (peer_map st) k = Some a \<and> heap st a \<noteq> None then Some p
                                else peer_pc st k)"
  by (auto simp: peer_pc_def put_pc_def split: option.splits)

lemma live_put_pc [simp]: "live (put_pc a p st) = live st"
  by (simp add: live_def put_pc_def)

lemma live_register [simp]: "live (register_peer k a st) = live st"
  by (simp add: live_def register_peer_def)

lemma streams_live_put_pc:
  "streams_live W st \<Longrightarrow> labels W p \<subseteq> live st \<Longrightarrow> streams_live W (put_pc a p st)"
  unfolding streams_live_def by (auto simp: peer_pc_put_pc split: if_splits)

text \<open>A call through a registered connection that keeps its labels.\<close>

lemma streams_live_update:
  assumes "streams_live W st" and "heap st a = Some obs" and "m_pc obs = Some pc"
    and "labels W p \<subseteq> labels W pc"
  shows "streams_live W (put_pc a p st)"
proof -
  have "labels W p \<subseteq> live st" if "map_of (peer_map st) k = Some a" for k
    using that assms streams_liveD [OF assms(1), of k pc] by (auto simp: peer_pc_def)
  then show ?thesis
    using assms(1) unfolding streams_live_def by (auto simp: peer_pc_put_pc split: if_splits)
qed

lemma streams_live_register:
  assumes "streams_live W st" and "heap st a = Some obs" and "m_pc obs = Some pc"
    and "labels W pc \<subseteq> live st"
  shows "streams_live W (register_peer k a st)"
  using assms unfolding streams_live_def live_register
  by (auto simp: peer_pc_def register_peer_def map_of_smap_insert split: if_splits option.splits)

lemma sources_step_live: "sources_step st st' \<Longrightarrow> live st \<subseteq> live st'"
  by (auto simp: sources_step_def live_def map_of_smap_insert)

lemma sources_step_peers: "sources_step st st' \<Longrightarrow> peer_pc st' = peer_pc st"
  by (auto simp: sources_step_def peer_pc_def fun_eq_iff split: option.splits)

lemma streams_live_sources: "streams_live W st \<Longrightarrow> sources_step st st' \<Longrightarrow> streams_live W st'"
  using sources_step_live sources_step_peers unfolding streams_live_def by (metis subset_trans)

lemma hangUp_live:
  assumes "mgr_ok st" and "streams_live W st" and "hangUp W st k = Inr (j, st')"
  shows "streams_live W st'"
proof (cases "map_of (peer_map st) k")
  case None
  with assms show ?thesis by (simp add: hangUp_unknown)
next
  case (Some a)
  obtain pc where pc: "peer_pc st k = Some pc" using wf_peer_pc [OF assms(1) Some] by blast
  note eff = hangUp_effect [OF assms(1) Some pc assms(3)]
  show ?thesis unfolding streams_live_def
  proof (intro allI impI subsetI)
    fix k' p l
    assume p: "peer_pc st' k' = Some p" and l: "l \<in> labels W p"
    then have "in_use W st' l" by (auto simp: in_use_def)
    moreover have "l \<in> live st"
      using p l eff(2) streams_liveD [OF assms(2), of k' p] by (auto split: if_splits)
    ultimately show "l \<in> live st'" using eff(5) by (simp add: live_def)
  qed
qed

lemma CreatePeerConnection_live:
  assumes "mgr_ok st" and "streams_live W st"
    and "CreatePeerConnection C W st peerid n now = Inr (r, st')"
  shows "streams_live W st'"
proof -
  have "mgr_ok st1 \<and> streams_live W st1" if "st1 = st \<or> (\<exists>k j. hangUp W st k = Inr (j, st1))" for st1
    using that assms(1,2) hangUp_wf hangUp_live by blast
  moreover have "peer_pc (st1\<lparr>heap := (heap st1)(next_addr st1 \<mapsto> obs), next_addr := m\<rparr>) = peer_pc st1"
    if "mgr_ok st1" for st1 :: "'a manager" and obs m
    using wf_mapped_live [OF that] by (fastforce simp: peer_pc_def fun_eq_iff split: option.splits)
  ultimately show ?thesis
    using assms(3) by (elim CreatePeerConnection_cases) (auto simp: streams_live_def live_def)
qed

lemma createOffer_live:
  assumes "webrtc_laws W" and "mgr_ok st" and "streams_live W st"
    and "createOffer C W st peerid videourl audiourl opts now = Inr (j, st')"
  shows "streams_live W st'"
proof -
  let ?n = "m_useNullCodec C"
  from assms(4) obtain r st1 where create: "CreatePeerConnection C W st peerid ?n now = Inr (r, st1)"
    by (auto simp: createOffer_def)
  note ok1 = CreatePeerConnection_wf(1) [OF assms(2) create]
    and live1 = CreatePeerConnection_live [OF assms(2,3) create]
  show ?thesis
  proof (cases r)
    case None
    with create assms(4) live1 show ?thesis by (auto simp: createOffer_def)
  next
    case (Some a)
    then obtain cfg where new: "heap st1 a = Some (PeerConnectionObserver W peerid cfg ?n now)"
      using CreatePeerConnection_wf(2) [OF assms(2) create] by blast
    then obtain added pc st2 where
      add: "AddStreams C W st1 (m_pc (PeerConnectionObserver W peerid cfg ?n now)) videourl audiourl opts ?n
              = Inr (added, pc, st2)" and
      res: "(if \<not> added then Inr (JNull, put_pc_opt a pc st2)
             else rbind (nonnull pc) (\<lambda>p. case creation_promise W (create_offer W p) of (p', desc) \<Rightarrow>
               Inr (case desc of Some (Some d) \<Rightarrow> description_json W d | Some None \<Rightarrow> JNull | None \<Rightarrow> JNull,
                    put_pc a p' (register_peer peerid a (put_pc_opt a pc st2))))) = (Inr (j, st') :: _ res)"
      using create Some assms(4) unfolding createOffer_def Let_def by (auto simp: deref_def)
    have live2: "streams_live W st2"
      using live1 AddStreams_frame(1) [OF add] by (rule streams_live_sources)
    have heap2: "heap st2 = heap st1" using AddStreams_wf(2) [OF ok1 add] .
    show ?thesis
    proof (cases pc)
      case None
      with res live2 show ?thesis by (auto simp: put_pc_opt_def nonnull_def split: if_splits)
    next
      case (Some p)
      then obtain p0 where p0: "m_pc (PeerConnectionObserver W peerid cfg ?n now) = Some p0"
        using AddStreams_frame(2) [OF add] by fastforce
      have lp: "labels W p \<subseteq> live st2"
        using AddStreams_labels [OF assms(1) add [unfolded p0 Some]] labels_new_observer [OF assms(1) p0]
        by simp
      have live3: "streams_live W (put_pc a p st2)" using live2 lp by (rule streams_live_put_pc)
      have live4: "streams_live W (register_peer peerid a (put_pc a p st2))"
        by (rule streams_live_register [OF live3 heap_put_pc [OF new [folded heap2]]]) (simp, simp add: lp)
      have "labels W p' \<subseteq> live st2" if "creation_promise W (create_offer W p) = (p', desc)" for p' desc
        using labels_creation_promise [OF assms(1) that] webrtc_lawsD(8) [OF assms(1), of p] lp by blast
      moreover have "streams_live W (put_pc a q (register_peer peerid a (put_pc a p st2)))"
        if "labels W q \<subseteq> live st2" for q
        by (rule streams_live_put_pc [OF live4]) (simp add: that)
      ultimately show ?thesis
        using res Some live3 by (auto simp: put_pc_opt_def nonnull_def split: if_splits prod.splits)
    qed
  qed
qed

lemma negotiate_live:
  assumes "webrtc_laws W" and "streams_live W st" and "labels W pc \<subseteq> live st"
    and "negotiate W a pc sd w st = (d, st')"
  shows "streams_live W st'"
proof -
  obtain pc1 c where r: "set_remote W pc sd = (pc1, c)" by (cases "set_remote W pc sd")
  obtain pc2 desc where p: "creation_promise W (create_answer W pc1) = (pc2, desc)"
    by (cases "creation_promise W (create_answer W pc1)")
  have "labels W pc2 \<subseteq> live st"
    using labels_creation_promise [OF assms(1) p] webrtc_lawsD(9) [OF assms(1), of pc1]
      webrtc_lawsD(7) [OF assms(1), of pc sd] r assms(3) by auto
  then have "streams_live W (put_pc a pc2 st)" by (rule streams_live_put_pc [OF assms(2)])
  moreover have "streams_live W (t\<lparr>waits := x\<rparr>) = streams_live W t" for t :: "'a manager" and x
    by (simp add: streams_live_def live_def peer_pc_def cong: option.case_cong)
  ultimately show ?thesis
    using assms(4) r p by (auto simp: negotiate_def Let_def split: option.splits)
qed

lemma getAnswer_live:
  assumes "webrtc_laws W" and "mgr_ok st" and "streams_live W st"
    and "getAnswer C W st peerid sd videourl audiourl opts w n now = Inr (d, st')"
  shows "streams_live W st'"
proof -
  from assms(4) obtain r st1 where create: "CreatePeerConnection C W st peerid n now = Inr (r, st1)"
    by (auto simp: getAnswer_def)
  note ok1 = CreatePeerConnection_wf(1) [OF assms(2) create]
    and live1 = CreatePeerConnection_live [OF assms(2,3) create]
  show ?thesis
  proof (cases r)
    case None
    with create assms(4) live1 show ?thesis by (auto simp: getAnswer_def)
  next
    case (Some a)
    then obtain cfg where new: "heap st1 a = Some (PeerConnectionObserver W peerid cfg n now)"
      using CreatePeerConnection_wf(2) [OF assms(2) create] by blast
    show ?thesis
    proof (cases "m_pc (PeerConnectionObserver W peerid cfg n now)")
      case None
      have "peer_pc (delete_observer a st1) = peer_pc st1"
        using CreatePeerConnection_wf(3) [OF assms(2) create Some]
        by (auto simp: delete_observer_heap peer_pc_def fun_eq_iff split: option.splits)
      then have "streams_live W (delete_observer a st1)"
        using live1 by (simp add: streams_live_def live_def delete_observer_heap)
      with None assms(4) create Some new show ?thesis by (auto simp: getAnswer_def deref_def)
    next
      case pc: (Some pc)
      have empty: "labels W pc = {}" using assms(1) pc by (rule labels_new_observer)
      have live2: "streams_live W (register_peer peerid a st1)"
        using live1 new pc by (rule streams_live_register) (simp add: empty)
      from assms(4) create Some new pc obtain added pc' st3 where
        add: "AddStreams C W (register_peer peerid a st1) (Some pc) videourl audiourl opts n
                = Inr (added, pc', st3)" and
        res: "(if \<not> added then Inr (None, put_pc_opt a pc' st3)
               else rbind (nonnull pc') (\<lambda>p. Inr (negotiate W a p sd w (put_pc_opt a pc' st3))))
              = (Inr (d, st') :: _ res)"
        by (auto simp: getAnswer_def deref_def Let_def)
      obtain p where p: "pc' = Some p" using AddStreams_frame(2) [OF add] by auto
      have lp: "labels W p \<subseteq> live st3"
        using AddStreams_labels [OF assms(1) add [unfolded p]] empty by simp
      have "streams_live W (put_pc a p st3)"
        using streams_live_sources [OF live2 AddStreams_frame(1) [OF add]] lp by (rule streams_live_put_pc)
      with res p lp negotiate_live [OF assms(1), of "put_pc a p st3" p a sd w d st'] show ?thesis
        by (auto simp: put_pc_opt_def nonnull_def split: if_splits)
    qed
  qed
qed

lemma setAnswer_live:
  assumes "webrtc_laws W" and "streams_live W st" and "setAnswer W st peerid msg = Inr (j, st')"
  shows "streams_live W st'"
proof -
  have "labels W pc' \<subseteq> labels W pc" if "set_remote W pc d = (pc', r)" for pc pc' d r
    using webrtc_lawsD(7) [OF assms(1), of pc d] that by simp
  with assms(2,3) show ?thesis
    by (auto simp: setAnswer_def deref_def split: option.splits prod.splits)
      (metis streams_live_update)+
qed

lemma apply_candidate_live:
  assumes "webrtc_laws W" and "streams_live W st" and "apply_candidate W st peerid cand = Inr (ok, st')"
  shows "streams_live W st'"
proof -
  have "labels W pc' \<subseteq> labels W pc" if "add_candidate W pc cand = (pc', r)" for pc pc' r
    using webrtc_lawsD(5) [OF assms(1), of pc cand] that by simp
  with assms(2,3) show ?thesis
    by (auto simp: apply_candidate_def deref_def split: option.splits prod.splits)
      (metis streams_live_update)
qed

lemma addIceCandidate_live:
  assumes "webrtc_laws W" and "streams_live W st" and "addIceCandidate W st peerid msg = Inr (j, st')"
  shows "streams_live W st'"
  using assms(3,2)
  by (auto simp: addIceCandidate_def split: option.splits dest: apply_candidate_live [OF assms(1)])

lemma patch_line_live:
  assumes "webrtc_laws W" and "streams_live W st" and "patch_line W peerid (p, st) line = Inr (p', st')"
  shows "streams_live W st'"
  using assms(3,2)
  by (auto simp: patch_line_def Let_def split: if_splits option.splits dest: apply_candidate_live [OF assms(1)])

lemma patch_lines_live:
  assumes "webrtc_laws W"
  shows "streams_live W st \<Longrightarrow> patch_lines W peerid (p, st) ls = Inr (p', st') \<Longrightarrow> streams_live W st'"
proof (induction ls arbitrary: p st)
  case Nil
  then show ?case by simp
next
  case (Cons l ls)
  then obtain q st1 where "patch_line W peerid (p, st) l = Inr (q, st1)"
    and "patch_lines W peerid (q, st1) ls = Inr (p', st')"
    by auto
  with Cons show ?case using patch_line_live [OF assms] by blast
qed

lemma getAnswer_sdp_live:
  assumes "webrtc_laws W" and "mgr_ok st" and "streams_live W st"
    and "getAnswer_sdp C W st peerid sdp videourl audiourl opts w n now = Inr (d, st')"
  shows "streams_live W st'"
  using assms(4,3)
  by (auto simp: getAnswer_sdp_def split: option.splits dest: getAnswer_live [OF assms(1,2)])

lemma call_live:
  assumes "webrtc_laws W" and "mgr_ok st" and "streams_live W st"
    and "call C W st peerid videourl audiourl opts msg n now = Inr (j, st')"
  shows "streams_live W st'"
  using assms(4,3) by (auto simp: call_def split: option.splits dest: getAnswer_sdp_live [OF assms(1,2)])

lemma whep_live:
  assumes "webrtc_laws W" and "mgr_ok st" and "streams_live W st"
    and "whep C W st method url pid videourl audiourl opts n body rand now = Inr (r, st')"
  shows "streams_live W st'"
  using assms(4,3)
  by (auto simp: whep_def Let_def split: if_splits option.splits
      dest: patch_lines_live [OF assms(1)] getAnswer_sdp_live [OF assms(1,2)] hangUp_live [OF assms(2)])

text \<open>What callbacks change of an observer, its candidates, does not matter here.\<close>

lemma streams_live_same:
  "streams_live W st \<Longrightarrow> peer_pc st' = peer_pc st \<Longrightarrow> stream_map st' = stream_map st \<Longrightarrow> streams_live W st'"
  by (simp add: streams_live_def live_def)

lemma observer_candidate_live:
  "streams_live W st \<Longrightarrow> observer_candidate C st a c = Inr st' \<Longrightarrow> streams_live W st'"
  by (erule streams_live_same)
    (auto simp: observer_candidate_def deref_def peer_pc_def fun_eq_iff split: option.splits if_splits)

lemma OnIceConnectionChange_live:
  "streams_live W st \<Longrightarrow> OnIceConnectionChange st a state = Inr st' \<Longrightarrow> streams_live W st'"
  by (erule streams_live_same)
    (auto simp: OnIceConnectionChange_def deref_def peer_pc_def fun_eq_iff Let_def
      split: option.splits if_splits)

lemma run_hangup_thread_live:
  assumes "mgr_ok st" and "streams_live W st" and "run_hangup_thread W st a = Inr (j, st')"
  shows "streams_live W st'"
proof -
  let ?st = "st\<lparr>hangup_threads := remove1 a (hangup_threads st)\<rparr>"
  have "streams_live W ?st"
    using assms(2) by (rule streams_live_same) (simp_all add: peer_pc_def fun_eq_iff cong: option.case_cong)
  moreover from assms(3) obtain k where "hangUp W ?st k = Inr (j, st')"
    by (auto simp: run_hangup_thread_def)
  ultimately show ?thesis using assms(1) hangUp_live [of ?st] by simp
qed

interpretation live_run: step_invariant "\<lambda>s t. webrtc_laws W \<and> api_step C W s t"
  "\<lambda>st :: 'pc manager. mgr_ok st \<and> streams_live W st"
  for C and W :: "('pc, 'sd, 'cand) webrtc"
proof
  fix st st' :: "'pc manager"
  assume inv: "mgr_ok st \<and> streams_live W st" and step: "webrtc_laws W \<and> api_step C W st st'"
  from step have "webrtc_laws W" and s: "api_step C W st st'" by simp_all
  from s inv have "streams_live W st'"
  proof (cases rule: api_step.cases)
    case (background a obs pc pc')
    then show ?thesis using inv streams_live_update [of W st a obs pc pc'] by simp
  qed (use inv \<open>webrtc_laws W\<close> in \<open>blast intro: createOffer_live setAnswer_live call_live whep_live
    addIceCandidate_live hangUp_live observer_candidate_live OnIceConnectionChange_live run_hangup_thread_live\<close>)+
  with run.step_inv [OF _ s] inv show "mgr_ok st' \<and> streams_live W st'" by simp
qed

lemma steps_with_laws:
  "webrtc_laws W \<Longrightarrow> (\<lambda>s t. webrtc_laws W \<and> api_step C W s t)\<^sup>*\<^sup>* = (api_step C W)\<^sup>*\<^sup>*"
  by simp

lemma reachable_live: "webrtc_laws W \<Longrightarrow> reachable C W st \<Longrightarrow> streams_live W st"
  using live_run.steps_inv [of W C init_manager st] streams_live_init wf_init
  by (auto simp: reachable_def steps_with_laws)

lemma demo_laws: "webrtc_laws demo_webrtc"
  by (auto simp: webrtc_laws_def demo_webrtc_def labels_def sender_label_def)

text \<open>
  C3. As long as the operations of the manager run one after the other, a stream that a
  registered peer sends is in the stream map with an open source: no hang up, eviction or failed
  request of another peer removes it. (Requests that overlap can lose a stream, see
  \<open>racing_hangup_loses_stream\<close>.)
\<close>

theorem sent_streams_stay_open:
  assumes "webrtc_laws W" and "reachable C W st" and "peer_pc st k = Some pc" and "l \<in> labels W pc"
  shows "\<exists>pair. map_of (stream_map st) l = Some pair \<and> pair \<noteq> (None, None)"
  using streams_liveD [OF reachable_live [OF assms(1,2)] assms(3)] assms(4)
  by (auto simp: live_def)

theorem sent_streams_stay_open_witness:
  "\<exists>pair. map_of (stream_map demo_state) ''videocap1|||builtin'' = Some pair \<and> pair \<noteq> (None, None)"
proof (rule sent_streams_stay_open [OF demo_laws demo_state_reachable])
  let ?s = "\<lparr>stream_ids = [''videocap1|||builtin''], track = None\<rparr>"
  show "peer_pc demo_state ''p'' = Some [?s]" by code_simp
  show "''videocap1|||builtin'' \<in> labels demo_webrtc [?s]"
    by (simp add: labels_def demo_webrtc_def sender_label_def)
qed

section \<open>Sharing a source\<close>

lemma ensure_stream_present:
  "ensure_stream C st l video audio om n = Inr st' \<Longrightarrow> map_of (stream_map st') l \<noteq> None"
  by (auto simp: ensure_stream_def map_of_smap_insert split: if_splits)

lemma AddStreams_present:
  assumes "AddStreams C W st pc videourl audiourl opts n = Inr (added, pc', st')"
    and "request_label C videourl audiourl opts n = Inr l" and "map_of (stream_map st) l \<noteq> None"
  shows "st' = st"
proof (cases "factory_of C n")
  case False
  with assms(1) show ?thesis by (simp add: AddStreams_def)
next
  case True
  with assms(1) show ?thesis
    using assms(2,3) by (elim AddStreams_cases) (auto simp: ensure_stream_def)
qed

text \<open>
  A source is created once: after a request has added its streams, the same request by
  any other connection opens no device, calls nothing on the audio module and leaves the whole
  state of the manager as it is.
\<close>

theorem AddStreams_shares_source:
  assumes "AddStreams C W st pc videourl audiourl opts n = Inr (added, pc1, st1)"
    and "factory_of C n"
    and "AddStreams C W st1 pc' videourl audiourl opts n = Inr (added', pc2, st2)"
  shows "st2 = st1"
proof -
  from assms(1,2) obtain l om video audio where l: "request_label C videourl audiourl opts n = Inr l"
    and e: "ensure_stream C st l video audio om n = Inr st1"
    by (rule AddStreams_cases)
  from assms(3) l ensure_stream_present [OF e] show ?thesis by (rule AddStreams_present)
qed

definition demo_added :: "bool \<times> sender list option \<times> sender list manager" where
  "demo_added = (case AddStreams demo_config demo_webrtc init_manager (Some []) ''videocap://1'' [] [] False of
                   Inr r \<Rightarrow> r | Inl _ \<Rightarrow> (False, None, init_manager))"

theorem AddStreams_shares_source_witness:
  "\<exists>added' pc2. AddStreams demo_config demo_webrtc (snd (snd demo_added)) (Some []) ''videocap://1'' [] [] False
      = Inr (added', pc2, snd (snd demo_added)) \<and> length (stream_map (snd (snd demo_added))) = 1"
proof -
  let ?st = "snd (snd demo_added)"
  have "\<not> isl (AddStreams demo_config demo_webrtc init_manager (Some []) ''videocap://1'' [] [] False)"
    and "\<not> isl (AddStreams demo_config demo_webrtc ?st (Some []) ''videocap://1'' [] [] False)"
    and l: "length (stream_map ?st) = 1" and f: "factory_of demo_config False"
    by code_simp+
  then have
    a: "AddStreams demo_config demo_webrtc init_manager (Some []) ''videocap://1'' [] [] False
          = Inr (fst demo_added, fst (snd demo_added), ?st)"
    by (simp add: demo_added_def split: sum.splits)
  obtain added' pc2 st2 where
    b: "AddStreams demo_config demo_webrtc ?st (Some []) ''videocap://1'' [] [] False = Inr (added', pc2, st2)"
    using \<open>\<not> isl (AddStreams demo_config demo_webrtc ?st _ _ _ _ _)\<close> by (metis sum.collapse(2) prod_cases3)
  from AddStreams_shares_source [OF a f b] b l show ?thesis by simp
qed

section \<open>A source that could not be opened\<close>

text \<open>The effect of a request on the streams: at most one new entry, after an eviction.\<close>

definition grown :: "(string, stream_pair) smap \<Rightarrow> (string, stream_pair) smap \<Rightarrow> bool" where
  "grown m m' \<longleftrightarrow> m' = m \<or> (\<exists>l pair. map_of m l = None \<and> m' = smap_insert l pair m)"

lemma grown_refl [simp]: "grown m m"
  by (simp add: grown_def)

lemma AddStreams_grown:
  assumes "AddStreams C W st pc videourl audiourl opts n = Inr (added, pc', st')"
  shows "grown (stream_map st) (stream_map st')"
proof -
  obtain m log where "st' = st\<lparr>adm_log := log, stream_map := m\<rparr>" and "grown (stream_map st) m"
    using AddStreams_frame(1) [OF assms] unfolding sources_step_def grown_def by blast
  then show ?thesis by simp
qed

lemma createOffer_sources:
  assumes "createOffer C W st peerid videourl audiourl opts now = Inr (j, st')"
  shows "\<exists>r st1. CreatePeerConnection C W st peerid (m_useNullCodec C) now = Inr (r, st1) \<and>
           grown (stream_map st1) (stream_map st')"
proof -
  from assms obtain r st1 where create: "CreatePeerConnection C W st peerid (m_useNullCodec C) now = Inr (r, st1)"
    by (auto simp: createOffer_def)
  with assms show ?thesis
    by (cases r) (auto simp: createOffer_def Let_def put_pc_opt_def put_pc_def register_peer_def
        split: option.splits if_splits prod.splits
        dest!: AddStreams_grown)
qed

lemma negotiate_sources: "negotiate W a pc sd w st = (d, st') \<Longrightarrow> stream_map st' = stream_map st"
  by (auto simp: negotiate_def Let_def put_pc_def split: prod.splits option.splits)

lemma getAnswer_sources:
  assumes "getAnswer C W st peerid sd videourl audiourl opts w n now = Inr (d, st')"
  shows "\<exists>r st1. CreatePeerConnection C W st peerid n now = Inr (r, st1) \<and>
           grown (stream_map st1) (stream_map st')"
proof -
  from assms obtain r st1 where create: "CreatePeerConnection C W st peerid n now = Inr (r, st1)"
    by (auto simp: getAnswer_def)
  with assms show ?thesis
    by (cases r) (auto simp: getAnswer_def Let_def put_pc_opt_def put_pc_def register_peer_def
        delete_observer_heap split: option.splits if_splits prod.splits
        dest!: AddStreams_grown negotiate_sources)
qed

definition dead :: "string \<Rightarrow> 'pc manager \<Rightarrow> bool" where
  "dead l st \<longleftrightarrow> map_of (stream_map st) l = Some (None, None)"

lemma dead_not_live: "dead l st \<Longrightarrow> l \<notin> live st"
  by (simp add: dead_def live_def)

lemma grown_dead: "grown (stream_map st) (stream_map st') \<Longrightarrow> dead l st \<Longrightarrow> dead l st'"
  by (auto simp: grown_def dead_def map_of_smap_insert)

lemma hangUp_dead:
  assumes "mgr_ok st \<and> streams_live W st" and "hangUp W st k = Inr (j, st')" and "dead l st"
  shows "dead l st'"
proof (cases "map_of (peer_map st) k")
  case None
  with assms show ?thesis by (simp add: hangUp_unknown)
next
  case (Some a)
  obtain pc where pc: "peer_pc st k = Some pc" using wf_peer_pc [OF _ Some] assms(1) by blast
  then have "l \<notin> labels W pc" using streams_liveD [of W st k pc] dead_not_live [OF assms(3)] assms(1) by blast
  with hangUp_effect(5) [OF _ Some pc assms(2), of l] assms(1,3) show ?thesis
    by (simp add: dead_def)
qed

lemma CreatePeerConnection_dead:
  assumes "mgr_ok st \<and> streams_live W st" and "CreatePeerConnection C W st peerid n now = Inr (r, st')"
    and "dead l st"
  shows "dead l st'"
  using assms(2) by (elim CreatePeerConnection_cases)
    (use assms hangUp_dead in \<open>force simp: dead_def\<close>)+

lemma getAnswer_sdp_dead:
  assumes "mgr_ok st \<and> streams_live W st" and "dead l st"
    and "getAnswer_sdp C W st peerid sdp videourl audiourl opts w n now = Inr (d, st')"
  shows "dead l st'"
proof (cases "parse_sdp W Offer sdp")
  case None
  with assms show ?thesis by (simp add: getAnswer_sdp_def)
next
  case (Some sd)
  with assms(3) have "getAnswer C W st peerid sd videourl audiourl opts w n now = Inr (d, st')"
    by (simp add: getAnswer_sdp_def)
  from getAnswer_sources [OF this] show ?thesis
    using CreatePeerConnection_dead [OF assms(1) _ assms(2)] grown_dead by blast
qed

lemma createOffer_dead:
  assumes "mgr_ok st \<and> streams_live W st" and "dead l st"
    and "createOffer C W st peerid videourl audiourl opts now = Inr (j, st')"
  shows "dead l st'"
  using createOffer_sources [OF assms(3)] CreatePeerConnection_dead [OF assms(1) _ assms(2)] grown_dead
  by blast

lemma apply_candidate_streams: "apply_candidate W st peerid cand = Inr (ok, st') \<Longrightarrow> stream_map st' = stream_map st"
  by (auto simp: apply_candidate_def put_pc_def split: option.splits prod.splits)

lemma patch_lines_streams:
  "patch_lines W peerid (p, st) ls = Inr (p', st') \<Longrightarrow> stream_map st' = stream_map st"
proof (induction ls arbitrary: p st)
  case Nil
  then show ?case by simp
next
  case (Cons l ls)
  then obtain q st1 where "patch_line W peerid (p, st) l = Inr (q, st1)"
    and "patch_lines W peerid (q, st1) ls = Inr (p', st')"
    by auto
  with Cons.IH show ?case
    by (auto simp: patch_line_def Let_def split: if_splits option.splits dest: apply_candidate_streams)
qed

lemma whep_dead:
  assumes "mgr_ok st \<and> streams_live W st" and "dead l st"
    and "whep C W st method url pid videourl audiourl opts n body rand now = Inr (r, st')"
  shows "dead l st'"
  using assms(3,2)
  by (auto simp: whep_def Let_def split: if_splits option.splits
      dest: patch_lines_streams getAnswer_sdp_dead [OF assms(1,2)] hangUp_dead [OF assms(1)]
      simp flip: dead_def) (auto simp: dead_def dest: patch_lines_streams)

lemma setAnswer_streams: "setAnswer W st peerid msg = Inr (j, st') \<Longrightarrow> stream_map st' = stream_map st"
  by (auto simp: setAnswer_def put_pc_def split: option.splits prod.splits)

lemma addIceCandidate_streams: "addIceCandidate W st peerid msg = Inr (j, st') \<Longrightarrow> stream_map st' = stream_map st"
  by (auto simp: addIceCandidate_def split: option.splits dest: apply_candidate_streams)

lemma callback_streams:
  "observer_candidate C st a c = Inr st' \<Longrightarrow> stream_map st' = stream_map st"
  "OnIceConnectionChange st a state = Inr st' \<Longrightarrow> stream_map st' = stream_map st"
  by (auto simp: observer_candidate_def OnIceConnectionChange_def Let_def split: if_splits)

lemma run_hangup_thread_dead:
  assumes "mgr_ok st \<and> streams_live W st" and "dead l st" and "run_hangup_thread W st a = Inr (j, st')"
  shows "dead l st'"
proof -
  let ?st = "st\<lparr>hangup_threads := remove1 a (hangup_threads st)\<rparr>"
  have "streams_live W ?st"
    using assms(1) by (intro streams_live_same [of W st ?st])
      (simp_all add: peer_pc_def fun_eq_iff cong: option.case_cong)
  moreover from assms(3) obtain k where "hangUp W ?st k = Inr (j, st')"
    by (auto simp: run_hangup_thread_def)
  ultimately show ?thesis using assms(1,2) hangUp_dead [of ?st W k j st' l] by (simp add: dead_def)
qed

lemma api_step_dead:
  assumes inv: "mgr_ok st \<and> streams_live W st" and "api_step C W st st'" and d: "dead l st"
  shows "dead l st'"
  using assms(2)
proof (cases rule: api_step.cases)
  case (background a obs pc pc')
  with d show ?thesis by (simp add: dead_def put_pc_def)
next
  case (call peerid videourl audiourl opts msg n now j)
  with d show ?thesis by (auto simp: call_def split: option.splits dest: getAnswer_sdp_dead [OF inv d])
qed (use d in \<open>auto dest: createOffer_dead [OF inv d] whep_dead [OF inv d] hangUp_dead [OF inv]
    run_hangup_thread_dead [OF inv d] setAnswer_streams addIceCandidate_streams callback_streams
    simp: dead_def\<close>)

lemma dead_stays:
  assumes "webrtc_laws W" and "reachable C W st" and "(api_step C W)\<^sup>*\<^sup>* st st'" and "dead l st"
  shows "dead l st'"
proof -
  have inv: "mgr_ok st \<and> streams_live W st"
    using reachable_ok [OF assms(2)] reachable_live [OF assms(1,2)] by simp
  have steps: "(\<lambda>s t. webrtc_laws W \<and> api_step C W s t)\<^sup>*\<^sup>* st st'"
    using assms(1,3) by simp
  have "dead l st \<longrightarrow> dead l st'"
  proof (rule live_run.steps_rel_inv [where P = "\<lambda>s t. dead l s \<longrightarrow> dead l t", OF steps inv])
    fix x y z
    assume "dead l x \<longrightarrow> dead l y" and "mgr_ok y \<and> streams_live W y" and "webrtc_laws W \<and> api_step C W y z"
    then show "dead l x \<longrightarrow> dead l z" using api_step_dead [of y W C z l] by simp
  qed simp
  with assms(4) show ?thesis by simp
qed

lemma request_label_capture: "request_label (C\<lparr>capture := E\<rparr>) = request_label C"
  by (simp add: request_label_def fun_eq_iff)

lemma AddStreams_dead:
  assumes "AddStreams C W st pc videourl audiourl opts n = Inr (added, pc', st')"
    and "request_label C videourl audiourl opts n = Inr l" and "dead l st"
  shows "\<not> added" and "st' = st"
proof -
  show "st' = st" using AddStreams_present [OF assms(1,2)] assms(3) by (simp add: dead_def)
  show "\<not> added"
  proof (cases "factory_of C n")
    case False
    with assms(1) show ?thesis by (simp add: AddStreams_def)
  next
    case True
    with assms(1) obtain l' pc1 where "request_label C videourl audiourl opts n = Inr l'" and
      "(case map_of (stream_map st') l' of None \<Rightarrow> Inr (False, pc1, st')
        | Some pair \<Rightarrow> rbind (add_tracks W pair l' pc1) (\<lambda>(pc2, ret). Inr (ret, pc2, st')))
       = (Inr (added, pc', st') :: _ res)"
      by (rule AddStreams_cases)
    with assms(2,3) \<open>st' = st\<close> show ?thesis by (auto simp: dead_def add_tracks_def attach_def)
  qed
qed

text \<open>
  A source that could not be opened is kept in the stream map as a pair of null sources and
  blocks its label for good: in every later state of the server the same request adds nothing
  and is refused, whatever devices are there by then.
\<close>

theorem failed_source_refused_forever:
  assumes "webrtc_laws W" and "reachable C W st" and "(api_step C W)\<^sup>*\<^sup>* st st'"
    and "request_label C videourl audiourl opts n = Inr l"
    and "map_of (stream_map st) l = Some (None, None)"
    and "AddStreams (C\<lparr>capture := E\<rparr>) W st' pc videourl audiourl opts n = Inr (added, pc', st'')"
  shows "\<not> added \<and> st'' = st'"
proof -
  have "dead l st'" using dead_stays [OF assms(1-3)] assms(5) by (simp add: dead_def)
  moreover have "request_label (C\<lparr>capture := E\<rparr>) videourl audiourl opts n = Inr l"
    using assms(4) by (simp add: request_label_capture)
  ultimately show ?thesis using AddStreams_dead [OF assms(6)] by blast
qed

text \<open>Device 9 does not exist when the first viewer asks for it, and does afterwards.\<close>

definition demo_failed :: "sender list manager" where
  "demo_failed = (case createOffer demo_config demo_webrtc init_manager ''q'' ''videocap://9'' [] [] 7 of
                    Inr (_, st) \<Rightarrow> st | Inl _ \<Rightarrow> init_manager)"

definition plugged :: capture_env where
  "plugged = demo_env\<lparr>vcm_count := 10, vcm_name := (\<lambda>i. (0, ''cam''))\<rparr>"

theorem failed_source_refused_forever_witness:
  "\<exists>pc' st''. AddStreams (demo_config\<lparr>capture := plugged\<rparr>) demo_webrtc demo_failed (Some []) ''videocap://9'' [] [] False
      = Inr (False, pc', st'') \<and> st'' = demo_failed \<and>
     fst (projr (AddStreams (demo_config\<lparr>capture := plugged\<rparr>) demo_webrtc init_manager (Some []) ''videocap://9'' [] [] False))"
proof -
  let ?add = "\<lambda>st. AddStreams (demo_config\<lparr>capture := plugged\<rparr>) demo_webrtc st (Some []) ''videocap://9'' [] [] False"
  have "\<not> isl (createOffer demo_config demo_webrtc init_manager ''q'' ''videocap://9'' [] [] 7)"
    by code_simp
  then have "\<exists>j. createOffer demo_config demo_webrtc init_manager ''q'' ''videocap://9'' [] [] 7 = Inr (j, demo_failed)"
    by (auto simp: demo_failed_def split: sum.splits)
  then have r: "reachable demo_config demo_webrtc demo_failed"
    unfolding reachable_def by (blast intro: api_step.offer)
  have l: "request_label demo_config ''videocap://9'' [] [] False = Inr ''videocap9|||builtin''"
    and m: "map_of (stream_map demo_failed) ''videocap9|||builtin'' = Some (None, None)"
    and "\<not> isl (?add demo_failed)" and fresh: "fst (projr (?add init_manager))"
    by code_simp+
  then obtain added pc' st'' where a: "?add demo_failed = Inr (added, pc', st'')"
    by (metis sum.collapse(2) prod_cases3)
  from failed_source_refused_forever [OF demo_laws r _ l m a] a fresh show ?thesis by auto
qed

end
