(* ===== verification/Peer_Limits.thy ===== *)
theory Peer_Limits
  imports Peer_Streams
begin

text \<open>
  The limit on the number of peer connections (option \<open>-m\<close>, \<open>m_maxpc\<close>): which peer is
  evicted, that the limit holds over every run in which all peers are named, and the case in
  which it does not.
\<close>

section \<open>The oldest peer\<close>

definition created :: "'pc manager \<Rightarrow> nat \<Rightarrow> 64 word" where
  "created st a = (case heap st a of None \<Rightarrow> 0 | Some obs \<Rightarrow> m_creationTime obs)"

lemma oldest_result:
  assumes "\<forall>e \<in> set es. \<exists>obs. heap st (snd e) = Some obs \<and> m_peerid obs = fst e"
    and "oldest st es t k = Inr r"
  shows "(r = k \<and> (\<forall>e \<in> set es. t \<le> created st (snd e))) \<or>
         (\<exists>e \<in> set es. r = fst e \<and> created st (snd e) < t \<and>
            (\<forall>e' \<in> set es. created st (snd e) \<le> created st (snd e')))"
  using assms
proof (induction es arbitrary: t k)
  case Nil
  then show ?case by simp
next
  case (Cons e es)
  then obtain obs where obs: "heap st (snd e) = Some obs" "m_peerid obs = fst e" by auto
  have t: "created st (snd e) = m_creationTime obs" by (simp add: created_def obs)
  show ?case
  proof (cases "m_creationTime obs < t")
    case True
    with Cons.prems obs have "oldest st es (m_creationTime obs) (fst e) = Inr r" by (simp add: deref_def)
    then consider "r = fst e" "\<forall>e' \<in> set es. m_creationTime obs \<le> created st (snd e')"
      | e' where "e' \<in> set es" "r = fst e'" "created st (snd e') < m_creationTime obs"
          "\<forall>e'' \<in> set es. created st (snd e') \<le> created st (snd e'')"
      using Cons.IH Cons.prems(1) by (metis list.set_intros(2))
    then show ?thesis
    proof cases
      case 1
      then show ?thesis using t True by simp
    next
      case 2
      then have "created st (snd e') < t" "created st (snd e') \<le> created st (snd e)"
        using t True by simp_all
      with 2 show ?thesis by auto
    qed
  next
    case False
    with Cons.prems obs have "oldest st es t k = Inr r" by (simp add: deref_def)
    then consider "r = k" "\<forall>e' \<in> set es. t \<le> created st (snd e')"
      | e' where "e' \<in> set es" "r = fst e'" "created st (snd e') < t"
          "\<forall>e'' \<in> set es. created st (snd e') \<le> created st (snd e'')"
      using Cons.IH Cons.prems(1) by (metis list.set_intros(2))
    then show ?thesis using t False by cases auto
  qed
qed

lemma smap_entry: "smap_ok m \<Longrightarrow> e \<in> set m \<longleftrightarrow> map_of m (fst e) = Some (snd e)"
  using smap_ok_distinct [of m] by (simp add: smap_keys_def map_of_eq_Some_iff)

lemma wf_entries:
  assumes "mgr_ok st" and "e \<in> set (peer_map st)"
  shows "\<exists>obs. heap st (snd e) = Some obs \<and> m_peerid obs = fst e"
proof -
  have "map_of (peer_map st) (fst e) = Some (snd e)"
    using assms smap_entry [of "peer_map st" e] by (simp add: mgr_ok_def)
  then show ?thesis using wf_peer [OF assms(1)] by blast
qed

text \<open>Every peer has a name, and a creation time below the largest 64-bit value.\<close>

definition peers_named :: "'pc manager \<Rightarrow> bool" where
  "peers_named st \<longleftrightarrow> (\<forall>e \<in> set (peer_map st). fst e \<noteq> [] \<and> created st (snd e) \<noteq> - 1)"

lemma below_max_word: "x < (- 1 :: 64 word) \<longleftrightarrow> x \<noteq> - 1"
  using word_order.not_eq_extremum by blast

lemma oldest_registered:
  assumes "mgr_ok st" and "peers_named st" and "peer_map st \<noteq> []"
    and "oldest st (peer_map st) (- 1) [] = Inr r"
  shows "\<exists>e \<in> set (peer_map st). r = fst e \<and> (\<forall>e' \<in> set (peer_map st). created st (snd e) \<le> created st (snd e'))"
proof -
  obtain e where e: "e \<in> set (peer_map st)" using assms(3) by (cases "peer_map st") auto
  then have "created st (snd e) < - 1" using assms(2) by (auto simp: peers_named_def below_max_word)
  then show ?thesis
    using oldest_result [OF _ assms(4)] wf_entries [OF assms(1)] e leD by blast
qed

section \<open>Eviction\<close>

lemma CreatePeerConnection_peers:
  assumes "CreatePeerConnection C W st peerid n now = Inr (r, st')"
  shows "\<exists>old st1 j. getOldestPeerCannection C st = Inr old \<and>
     (if old \<noteq> [] then hangUp W st old else Inr (JNull, st)) = Inr (j, st1) \<and> peer_map st' = peer_map st1"
  using assms by (force simp: CreatePeerConnection_def split: if_splits)

lemma hangUp_peers:
  assumes "mgr_ok st" and "hangUp W st k = Inr (j, st')"
  shows "peer_map st' = smap_erase k (peer_map st)"
proof (cases "map_of (peer_map st) k")
  case None
  then have "smap_erase k (peer_map st) = peer_map st"
    by (auto simp: smap_erase_def map_of_eq_None_iff filter_id_conv image_iff)
  with None assms(2) show ?thesis by (simp add: hangUp_unknown)
next
  case (Some a)
  obtain pc where "peer_pc st k = Some pc" using wf_peer_pc [OF assms(1) Some] by blast
  from hangUp_effect(4) [OF assms(1) Some this assms(2)] show ?thesis .
qed

text \<open>
  C23. When the limit is reached and every registered peer has a name, creating a connection
  hangs up exactly one peer, one that no other peer is older than.
\<close>

theorem eviction_takes_oldest:
  assumes "reachable C W st" and "peers_named st"
    and "0 < m_maxpc C" and "m_maxpc C \<le> int (length (peer_map st))"
    and "CreatePeerConnection C W st peerid n now = Inr (r, st')"
  shows "\<exists>e \<in> set (peer_map st). peer_map st' = smap_erase (fst e) (peer_map st) \<and>
           (\<forall>e' \<in> set (peer_map st). created st (snd e) \<le> created st (snd e'))"
proof -
  note ok = reachable_ok [OF assms(1)]
  from CreatePeerConnection_peers [OF assms(5)] assms(3,4) obtain old st1 j where
    old: "oldest st (peer_map st) (- 1) [] = Inr old" and
    hang: "(if old \<noteq> [] then hangUp W st old else Inr (JNull, st)) = Inr (j, st1)" and
    p: "peer_map st' = peer_map st1"
    by (auto simp: getOldestPeerCannection_def)
  have "peer_map st \<noteq> []" using assms(3,4) by auto
  from oldest_registered [OF ok assms(2) this old] obtain e where
    e: "e \<in> set (peer_map st)" "old = fst e" "\<forall>e' \<in> set (peer_map st). created st (snd e) \<le> created st (snd e')"
    by blast
  then have "old \<noteq> []" using assms(2) by (auto simp: peers_named_def)
  with hang have "hangUp W st old = Inr (j, st1)" by simp
  from hangUp_peers [OF ok this] p e show ?thesis by auto
qed

text \<open>Three viewers of a server that accepts two; the third request evicts the first peer.\<close>

definition limited :: config where
  "limited = demo_config\<lparr>m_maxpc := 2\<rparr>"

fun offers :: "config \<Rightarrow> (string \<times> 64 word) list \<Rightarrow> sender list manager \<Rightarrow> sender list manager" where
  "offers C [] st = st"
| "offers C ((peerid, now) # ps) st =
     (case createOffer C demo_webrtc st peerid ''videocap://1'' [] [] now of
        Inr (_, st') \<Rightarrow> offers C ps st' | Inl _ \<Rightarrow> st)"

lemma offers_steps: "(api_step C demo_webrtc)\<^sup>*\<^sup>* st (offers C ps st)"
proof (induction C ps st rule: offers.induct)
  case (2 C peerid now ps st)
  show ?case
  proof (cases "createOffer C demo_webrtc st peerid ''videocap://1'' [] [] now")
    case (Inr r)
    then have "api_step C demo_webrtc st (snd r)" by (cases r) (auto intro: api_step.offer)
    with 2 Inr show ?thesis by (cases r) (auto intro: converse_rtranclp_into_rtranclp)
  qed simp
qed simp

lemma offers_reachable: "reachable C demo_webrtc (offers C ps init_manager)"
  unfolding reachable_def by (rule offers_steps)

theorem eviction_takes_oldest_witness:
  "\<exists>e \<in> set (peer_map (offers limited [(''b'', 5), (''a'', 6)] init_manager)).
     peer_map (snd (projr (CreatePeerConnection limited demo_webrtc
        (offers limited [(''b'', 5), (''a'', 6)] init_manager) ''c'' False 8)))
       = smap_erase (fst e) (peer_map (offers limited [(''b'', 5), (''a'', 6)] init_manager)) \<and>
     (\<forall>e' \<in> set (peer_map (offers limited [(''b'', 5), (''a'', 6)] init_manager)).
        created (offers limited [(''b'', 5), (''a'', 6)] init_manager) (snd e)
          \<le> created (offers limited [(''b'', 5), (''a'', 6)] init_manager) (snd e'))"
  (is "\<exists>e \<in> set (peer_map ?st). _")
proof (rule eviction_takes_oldest [OF offers_reachable])
  show "peers_named ?st" "0 < m_maxpc limited" "m_maxpc limited \<le> int (length (peer_map ?st))"
    by code_simp+
  have "\<not> isl (CreatePeerConnection limited demo_webrtc ?st ''c'' False 8)" by code_simp
  then show "CreatePeerConnection limited demo_webrtc ?st ''c'' False 8
      = Inr (fst (projr (CreatePeerConnection limited demo_webrtc ?st ''c'' False 8)),
             snd (projr (CreatePeerConnection limited demo_webrtc ?st ''c'' False 8)))"
    by simp
qed

section \<open>The limit\<close>

lemma length_smap_insert: "length (smap_insert k v m) \<le> Suc (length m)"
proof -
  have "length (smap_assign k v m) \<le> Suc (length m)" by (induction m) auto
  then show ?thesis by (simp add: smap_insert_def)
qed

lemma length_smap_erase: "e \<in> set m \<Longrightarrow> length (smap_erase (fst e) m) < length m"
  unfolding smap_erase_def by (rule length_filter_less) auto

lemma CreatePeerConnection_room:
  assumes "mgr_ok st" and "peers_named st" and "0 < m_maxpc C" and "int (length (peer_map st)) \<le> m_maxpc C"
    and "CreatePeerConnection C W st peerid n now = Inr (r, st')"
  shows "int (length (peer_map st')) < m_maxpc C"
proof -
  from CreatePeerConnection_peers [OF assms(5)] obtain old st1 j where
    old: "getOldestPeerCannection C st = Inr old" and
    hang: "(if old \<noteq> [] then hangUp W st old else Inr (JNull, st)) = Inr (j, st1)" and
    p: "peer_map st' = peer_map st1"
    by blast
  show ?thesis
  proof (cases "m_maxpc C \<le> int (length (peer_map st))")
    case False
    with old hang p show ?thesis by (simp add: getOldestPeerCannection_def)
  next
    case True
    with old assms(3) have o: "oldest st (peer_map st) (- 1) [] = Inr old" "peer_map st \<noteq> []"
      by (auto simp: getOldestPeerCannection_def)
    then obtain e where e: "e \<in> set (peer_map st)" "old = fst e"
      using oldest_registered [OF assms(1,2)] by blast
    then have "old \<noteq> []" using assms(2) by (auto simp: peers_named_def)
    with hang e p hangUp_peers [OF assms(1), of W old j st1] length_smap_erase [OF e(1)] assms(4)
    show ?thesis by auto
  qed
qed

lemma AddStreams_peers:
  "AddStreams C W st pc videourl audiourl opts n = Inr (added, pc', st') \<Longrightarrow> peer_map st' = peer_map st"
  by (auto simp: sources_step_def dest!: AddStreams_frame(1))

lemma negotiate_peers: "negotiate W a pc sd w st = (d, st') \<Longrightarrow> peer_map st' = peer_map st"
  by (auto simp: negotiate_def Let_def put_pc_def split: prod.splits option.splits)

lemma createOffer_peers:
  assumes "createOffer C W st peerid videourl audiourl opts now = Inr (j, st')"
  shows "\<exists>r st1. CreatePeerConnection C W st peerid (m_useNullCodec C) now = Inr (r, st1) \<and>
           length (peer_map st') \<le> Suc (length (peer_map st1))"
proof -
  from assms obtain r st1 where create: "CreatePeerConnection C W st peerid (m_useNullCodec C) now = Inr (r, st1)"
    by (auto simp: createOffer_def)
  with assms show ?thesis
    by (cases r) (auto simp: createOffer_def Let_def put_pc_opt_def put_pc_def register_peer_def
        length_smap_insert split: option.splits if_splits prod.splits dest!: AddStreams_peers)
qed

lemma getAnswer_peers:
  assumes "getAnswer C W st peerid sd videourl audiourl opts w n now = Inr (d, st')"
  shows "\<exists>r st1. CreatePeerConnection C W st peerid n now = Inr (r, st1) \<and>
           length (peer_map st') \<le> Suc (length (peer_map st1))"
proof -
  from assms obtain r st1 where create: "CreatePeerConnection C W st peerid n now = Inr (r, st1)"
    by (auto simp: getAnswer_def)
  with assms show ?thesis
    by (cases r) (auto simp: getAnswer_def Let_def put_pc_opt_def put_pc_def register_peer_def
        delete_observer_heap length_smap_insert split: option.splits if_splits prod.splits
        dest!: AddStreams_peers negotiate_peers)
qed

definition within_limit :: "config \<Rightarrow> 'pc manager \<Rightarrow> bool" where
  "within_limit C st \<longleftrightarrow> mgr_ok st \<and> int (length (peer_map st)) \<le> m_maxpc C"

lemma within_limit_same: "within_limit C st \<Longrightarrow> mgr_ok st' \<Longrightarrow> peer_map st' = peer_map st \<Longrightarrow> within_limit C st'"
  by (simp add: within_limit_def)

lemma getAnswer_sdp_limit:
  assumes "within_limit C st" and "peers_named st" and "0 < m_maxpc C"
    and "getAnswer_sdp C W st peerid sdp videourl audiourl opts w n now = Inr (d, st')"
  shows "int (length (peer_map st')) \<le> m_maxpc C"
proof (cases "parse_sdp W Offer sdp")
  case None
  with assms show ?thesis by (simp add: getAnswer_sdp_def within_limit_def)
next
  case (Some sd)
  with assms(4) have "getAnswer C W st peerid sd videourl audiourl opts w n now = Inr (d, st')"
    by (simp add: getAnswer_sdp_def)
  from getAnswer_peers [OF this] obtain r st1 where
    "CreatePeerConnection C W st peerid n now = Inr (r, st1)" "length (peer_map st') \<le> Suc (length (peer_map st1))"
    by blast
  with CreatePeerConnection_room [OF _ assms(2,3)] assms(1) show ?thesis
    by (fastforce simp: within_limit_def)
qed

lemma createOffer_limit:
  assumes "within_limit C st" and "peers_named st" and "0 < m_maxpc C"
    and "createOffer C W st peerid videourl audiourl opts now = Inr (j, st')"
  shows "int (length (peer_map st')) \<le> m_maxpc C"
proof -
  from createOffer_peers [OF assms(4)] obtain r st1 where
    "CreatePeerConnection C W st peerid (m_useNullCodec C) now = Inr (r, st1)"
    "length (peer_map st') \<le> Suc (length (peer_map st1))"
    by blast
  with CreatePeerConnection_room [OF _ assms(2,3)] assms(1) show ?thesis
    by (fastforce simp: within_limit_def)
qed

lemma hangUp_limit:
  assumes "within_limit C st" and "hangUp W st k = Inr (j, st')"
  shows "int (length (peer_map st')) \<le> m_maxpc C"
proof -
  have "length (peer_map st') \<le> length (peer_map st)"
    using hangUp_peers [OF _ assms(2)] assms(1) by (simp add: within_limit_def smap_erase_def)
  with assms(1) show ?thesis by (simp add: within_limit_def)
qed

lemma apply_candidate_peers: "apply_candidate W st peerid cand = Inr (ok, st') \<Longrightarrow> peer_map st' = peer_map st"
  by (auto simp: apply_candidate_def put_pc_def split: option.splits prod.splits)

lemma patch_lines_peers:
  "patch_lines W peerid (p, st) ls = Inr (p', st') \<Longrightarrow> peer_map st' = peer_map st"
proof (induction ls arbitrary: p st)
  case Nil
  then show ?case by simp
next
  case (Cons l ls)
  then obtain q st1 where "patch_line W peerid (p, st) l = Inr (q, st1)"
    and "patch_lines W peerid (q, st1) ls = Inr (p', st')"
    by auto
  with Cons.IH show ?case
    by (auto simp: patch_line_def Let_def split: if_splits option.splits dest: apply_candidate_peers)
qed

lemma whep_limit:
  assumes "within_limit C st" and "peers_named st" and "0 < m_maxpc C"
    and "whep C W st method url pid videourl audiourl opts n body rand now = Inr (r, st')"
  shows "int (length (peer_map st')) \<le> m_maxpc C"
  using assms(4) assms(1)
  by (auto simp: whep_def Let_def split: if_splits option.splits
      dest: patch_lines_peers getAnswer_sdp_limit [OF assms(1-3)] hangUp_limit [OF assms(1)])
    (auto simp: within_limit_def dest: patch_lines_peers)

lemma other_peers:
  "setAnswer W st peerid msg = Inr (j, st') \<Longrightarrow> peer_map st' = peer_map st"
  "addIceCandidate W st peerid msg = Inr (j, st') \<Longrightarrow> peer_map st' = peer_map st"
  "observer_candidate C st a c = Inr st' \<Longrightarrow> peer_map st' = peer_map st"
  "OnIceConnectionChange st a state = Inr st' \<Longrightarrow> peer_map st' = peer_map st"
  by (auto simp: setAnswer_def addIceCandidate_def observer_candidate_def OnIceConnectionChange_def put_pc_def
      Let_def split: option.splits prod.splits if_splits dest: apply_candidate_peers)

lemma api_step_limit:
  assumes "within_limit C st" and "peers_named st" and "0 < m_maxpc C" and "api_step C W st st'"
  shows "int (length (peer_map st')) \<le> m_maxpc C"
  using assms(4)
proof (cases rule: api_step.cases)
  case (call peerid videourl audiourl opts msg n now j)
  then show ?thesis
    using assms(1) by (auto simp: call_def within_limit_def split: option.splits
        dest: getAnswer_sdp_limit [OF assms(1-3)])
next
  case (detached_hangup a j)
  then obtain k where "hangUp W (st\<lparr>hangup_threads := remove1 a (hangup_threads st)\<rparr>) k = Inr (j, st')"
    by (auto simp: run_hangup_thread_def)
  then show ?thesis by (rule hangUp_limit [rotated]) (use assms(1) in \<open>simp add: within_limit_def\<close>)
next
  case (background a obs pc pc')
  then show ?thesis using assms(1) by (simp add: put_pc_def within_limit_def)
qed (use assms(1) in \<open>auto dest: createOffer_limit [OF assms(1-3)] whep_limit [OF assms(1-3)]
    hangUp_limit [OF assms(1)] other_peers simp: within_limit_def\<close>)

interpretation limit_run: step_invariant "\<lambda>s t. (0 < m_maxpc C \<and> peers_named s) \<and> api_step C W s t"
  "within_limit C :: 'pc manager \<Rightarrow> bool"
  for C and W :: "('pc, 'sd, 'cand) webrtc"
proof
  fix s t :: "'pc manager"
  assume "within_limit C s" and "(0 < m_maxpc C \<and> peers_named s) \<and> api_step C W s t"
  then show "within_limit C t"
    using api_step_limit [of C s W t] run.step_inv [of s C W t] by (simp add: within_limit_def)
qed

text \<open>
  C5. The limit holds for requests that do not overlap: with a positive \<open>m_maxpc\<close>, after any run
  of operations and callbacks one after the other, in which every registered peer has a name, at
  most \<open>m_maxpc\<close> peers are registered. (Requests that overlap exceed it, see
  \<open>racing_offers_exceed_limit\<close>.)
\<close>

theorem peer_limit:
  assumes "0 < m_maxpc C" and "(\<lambda>s t. peers_named s \<and> api_step C W s t)\<^sup>*\<^sup>* init_manager st"
  shows "int (length (peer_map st)) \<le> m_maxpc C"
proof -
  have "(\<lambda>s t. (0 < m_maxpc C \<and> peers_named s) \<and> api_step C W s t)\<^sup>*\<^sup>* init_manager st"
    using assms by simp
  moreover have "within_limit C init_manager"
    using assms(1) wf_init by (simp add: within_limit_def init_manager_def)
  ultimately have "within_limit C st" by (rule limit_run.steps_inv)
  then show ?thesis by (simp add: within_limit_def)
qed

fun offers_named :: "config \<Rightarrow> (string \<times> 64 word) list \<Rightarrow> sender list manager \<Rightarrow> bool" where
  "offers_named C [] st = True"
| "offers_named C ((peerid, now) # ps) st =
     (peers_named st \<and> (case createOffer C demo_webrtc st peerid ''videocap://1'' [] [] now of
        Inr (_, st') \<Rightarrow> offers_named C ps st' | Inl _ \<Rightarrow> True))"

lemma offers_named_steps:
  "offers_named C ps st \<Longrightarrow> (\<lambda>s t. peers_named s \<and> api_step C demo_webrtc s t)\<^sup>*\<^sup>* st (offers C ps st)"
proof (induction C ps st rule: offers.induct)
  case (2 C peerid now ps st)
  show ?case
  proof (cases "createOffer C demo_webrtc st peerid ''videocap://1'' [] [] now")
    case (Inr r)
    then have "api_step C demo_webrtc st (snd r)" by (cases r) (auto intro: api_step.offer)
    with 2 Inr show ?thesis by (cases r) (auto intro: converse_rtranclp_into_rtranclp)
  qed simp
qed simp

theorem peer_limit_witness:
  "int (length (peer_map (offers limited [(''b'', 5), (''a'', 6), (''c'', 8)] init_manager))) \<le> m_maxpc limited"
proof (rule peer_limit [OF _ offers_named_steps])
  show "0 < m_maxpc limited" "offers_named limited [(''b'', 5), (''a'', 6), (''c'', 8)] init_manager"
    by code_simp+
qed

text \<open>
  A peer with an empty id defeats the limit: when it is the oldest, creating a connection
  hangs up nobody, however many peers there are.
\<close>

theorem unnamed_peer_not_evicted:
  assumes "reachable C W st" and "map_of (peer_map st) [] = Some a"
    and "\<forall>e \<in> set (peer_map st). snd e \<noteq> a \<longrightarrow> created st a < created st (snd e)"
    and "CreatePeerConnection C W st peerid n now = Inr (r, st')"
  shows "peer_map st' = peer_map st"
proof -
  note ok = reachable_ok [OF assms(1)]
  from CreatePeerConnection_peers [OF assms(4)] obtain old st1 j where
    old: "getOldestPeerCannection C st = Inr old" and
    hang: "(if old \<noteq> [] then hangUp W st old else Inr (JNull, st)) = Inr (j, st1)" and
    p: "peer_map st' = peer_map st1"
    by blast
  have entry: "([], a) \<in> set (peer_map st)" using assms(2) by (simp add: map_of_SomeD)
  have "old = []"
  proof (rule ccontr)
    assume "old \<noteq> []"
    with old have "oldest st (peer_map st) (- 1) [] = Inr old"
      by (auto simp: getOldestPeerCannection_def split: if_splits)
    then obtain e where e: "e \<in> set (peer_map st)" "old = fst e" "created st (snd e) \<le> created st a"
      using oldest_result [of "peer_map st" st "- 1" "[]" old] wf_entries [OF ok] entry \<open>old \<noteq> []\<close> by fastforce
    then have "snd e = a" using assms(3) leD by blast
    then have "map_of (peer_map st) old = Some a"
      using e smap_entry [of "peer_map st" e] ok by (simp add: mgr_ok_def)
    then show False using wf_peer_inj [OF ok assms(2)] \<open>old \<noteq> []\<close> by blast
  qed
  with hang p show ?thesis by simp
qed

theorem unnamed_peer_not_evicted_witness:
  "int (length (peer_map (offers limited [([], 1), (''a'', 2)] init_manager))) = m_maxpc limited \<and>
   peer_map (snd (projr (CreatePeerConnection limited demo_webrtc
       (offers limited [([], 1), (''a'', 2)] init_manager) ''b'' False 8)))
     = peer_map (offers limited [([], 1), (''a'', 2)] init_manager)"
  (is "int (length (peer_map ?st)) = _ \<and> _")
proof
  show "int (length (peer_map ?st)) = m_maxpc limited" by code_simp
  let ?r = "CreatePeerConnection limited demo_webrtc ?st ''b'' False 8"
  have "\<not> isl ?r" by code_simp
  then have r: "?r = Inr (fst (projr ?r), snd (projr ?r))" by simp
  have m: "map_of (peer_map ?st) [] = Some 0"
    and t: "\<forall>e \<in> set (peer_map ?st). snd e \<noteq> 0 \<longrightarrow> created ?st 0 < created ?st (snd e)"
    by code_simp+
  show "peer_map (snd (projr ?r)) = peer_map ?st"
    by (rule unnamed_peer_not_evicted [OF offers_reachable m t r])
qed

end
