(* ===== verification/Peer_Sessions.thy ===== *)
theory Peer_Sessions
  imports Peer_Limits
begin

text \<open>
  Sessions as a client sees them: the WHEP resource (status codes, \<open>Location\<close>, the bound
  on the time spent waiting), and the paths on which an observer outlives its session or is
  gone too early: a peer id used twice, a request without a source, a connection that WebRTC
  refused, and the thread that a failed connection starts.
\<close>

section \<open>WHEP\<close>

lemma getAnswer_registers:
  assumes "mgr_ok st" and "getAnswer C W st peerid sd videourl audiourl opts w n now = Inr (Some d, st')"
  shows "map_of (peer_map st') peerid \<noteq> None"
proof -
  from assms(2) obtain r st1 where create: "CreatePeerConnection C W st peerid n now = Inr (r, st1)"
    by (auto simp: getAnswer_def)
  have reg: "map_of (peer_map (register_peer peerid a st1)) peerid \<noteq> None" for a
    by (simp add: register_peer_def map_of_smap_insert)
  show ?thesis
    using assms(2) create reg
    by (cases r) (auto simp: getAnswer_def Let_def put_pc_opt_def put_pc_def split: option.splits if_splits
        dest!: AddStreams_peers negotiate_peers)
qed

text \<open>
  A WHEP session can be reached at its \<open>Location\<close>: when a request without a peer id is
  answered with 201, the location is the URL with a fresh id of 32 characters appended, and
  that id is registered, so that \<open>PATCH\<close> and \<open>DELETE\<close> on it meet the session.
\<close>

theorem whep_location_resolves:
  assumes "reachable C W st" and "method \<noteq> ''DELETE''" and "method \<noteq> ''PATCH''"
    and "whep C W st method url [] videourl audiourl opts n body rand now = Inr ((201, headers, answer), st')"
  shows "\<exists>peerid. length peerid = 32 \<and>
           map_of headers ''Location'' = Some (url @ ''&peerid='' @ peerid) \<and>
           map_of headers ''Content-Type'' = Some ''application/sdp'' \<and>
           map_of (peer_map st') peerid \<noteq> None"
proof -
  let ?id = "random_string rand 32"
  from assms(2-4) obtain sdp d where
    a: "getAnswer_sdp C W st ?id sdp videourl audiourl opts True n now = Inr (Some d, st')" and
    h: "headers = fold (\<lambda>(k, v). smap_assign k v)
          [(''Location'', url @ ''&'' @ ''peerid='' @ ?id), (''Access-Control-Expose-Headers'', ''Location''),
           (''Content-Type'', ''application/sdp'')] []"
    by (auto simp: whep_def Let_def split: if_splits option.splits)
  have "map_of (peer_map st') ?id \<noteq> None"
    using a getAnswer_registers [OF reachable_ok [OF assms(1)]]
    by (auto simp: getAnswer_sdp_def split: option.splits)
  moreover have "map_of headers ''Location'' = Some (url @ ''&peerid='' @ ?id)"
    "map_of headers ''Content-Type'' = Some ''application/sdp''"
    by (simp_all add: h del: smap_assign.simps)
  moreover have "length ?id = 32" by (simp add: random_string_def)
  ultimately show ?thesis by blast
qed

definition demo_whep :: "string \<Rightarrow> string \<Rightarrow> json \<Rightarrow> sender list manager \<Rightarrow> (http_return \<times> sender list manager) res" where
  "demo_whep method peerid body st =
     whep demo_config demo_webrtc st method ''/api/whep?url=videocap://1'' peerid ''videocap://1'' [] [] False body (\<lambda>i. i) 7"

theorem whep_location_resolves_witness:
  "\<exists>headers answer st' peerid. demo_whep ''POST'' [] (JString ''v=0'') init_manager = Inr ((201, headers, answer), st') \<and>
     length peerid = 32 \<and>
     map_of headers ''Location'' = Some (''/api/whep?url=videocap://1'' @ ''&peerid='' @ peerid) \<and>
     map_of headers ''Content-Type'' = Some ''application/sdp'' \<and> map_of (peer_map st') peerid \<noteq> None"
proof -
  let ?r = "demo_whep ''POST'' [] (JString ''v=0'') init_manager"
  have "\<not> isl ?r" and c: "fst (fst (projr ?r)) = 201" by code_simp+
  then obtain headers answer st' where r: "?r = Inr ((201, headers, answer), st')"
    by (metis prod.collapse sum.collapse(2))
  have "reachable demo_config demo_webrtc init_manager" by (simp add: reachable_def)
  from whep_location_resolves [OF this _ _ r [unfolded demo_whep_def]] r show ?thesis by simp
qed

text \<open>A line of a \<open>PATCH\<close> body that ends the candidates.\<close>

definition end_line :: "string \<Rightarrow> bool" where
  "end_line line \<longleftrightarrow> \<not> strstr (strip_cr line) ''a=mid:'' \<and> \<not> strstr (strip_cr line) ''a=candidate'' \<and>
     strstr (strip_cr line) ''a=end-of-candidates''"

lemma str_find_length: "str_find n s = Some i \<Longrightarrow> i + length n \<le> length s"
  by (induction s arbitrary: i) (auto split: if_splits dest: prefix_length_le)

lemma strstr_substr: "strstr s n \<Longrightarrow> k \<le> length n \<Longrightarrow> \<exists>t. substr_from s k = Inr t"
  using str_find_length length_takeWhile_le [of "\<lambda>c. c \<noteq> CHR 0x00" s]
  by (fastforce simp: strstr_def substr_from_def)

lemma apply_candidate_defined: "mgr_ok st \<Longrightarrow> \<exists>ok st'. apply_candidate W st k cand = Inr (ok, st')"
  by (cases "map_of (peer_map st) k")
    (auto simp: apply_candidate_def deref_def split: prod.splits elim!: wf_peer)

lemma patch_line_defined:
  assumes "mgr_ok st"
  shows "\<exists>p' st'. patch_line W k (p, st) line = Inr (p', st')"
proof -
  let ?s = "strip_cr line"
  consider "strstr ?s ''a=mid:''" | "\<not> strstr ?s ''a=mid:''" "strstr ?s ''a=candidate''"
    | "\<not> strstr ?s ''a=mid:''" "\<not> strstr ?s ''a=candidate''"
    by blast
  then show ?thesis
  proof cases
    case 1
    then show ?thesis using strstr_substr [of ?s "''a=mid:''" "length ''a=mid:''"] by (auto simp: patch_line_def Let_def)
  next
    case 2
    then obtain sdp where "substr_from ?s (Suc (Suc 0)) = Inr sdp"
      using strstr_substr [of ?s "''a=candidate''" "Suc (Suc 0)"] by auto
    moreover have "\<exists>r. apply_candidate W st k cand = Inr r" for cand
      using apply_candidate_defined [OF assms, of W k cand] by blast
    then obtain f where "\<And>cand. apply_candidate W st k cand = Inr (f cand)" by metis
    ultimately show ?thesis
      using 2 by (auto simp: patch_line_def Let_def split: option.splits prod.splits)
  next
    case 3
    then show ?thesis by (simp add: patch_line_def Let_def)
  qed
qed

lemma patch_lines_defined: "mgr_ok st \<Longrightarrow> \<exists>p' st'. patch_lines W k (p, st) ls = Inr (p', st')"
proof (induction ls arbitrary: p st)
  case (Cons l ls)
  then obtain q st1 where "patch_line W k (p, st) l = Inr (q, st1)" using patch_line_defined by blast
  with Cons patch_line_wf show ?case by fastforce
qed simp

lemma patch_line_code:
  assumes "patch_line W k (p, st) line = Inr (p', st')"
  shows "p_code p' \<in> {p_code p, 200}" and "p_code p = 200 \<or> end_line line \<Longrightarrow> p_code p' = 200"
    and "map_of (peer_map st) k = None \<Longrightarrow> st' = st \<and> (p_code p' = 200 \<longrightarrow> p_code p = 200 \<or> end_line line)"
  using assms
  by (auto simp: patch_line_def Let_def end_line_def apply_candidate_def split: if_splits option.splits)

lemma patch_lines_code:
  assumes "patch_lines W k (p, st) ls = Inr (p', st')"
  shows "p_code p' \<in> {p_code p, 200} \<and>
         (p_code p = 200 \<or> (\<exists>line \<in> set ls. end_line line) \<longrightarrow> p_code p' = 200) \<and>
         (map_of (peer_map st) k = None \<longrightarrow> p_code p' = 200 \<longrightarrow> p_code p = 200 \<or> (\<exists>line \<in> set ls. end_line line))"
  using assms
proof (induction ls arbitrary: p st)
  case Nil
  then show ?case by simp
next
  case (Cons l ls)
  then obtain q st1 where q: "patch_line W k (p, st) l = Inr (q, st1)"
    and "patch_lines W k (q, st1) ls = Inr (p', st')"
    by auto
  from Cons.IH [OF this(2)] patch_line_code [OF q] show ?case by auto
qed

text \<open>
  A \<open>PATCH\<close> with a text body always completes and answers 200 or 501. It answers 200
  when the body announces the end of the candidates; for an unknown session it answers 200
  only then, so candidates for it are refused. The peers and the streams stay.
\<close>

theorem whep_patch_status:
  assumes "reachable C W st" and "pid \<noteq> []"
  shows "\<exists>code st'. whep C W st ''PATCH'' url pid videourl audiourl opts n (JString sdpfrag) rand now
           = Inr ((code, [], JString []), st') \<and> code \<in> {200, 501} \<and>
         ((\<exists>line \<in> set (read_lines (istringstream sdpfrag)). end_line line) \<longrightarrow> code = 200) \<and>
         (map_of (peer_map st) pid = None \<longrightarrow> code = 200 \<longrightarrow>
            (\<exists>line \<in> set (read_lines (istringstream sdpfrag)). end_line line)) \<and>
         peer_map st' = peer_map st \<and> stream_map st' = stream_map st"
proof -
  let ?p = "\<lparr>p_mid = [], p_code = 501\<rparr>"
  obtain p' st' where r: "patch_lines W pid (?p, st) (read_lines (istringstream sdpfrag)) = Inr (p', st')"
    using patch_lines_defined [OF reachable_ok [OF assms(1)]] by blast
  then have "whep C W st ''PATCH'' url pid videourl audiourl opts n (JString sdpfrag) rand now
      = Inr ((p_code p', [], JString []), st')"
    using assms(2) by (simp add: whep_def Let_def as_string_def)
  with patch_lines_code [OF r] patch_lines_peers [OF r] patch_lines_streams [OF r] show ?thesis
    by auto
qed

theorem whep_patch_status_witness:
  "\<exists>code st'. demo_whep ''PATCH'' ''x'' (JString ''a=candidate:1'') init_manager
      = Inr ((code, [], JString []), st') \<and> code = 501"
proof -
  have "reachable demo_config demo_webrtc init_manager" by (simp add: reachable_def)
  then obtain code st' where
    r: "demo_whep ''PATCH'' ''x'' (JString ''a=candidate:1'') init_manager = Inr ((code, [], JString []), st')"
    and c: "code \<in> {200, 501}" and e: "map_of (peer_map (init_manager :: sender list manager)) ''x'' = None \<longrightarrow> code = 200 \<longrightarrow>
      (\<exists>line \<in> set (read_lines (istringstream ''a=candidate:1'')). end_line line)"
    unfolding demo_whep_def
    using whep_patch_status [where C = demo_config and W = demo_webrtc and st = init_manager and pid = "''x''"
        and url = "''/api/whep?url=videocap://1''" and videourl = "''videocap://1''" and audiourl = "[]"
        and opts = "[]" and n = False and sdpfrag = "''a=candidate:1''" and rand = "\<lambda>i. i" and now = "7"]
    by auto
  have "\<not> (\<exists>line \<in> set (read_lines (istringstream ''a=candidate:1'')). end_line line)" by code_simp
  with r c e show ?thesis by (auto simp: init_manager_def)
qed

text \<open>
  \<open>DELETE\<close> ends the session, as \<open>hangUp\<close> does, but its answer is always the status
  501 that stands for an unknown method.
\<close>

theorem whep_delete_answers_501:
  assumes "reachable C W st" and "pid \<noteq> []"
  shows "\<exists>st'. whep C W st ''DELETE'' url pid videourl audiourl opts n body rand now
           = Inr ((501, [], JString []), st') \<and> map_of (peer_map st') pid = None \<and>
         (\<forall>k. k \<noteq> pid \<longrightarrow> map_of (peer_map st') k = map_of (peer_map st) k)"
proof -
  note ok = reachable_ok [OF assms(1)]
  obtain j st' where h: "hangUp W st pid = Inr (j, st')" using hangUp_defined [OF ok] by blast
  then have "whep C W st ''DELETE'' url pid videourl audiourl opts n body rand now
      = Inr ((501, [], JString []), st')"
    using assms(2) by (simp add: whep_def)
  with hangUp_peers [OF ok h] show ?thesis by simp
qed

theorem whep_delete_answers_501_witness:
  "\<exists>st'. demo_whep ''DELETE'' ''p'' JNull demo_state = Inr ((501, [], JString []), st') \<and>
     map_of (peer_map st') ''p'' = None \<and>
     (\<forall>k. k \<noteq> ''p'' \<longrightarrow> map_of (peer_map st') k = map_of (peer_map demo_state) k)"
  unfolding demo_whep_def by (rule whep_delete_answers_501 [OF demo_state_reachable]) simp

lemma wait_gathering_le: "wait_gathering f p k \<le> k"
  by (induction f p k rule: wait_gathering.induct) auto

lemma wait_gathering_stops:
  "wait_gathering f p k < k \<Longrightarrow> f (p + wait_gathering f p k)"
  by (induction f p k rule: wait_gathering.induct) (auto split: if_splits)

lemma CreatePeerConnection_waits:
  assumes "mgr_ok st" and "CreatePeerConnection C W st peerid n now = Inr (r, st')"
  shows "waits st' = waits st"
proof -
  have "waits st1 = waits st" if "hangUp W st k = Inr (j, st1)" for k j st1
  proof (cases "map_of (peer_map st) k")
    case None
    with that show ?thesis by (simp add: hangUp_unknown)
  next
    case (Some a)
    obtain pc where "peer_pc st k = Some pc" using wf_peer_pc [OF assms(1) Some] by blast
    from hangUp_registered [OF assms(1) Some this, of W] that show ?thesis
      by (auto simp: delete_observer_heap drop_unused_def unregister_def)
  qed
  then show ?thesis using assms(2) by (elim CreatePeerConnection_cases) auto
qed

lemma AddStreams_waits:
  "AddStreams C W st pc videourl audiourl opts n = Inr (added, pc', st') \<Longrightarrow> waits st' = waits st"
  by (auto simp: sources_step_def dest!: AddStreams_frame(1))

lemma negotiate_waits:
  "negotiate W a pc sd w st = (d, st') \<Longrightarrow> waits st' \<le> waits st + (if w then 5 else 0)"
  using wait_gathering_le
  by (auto simp: negotiate_def Let_def split: prod.splits option.splits)

text \<open>
  An answer waits for the gathering of candidates only when it is asked to, and then for
  at most five sleeps of 250 ms, whatever the connection reports.
\<close>

theorem getAnswer_wait_bounded:
  assumes "reachable C W st"
    and "getAnswer C W st peerid sd videourl audiourl opts w n now = Inr (d, st')"
  shows "waits st' \<le> waits st + (if w then 5 else 0)"
proof -
  from assms(2) obtain r st1 where create: "CreatePeerConnection C W st peerid n now = Inr (r, st1)"
    by (auto simp: getAnswer_def)
  have "waits st1 = waits st" by (rule CreatePeerConnection_waits [OF reachable_ok [OF assms(1)] create])
  with create assms(2) show ?thesis
    by (cases r) (auto simp: getAnswer_def Let_def put_pc_opt_def put_pc_def register_peer_def
        delete_observer_heap split: option.splits if_splits dest!: AddStreams_waits negotiate_waits)
qed

theorem getAnswer_wait_bounded_witness:
  "\<exists>d st'. getAnswer demo_config demo_webrtc init_manager ''p'' ''v=0'' ''videocap://1'' [] [] True False 7 = Inr (d, st') \<and>
     waits st' = 2 \<and> waits st' \<le> waits (init_manager :: sender list manager) + (if True then 5 else 0)"
proof -
  let ?r = "getAnswer demo_config demo_webrtc init_manager ''p'' ''v=0'' ''videocap://1'' [] [] True False 7"
  have "\<not> isl ?r" and w: "waits (snd (projr ?r)) = 2" by code_simp+
  then obtain d st' where r: "?r = Inr (d, st')" by (metis prod.collapse sum.collapse(2))
  have "reachable demo_config demo_webrtc init_manager" by (simp add: reachable_def)
  from getAnswer_wait_bounded [OF this r] r w show ?thesis by simp
qed

section \<open>Observers that outlive their session\<close>

lemma CreatePeerConnection_no_limit:
  assumes "m_maxpc C \<le> 0" and "CreatePeerConnection C W st peerid n now = Inr (r, st')"
  shows "r = None \<and> st' = st \<or>
    (\<exists>cfg. r = Some (next_addr st) \<and>
       st' = st\<lparr>heap := (heap st)(next_addr st \<mapsto> PeerConnectionObserver W peerid cfg n now),
               next_addr := Suc (next_addr st)\<rparr>)"
  using assms by (auto simp: CreatePeerConnection_def getOldestPeerCannection_def split: if_splits)

text \<open>
  A peer id that is used twice: an offer for an id that is registered already keeps the
  old session in the map and leaves the new observer, with its connection and tracks, alive
  but registered nowhere.
\<close>

theorem duplicate_peerid_orphan:
  assumes "reachable C W st" and "m_maxpc C \<le> 0" and "map_of (peer_map st) k = Some a"
    and "createOffer C W st k videourl audiourl opts now = Inr (j, st')" and "j \<noteq> JNull"
  shows "peer_map st' = peer_map st \<and> heap st' (next_addr st) \<noteq> None \<and>
         (\<forall>k'. map_of (peer_map st') k' \<noteq> Some (next_addr st))"
proof -
  note ok = reachable_ok [OF assms(1)]
  let ?n = "m_useNullCodec C"
  from assms(4) obtain r st1 where create: "CreatePeerConnection C W st k ?n now = Inr (r, st1)"
    by (auto simp: createOffer_def)
  from assms(4,5) create obtain b where "r = Some b" by (cases r) (auto simp: createOffer_def)
  with CreatePeerConnection_no_limit [OF assms(2) create] obtain cfg where
    r: "r = Some (next_addr st)" and
    st1: "st1 = st\<lparr>heap := (heap st)(next_addr st \<mapsto> PeerConnectionObserver W k cfg ?n now),
                   next_addr := Suc (next_addr st)\<rparr>"
    by auto
  from assms(4) create r st1 obtain added pc st2 where
    add: "AddStreams C W st1 (m_pc (PeerConnectionObserver W k cfg ?n now)) videourl audiourl opts ?n
            = Inr (added, pc, st2)"
    by (auto simp: createOffer_def deref_def)
  note ok1 = CreatePeerConnection_wf(1) [OF ok create]
  have p2: "peer_map st2 = peer_map st" and h2: "heap st2 (next_addr st) \<noteq> None"
    using AddStreams_wf(2,3) [OF ok1 add] st1 by simp_all
  have "peer_map st' = peer_map st" and "heap st' (next_addr st) \<noteq> None"
    using assms(3,4,5) create r st1 add p2 h2
    by (auto simp: createOffer_def deref_def Let_def put_pc_opt_def put_pc_def register_peer_def smap_insert_def
        nonnull_def split: if_splits option.splits prod.splits)
  moreover have "map_of (peer_map st) k' \<noteq> Some (next_addr st)" for k'
    using wf_mapped_live [OF ok] by blast
  ultimately show ?thesis by simp
qed

theorem duplicate_peerid_orphan_witness:
  "\<exists>j st'. createOffer demo_config demo_webrtc demo_state ''p'' ''videocap://1'' [] [] 9 = Inr (j, st') \<and>
     peer_map st' = peer_map demo_state \<and> heap st' (next_addr demo_state) \<noteq> None \<and>
     (\<forall>k'. map_of (peer_map st') k' \<noteq> Some (next_addr demo_state))"
proof -
  let ?r = "createOffer demo_config demo_webrtc demo_state ''p'' ''videocap://1'' [] [] 9"
  have "\<not> isl ?r" and j: "\<not> is_null (fst (projr ?r))" and m: "m_maxpc demo_config \<le> 0"
    and p: "map_of (peer_map demo_state) ''p'' = Some 0"
    by code_simp+
  then obtain j st' where r: "?r = Inr (j, st')" by (metis prod.collapse sum.collapse(2))
  have "j \<noteq> JNull" using j r by (auto simp: is_null_def)
  from duplicate_peerid_orphan [OF demo_state_reachable m p r this] r show ?thesis by blast
qed

text \<open>
  An offer whose streams cannot be added answers null, and its observer stays alive and
  is registered nowhere.
\<close>

theorem refused_offer_orphan:
  assumes "reachable C W st"
    and "CreatePeerConnection C W st k (m_useNullCodec C) now = Inr (Some a, st1)"
    and "heap st1 a = Some obs"
    and "AddStreams C W st1 (m_pc obs) videourl audiourl opts (m_useNullCodec C) = Inr (False, pc, st2)"
  shows "\<exists>st'. createOffer C W st k videourl audiourl opts now = Inr (JNull, st') \<and>
           heap st' a \<noteq> None \<and> (\<forall>k'. map_of (peer_map st') k' \<noteq> Some a)"
proof -
  note ok = reachable_ok [OF assms(1)]
  have "createOffer C W st k videourl audiourl opts now = Inr (JNull, put_pc_opt a pc st2)"
    using assms(2-4) by (simp add: createOffer_def deref_def)
  moreover have "heap (put_pc_opt a pc st2) a \<noteq> None" "peer_map (put_pc_opt a pc st2) = peer_map st1"
    using AddStreams_wf(2,3) [OF CreatePeerConnection_wf(1) [OF ok assms(2)] assms(4)] assms(3)
    by (auto simp: put_pc_opt_def put_pc_def split: option.splits)
  ultimately show ?thesis using CreatePeerConnection_wf(3) [OF ok assms(2) refl] by simp
qed

theorem refused_offer_orphan_witness:
  "\<exists>st'. createOffer demo_config demo_webrtc init_manager ''q'' ''videocap://9'' [] [] 7 = Inr (JNull, st') \<and>
     heap st' 0 \<noteq> None \<and> (\<forall>k'. map_of (peer_map st') k' \<noteq> Some 0)"
proof -
  let ?c = "CreatePeerConnection demo_config demo_webrtc init_manager ''q'' (m_useNullCodec demo_config) 7"
  let ?st1 = "snd (projr ?c)"
  have "\<not> isl ?c" and "fst (projr ?c) = Some 0" by code_simp+
  then have c: "?c = Inr (Some 0, ?st1)" by (metis prod.collapse sum.collapse(2))
  have "heap ?st1 0 \<noteq> None" by code_simp
  then obtain obs where o: "heap ?st1 0 = Some obs" by blast
  let ?a = "AddStreams demo_config demo_webrtc ?st1 (m_pc (the (heap ?st1 0))) ''videocap://9'' [] []
              (m_useNullCodec demo_config)"
  have na: "\<not> isl ?a" and f: "\<not> fst (projr ?a)" by code_simp+
  obtain added pc st2 where "?a = Inr (added, pc, st2)" using na by (cases ?a) auto
  with f have a: "?a = Inr (False, pc, st2)" by simp
  have "reachable demo_config demo_webrtc init_manager" by (simp add: reachable_def)
  from refused_offer_orphan [OF this c o a [unfolded o option.sel]] show ?thesis .
qed

section \<open>A connection that WebRTC refuses\<close>

lemma add_tracks_null:
  assumes "add_tracks W pair l (Some p) = Inr (pc', True)"
  shows "add_tracks W pair l None \<in> {Inl NullDeref, Inr (None, True)}"
  using assms
  by (cases pair) (auto simp: add_tracks_def attach_def nonnull_def split: option.splits if_splits prod.splits)

lemma AddStreams_null:
  assumes "AddStreams C W st (Some p) videourl audiourl opts n = Inr (True, pc', st')"
  shows "AddStreams C W st None videourl audiourl opts n = Inl NullDeref \<or>
         (\<exists>st''. AddStreams C W st None videourl audiourl opts n = Inr (True, None, st''))"
  using assms
  by (auto simp: AddStreams_def Let_def apply_bitrate_def nonnull_def split: if_splits option.splits
      dest!: add_tracks_null)

text \<open>
  When WebRTC does not create the connection, an answer gives up and deletes the observer,
  while an offer whose streams could be added to a connection goes on with the null pointer
  and crashes.
\<close>

theorem null_connection_offer_crashes:
  assumes "reachable C W st" and "m_maxpc C \<le> 0" and "peer_config C = Inr cfg"
    and "factory_of C (m_useNullCodec C)" and "create_pc W cfg (m_useNullCodec C) = None"
    and "AddStreams C W (st\<lparr>heap := (heap st)(next_addr st \<mapsto>
             PeerConnectionObserver W k cfg (m_useNullCodec C) now), next_addr := Suc (next_addr st)\<rparr>)
           (Some p) videourl audiourl opts (m_useNullCodec C) = Inr (True, p', st2)"
  shows "createOffer C W st k videourl audiourl opts now = Inl NullDeref \<and>
         (\<exists>st'. getAnswer C W st k sd videourl audiourl opts w (m_useNullCodec C) now = Inr (None, st') \<and>
            heap st' = heap st \<and> peer_map st' = peer_map st)"
proof -
  let ?n = "m_useNullCodec C"
  let ?obs = "PeerConnectionObserver W k cfg ?n now"
  let ?st1 = "st\<lparr>heap := (heap st)(next_addr st \<mapsto> ?obs), next_addr := Suc (next_addr st)\<rparr>"
  have create: "CreatePeerConnection C W st k ?n now = Inr (Some (next_addr st), ?st1)"
    using assms(2-4) by (simp add: CreatePeerConnection_def getOldestPeerCannection_def)
  have null: "m_pc ?obs = None" using assms(5) by (simp add: PeerConnectionObserver_def)
  have "createOffer C W st k videourl audiourl opts now = Inl NullDeref"
    using AddStreams_null [OF assms(6)] create null
    by (auto simp: createOffer_def deref_def nonnull_def)
  moreover have "heap st (next_addr st) = None"
    using reachable_ok [OF assms(1)] by (fastforce simp: mgr_ok_def)
  then have "\<exists>st'. getAnswer C W st k sd videourl audiourl opts w ?n now = Inr (None, st') \<and>
      heap st' = heap st \<and> peer_map st' = peer_map st"
    using create null by (auto simp: getAnswer_def deref_def delete_observer_heap fun_eq_iff)
  ultimately show ?thesis by blast
qed

definition refusing :: "(sender list, string, string) webrtc" where
  "refusing = demo_webrtc\<lparr>create_pc := (\<lambda>_ _. None)\<rparr>"

theorem null_connection_offer_crashes_witness:
  "createOffer demo_config refusing init_manager ''p'' ''videocap://1'' [] [] 7 = Inl NullDeref \<and>
   (\<exists>st'. getAnswer demo_config refusing init_manager ''p'' ''v=0'' ''videocap://1'' [] [] True
        (m_useNullCodec demo_config) 7 = Inr (None, st') \<and>
      heap st' = heap init_manager \<and> peer_map st' = peer_map (init_manager :: sender list manager))"
proof -
  let ?cfg = "projr (peer_config demo_config)"
  let ?st = "(init_manager :: sender list manager)\<lparr>heap := (heap init_manager)(next_addr (init_manager :: sender list manager) \<mapsto>
       PeerConnectionObserver refusing ''p'' ?cfg (m_useNullCodec demo_config) 7), next_addr := Suc (next_addr (init_manager :: sender list manager))\<rparr>"
  let ?a = "AddStreams demo_config refusing ?st (Some []) ''videocap://1'' [] [] (m_useNullCodec demo_config)"
  have "\<not> isl (peer_config demo_config)" and m: "m_maxpc demo_config \<le> 0"
    and f: "factory_of demo_config (m_useNullCodec demo_config)"
    and na: "\<not> isl ?a" and t: "fst (projr ?a)"
    by code_simp+
  then have cfg: "peer_config demo_config = Inr ?cfg" by simp
  have c: "create_pc refusing ?cfg (m_useNullCodec demo_config) = None" by (simp add: refusing_def)
  obtain added p' st2 where "?a = Inr (added, p', st2)" using na by (cases ?a) auto
  with t have a: "?a = Inr (True, p', st2)" by simp
  have "reachable demo_config refusing init_manager" by (simp add: reachable_def)
  from null_connection_offer_crashes [OF this m cfg f c a, of "''v=0''" True] show ?thesis .
qed

section \<open>Threads that hang up\<close>

text \<open>
  A connection that fails starts a thread that hangs its peer up through the captured
  observer. When the client hangs up first, the thread runs into a deleted object.
\<close>

theorem detached_hangup_dangles:
  assumes "reachable C W st" and "map_of (peer_map st) k = Some a"
    and "heap st a = Some obs" and "\<not> m_deleting obs"
  shows "\<exists>st1 j st2. OnIceConnectionChange st a IceFailed = Inr st1 \<and> hangUp W st1 k = Inr (j, st2) \<and>
           a \<in> set (hangup_threads st2) \<and> run_hangup_thread W st2 a = Inl UseAfterFree"
proof -
  note ok = reachable_ok [OF assms(1)]
  let ?st1 = "st\<lparr>heap := (heap st)(a \<mapsto> obs\<lparr>m_iceCandidateList := []\<rparr>),
                hangup_threads := hangup_threads st @ [a]\<rparr>"
  have change: "OnIceConnectionChange st a IceFailed = Inr ?st1"
    using assms(3,4) by (simp add: OnIceConnectionChange_def deref_def)
  note ok1 = OnIceConnectionChange_wf [OF ok change]
  have m: "map_of (peer_map ?st1) k = Some a" using assms(2) by simp
  obtain pc where pc: "peer_pc ?st1 k = Some pc" using wf_peer_pc [OF ok1 m] by blast
  let ?st2 = "delete_observer a (drop_unused W (unregister k ?st1) (labels W pc))"
  have "hangUp W ?st1 k = Inr (JBool True, ?st2)" by (rule hangUp_registered [OF ok1 m pc])
  moreover have "a \<in> set (hangup_threads ?st2)" "run_hangup_thread W ?st2 a = Inl UseAfterFree"
    by (simp_all add: delete_observer_heap drop_unused_def unregister_def run_hangup_thread_def deref_def)
  ultimately show ?thesis using change by blast
qed

theorem detached_hangup_dangles_witness:
  "\<exists>st1 j st2. OnIceConnectionChange demo_state 0 IceFailed = Inr st1 \<and> hangUp demo_webrtc st1 ''p'' = Inr (j, st2) \<and>
     0 \<in> set (hangup_threads st2) \<and> run_hangup_thread demo_webrtc st2 0 = Inl UseAfterFree"
proof -
  have "map_of (peer_map demo_state) ''p'' = Some 0" and h: "heap demo_state 0 \<noteq> None"
    and "\<not> m_deleting (the (heap demo_state 0))"
    by code_simp+
  then show ?thesis using detached_hangup_dangles [OF demo_state_reachable] by fastforce
qed

text \<open>
  An observer that is not registered, because its peer id was taken, hangs up the other
  session of that id when its own connection fails, and stays alive itself.
\<close>

theorem orphan_hangs_up_other_session:
  assumes "reachable C W st" and "heap st b = Some obs" and "m_peerid obs = k"
    and "map_of (peer_map st) k = Some a" and "a \<noteq> b"
  shows "\<exists>st'. run_hangup_thread W st b = Inr (JBool True, st') \<and> heap st' a = None \<and>
           heap st' b = Some obs \<and> map_of (peer_map st') k = None"
proof -
  let ?st = "st\<lparr>hangup_threads := remove1 b (hangup_threads st)\<rparr>"
  have ok: "mgr_ok ?st" using reachable_ok [OF assms(1)] by simp
  have m: "map_of (peer_map ?st) k = Some a" using assms(4) by simp
  obtain pc where pc: "peer_pc ?st k = Some pc" using wf_peer_pc [OF ok m] by blast
  have "run_hangup_thread W st b = hangUp W ?st k"
    using assms(2,3) by (simp add: run_hangup_thread_def deref_def)
  with hangUp_registered [OF ok m pc, of W] assms(2,5) show ?thesis
    by (simp add: delete_observer_heap drop_unused_def unregister_def)
qed

definition two_sessions :: "sender list manager" where
  "two_sessions = offers demo_config [(''p'', 1), (''p'', 2)] init_manager"

theorem orphan_hangs_up_other_session_witness:
  "\<exists>st'. run_hangup_thread demo_webrtc two_sessions 1 = Inr (JBool True, st') \<and> heap st' 0 = None \<and>
     heap st' 1 = Some (the (heap two_sessions 1)) \<and> map_of (peer_map st') ''p'' = None"
proof (rule orphan_hangs_up_other_session)
  show "reachable demo_config demo_webrtc two_sessions"
    unfolding two_sessions_def by (rule offers_reachable)
  have "heap two_sessions 1 \<noteq> None" by code_simp
  then show "heap two_sessions 1 = Some (the (heap two_sessions 1))" by simp
  show "m_peerid (the (heap two_sessions 1)) = ''p''" "map_of (peer_map two_sessions) ''p'' = Some 0"
    by code_simp+
qed simp

end
