(* ===== verification/Peer_Stats.thy ===== *)
theory Peer_Stats
  imports Peer_Sessions Complex_Main
begin

text \<open>
  The statistics of the peer connections (\<open>inc/PeerConnectionManager.h\<close>,
  \<open>src/PeerConnectionManager.cpp\<close>): the collector that turns WebRTC reports into byte counts
  and rates (\<open>PeerConnectionStatsCollectorCallback\<close>), the wait of \<open>getStats\<close>, and the
  description of every registered peer that \<open>getPeerConnectionList\<close> answers. A collector
  belongs to one observer; \<open>GetStats\<close> only asks for a report, which is delivered later, so the
  collectors are an argument of the operations that read them.
\<close>

section \<open>Doubles\<close>

text \<open>
  A rate is computed in \<open>double\<close>. A value is rounded to 53 significant bits, to the even one
  of two neighbours; the numbers below stay far from the limits of the exponent.
\<close>

definition half_even :: "rat \<Rightarrow> int" where
  "half_even x = (let f = \<lfloor>x\<rfloor>; r = x - of_int f in
     if r < 1 / 2 then f else if 1 / 2 < r then f + 1 else if even f then f else f + 1)"

function bits :: "int \<Rightarrow> nat" where
  "bits n = (if n \<le> 0 then 0 else Suc (bits (n div 2)))"
  by auto
termination by (relation "measure nat") auto

declare bits.simps [simp del]

text \<open>The unit in the last place of a positive number: a power of two.\<close>

definition ulp :: "rat \<Rightarrow> rat" where
  "ulp q = (case quotient_of q of (n, d) \<Rightarrow>
     let k = int (bits n) - int (bits d); e = (if 2 powi k \<le> q then k else k - 1)
     in 2 powi (e - 52))"

definition to_double :: "rat \<Rightarrow> rat" where
  "to_double q = (if q = 0 then 0
     else if 0 < q then of_int (half_even (q / ulp q)) * ulp q
     else - (of_int (half_even (- q / ulp (- q))) * ulp (- q)))"

text \<open>\<open>static_cast<uint64_t>\<close> of a double that is not negative\<close>

definition double_to_u64 :: "rat \<Rightarrow> 64 word res" where
  "double_to_u64 q = (if \<lfloor>q\<rfloor> < 2 ^ 64 then Inr (of_int \<lfloor>q\<rfloor>) else Inl Undefined)"

section \<open>The collector\<close>

record stat_attribute =
  at_name :: string
  at_value :: "string option" \<comment> \<open>\<open>ToString\<close>, when \<open>has_value\<close>\<close>
  at_text :: string \<comment> \<open>\<open>ToString\<close> in any case\<close>

record stat_entry =
  st_id :: string
  st_type :: string
  st_attributes :: "stat_attribute list"

record collector =
  m_report :: json
  m_bytesSent :: "64 word"
  m_bytesReceived :: "64 word"
  m_bwSentBps :: "64 word"
  m_bwRecvBps :: "64 word"
  m_prevBytesSent :: "64 word"
  m_prevBytesReceived :: "64 word"
  m_prevTimestampUs :: int

definition new_collector :: collector where
  "new_collector = \<lparr>m_report = JNull, m_bytesSent = 0, m_bytesReceived = 0, m_bwSentBps = 0, m_bwRecvBps = 0,
     m_prevBytesSent = 0, m_prevBytesReceived = 0, m_prevTimestampUs = 0\<rparr>"

text \<open>\<open>Json::Value::clear\<close> keeps the type of the value.\<close>

definition json_clear :: "json \<Rightarrow> json" where
  "json_clear j = (case j of JArray _ \<Rightarrow> JArray [] | JObject _ \<Rightarrow> JObject [] | _ \<Rightarrow> j)"

definition json_empty :: "json \<Rightarrow> bool" where
  "json_empty j \<longleftrightarrow> j \<in> {JNull, JArray [], JObject []}"

definition clearReport :: "collector \<Rightarrow> collector" where
  "clearReport c = new_collector\<lparr>m_report := json_clear (m_report c)\<rparr>"

text \<open>\<open>try { sum += std::stoull(text); } catch (...) {}\<close>\<close>

definition add_stoull :: "string \<Rightarrow> 64 word \<Rightarrow> 64 word" where
  "add_stoull s acc = (case strtol10 s of None \<Rightarrow> acc
     | Some n \<Rightarrow> if \<bar>n\<bar> < 2 ^ 64 then acc + of_int n else acc)"

definition attribute_bytes :: "stat_attribute \<Rightarrow> 64 word \<times> 64 word \<Rightarrow> 64 word \<times> 64 word" where
  "attribute_bytes attr r = (case r of (sent, received) \<Rightarrow>
     (case at_value attr of
        None \<Rightarrow> (sent, received)
      | Some s \<Rightarrow> if at_name attr = ''bytesSent'' then (add_stoull s sent, received)
                  else if at_name attr = ''bytesReceived'' then (sent, add_stoull s received)
                  else (sent, received)))"

definition entry_bytes :: "stat_entry \<Rightarrow> 64 word \<times> 64 word \<Rightarrow> 64 word \<times> 64 word" where
  "entry_bytes e r = (if st_type e = ''transport'' then fold attribute_bytes (st_attributes e) r else r)"

definition entry_json :: "stat_entry \<Rightarrow> json" where
  "entry_json e = (if st_attributes e = [] then JNull
     else json_object (map (\<lambda>attr. (at_name attr, JString (at_text attr))) (st_attributes e)))"

fun add_entries :: "stat_entry list \<Rightarrow> json \<Rightarrow> json res" where
  "add_entries [] j = Inr j"
| "add_entries (e # es) j = rbind (set_member j (st_id e) (entry_json e)) (add_entries es)"

text \<open>\<open>(bytes - previous) * 8 / dtSec\<close>: the difference and the product are unsigned.\<close>

definition rate :: "64 word \<Rightarrow> 64 word \<Rightarrow> rat \<Rightarrow> 64 word res" where
  "rate bytes prev dtSec =
     double_to_u64 (to_double (to_double (of_int (uint ((bytes - prev) * 8))) / dtSec))"

definition OnStatsDelivered :: "stat_entry list \<Rightarrow> int \<Rightarrow> collector \<Rightarrow> collector res" where
  "OnStatsDelivered report nowUs c =
     rbind (add_entries report (m_report c)) (\<lambda>j.
     case fold entry_bytes report (0, 0) of (sent, received) \<Rightarrow>
     rbind (if 0 < m_prevTimestampUs c then
              (let dtSec = to_double (to_double (of_int (nowUs - m_prevTimestampUs c)) / 1000000) in
               if 0 < dtSec then
                 rbind (rate sent (m_prevBytesSent c) dtSec) (\<lambda>s.
                 rbind (rate received (m_prevBytesReceived c) dtSec) (\<lambda>r. Inr (s, r)))
               else Inr (m_bwSentBps c, m_bwRecvBps c))
            else Inr (m_bwSentBps c, m_bwRecvBps c)) (\<lambda>(s, r).
       Inr (c\<lparr>m_report := j, m_bytesSent := sent, m_bytesReceived := received, m_bwSentBps := s, m_bwRecvBps := r,
              m_prevBytesSent := sent, m_prevBytesReceived := received, m_prevTimestampUs := nowUs\<rparr>)))"

text \<open>
  \<open>getStats\<close>: \<open>seen n\<close> is the report that the \<open>n\<close>-th look at the collector finds; the
  result also counts the sleeps of one second.
\<close>

fun wait_report :: "(nat \<Rightarrow> json) \<Rightarrow> nat \<Rightarrow> nat \<Rightarrow> nat" where
  "wait_report seen poll 0 = 0"
| "wait_report seen poll (Suc count) =
     (if json_empty (seen poll) \<and> 0 < count then Suc (wait_report seen (Suc poll) count) else 0)"

definition getStats :: "'pc observer \<Rightarrow> (nat \<Rightarrow> json) \<Rightarrow> (json \<times> nat) res" where
  "getStats obs seen = rbind (nonnull (m_pc obs)) (\<lambda>_.
     let sleeps = wait_report seen 0 10 in Inr (seen (Suc sleeps), sleeps))"

section \<open>The list of peers\<close>

text \<open>The states of a connection, as their names.\<close>

record 'pc pc_states =
  pc_state :: "'pc \<Rightarrow> string"
  signaling_state :: "'pc \<Rightarrow> string"
  ice_state :: "'pc \<Rightarrow> string"

definition opt_entry :: "string \<Rightarrow> int option \<Rightarrow> (string \<times> json) list" where
  "opt_entry k v = (case v of None \<Rightarrow> [] | Some i \<Rightarrow> [(k, JInt i)])"

definition track_json :: "track_info \<Rightarrow> json" where
  "track_json t =
     json_object ((''kind'', JString (t_kind t)) #
       (if t_kind t = ''video'' then
          (case t_state t of
             None \<Rightarrow> []
           | Some s \<Rightarrow> (''state'', JInt s) #
               (case t_size t of None \<Rightarrow> [] | Some (w, h) \<Rightarrow> [(''width'', JInt w), (''height'', JInt h)]))
        else if t_kind t = ''audio'' then opt_entry ''state'' (t_state t) @ opt_entry ''level'' (t_level t)
        else []))"

text \<open>\<open>streams[label][track id] = track\<close>, with a new object for a new label\<close>

definition add_stream :: "json \<Rightarrow> string \<Rightarrow> string \<Rightarrow> json \<Rightarrow> json res" where
  "add_stream streams label tid tr =
     rbind (is_member streams label) (\<lambda>present.
     rbind (if present then Inr streams else set_member streams label (JObject [])) (\<lambda>s1.
     rbind (member s1 label) (\<lambda>tracks.
     rbind (set_member tracks tid tr) (\<lambda>tracks'. set_member s1 label tracks'))))"

fun list_senders :: "sender list \<Rightarrow> json \<Rightarrow> json res" where
  "list_senders [] streams = Inr streams"
| "list_senders (s # ss) streams =
     (case track s of
        None \<Rightarrow> list_senders ss streams
      | Some t \<Rightarrow>
          (case stream_ids s of
             [] \<Rightarrow> Inl OutOfBounds
           | label # _ \<Rightarrow> rbind (add_stream streams label (t_id t) (track_json t)) (list_senders ss)))"

text \<open>\<open>(TimeMicros() - getCreationTime()) / 1000\<close>, unsigned, then read as signed\<close>

definition duration_ms :: "64 word \<Rightarrow> 64 word \<Rightarrow> int" where
  "duration_ms now since = sint ((now - since) div 1000)"

definition peer_json ::
  "('pc, 'sd, 'cand) webrtc \<Rightarrow> 'pc pc_states \<Rightarrow> collector \<Rightarrow> 64 word \<Rightarrow> 'pc observer \<Rightarrow> json res" where
  "peer_json W S c now obs =
     (case m_pc obs of
        None \<Rightarrow> Inr JNull
      | Some pc \<Rightarrow>
          (case local_description W pc of
             None \<Rightarrow> Inr JNull
           | Some d \<Rightarrow>
               rbind (list_senders (senders W pc) JNull) (\<lambda>streams.
                 Inr (json_object
                   [(''pc_state'', JString (pc_state S pc)),
                    (''signaling_state'', JString (signaling_state S pc)),
                    (''ice_state'', JString (ice_state S pc)),
                    (''duration_ms'', JInt (duration_ms now (m_creationTime obs))),
                    (''bytes_sent'', JInt (uint (m_bytesSent c))),
                    (''bytes_received'', JInt (uint (m_bytesReceived c))),
                    (''bandwidth_sent_bps'', JInt (uint (m_bwSentBps c))),
                    (''bandwidth_received_bps'', JInt (uint (m_bwRecvBps c))),
                    (''sdp'', JString (sdp_text W d)),
                    (''candidateList'', JArray (m_iceCandidateList obs)),
                    (''streams'', streams)]))))"

fun list_peers ::
  "('pc, 'sd, 'cand) webrtc \<Rightarrow> 'pc pc_states \<Rightarrow> (nat \<Rightarrow> collector) \<Rightarrow> 64 word \<Rightarrow> 'pc manager \<Rightarrow> (string \<times> nat) list
     \<Rightarrow> json list res" where
  "list_peers W S coll now st [] = Inr []"
| "list_peers W S coll now st (e # es) =
     rbind (deref st (snd e)) (\<lambda>obs.
     rbind (peer_json W S (coll (snd e)) now obs) (\<lambda>content.
     rbind (list_peers W S coll now st es) (\<lambda>rest. Inr (json_object [(fst e, content)] # rest))))"

definition getPeerConnectionList ::
  "('pc, 'sd, 'cand) webrtc \<Rightarrow> 'pc pc_states \<Rightarrow> (nat \<Rightarrow> collector) \<Rightarrow> 64 word \<Rightarrow> 'pc manager \<Rightarrow> json res" where
  "getPeerConnectionList W S coll now st =
     rbind (list_peers W S coll now st (peer_map st)) (\<lambda>vs. Inr (JArray vs))"

section \<open>Correctness of the list\<close>

text \<open>A value of \<open>streams\<close>: null, or an object whose members are objects.\<close>

definition stream_table :: "json \<Rightarrow> bool" where
  "stream_table j \<longleftrightarrow> j = JNull \<or> (\<exists>m. j = JObject m \<and> (\<forall>v \<in> ran (map_of m). \<exists>t. v = JObject t))"

definition lists_track :: "json \<Rightarrow> string \<Rightarrow> string \<Rightarrow> bool" where
  "lists_track j label tid \<longleftrightarrow> (\<exists>m t. j = JObject m \<and> map_of m label = Some (JObject t) \<and> map_of t tid \<noteq> None)"

lemma add_stream_ok:
  assumes "stream_table j"
  shows "\<exists>j'. add_stream j label tid tr = Inr j' \<and> stream_table j' \<and> lists_track j' label tid \<and>
           (\<forall>l t. lists_track j l t \<longrightarrow> lists_track j' l t)"
proof -
  consider "j = JNull"
    | m where "j = JObject m" "map_of m label = None" "\<forall>v \<in> ran (map_of m). \<exists>t. v = JObject t"
    | m ts where "j = JObject m" "map_of m label = Some (JObject ts)" "\<forall>v \<in> ran (map_of m). \<exists>t. v = JObject t"
  proof (cases "j = JNull")
    case False
    with assms obtain m where m: "j = JObject m" "\<forall>v \<in> ran (map_of m). \<exists>t. v = JObject t"
      by (auto simp: stream_table_def)
    show ?thesis
    proof (cases "map_of m label")
      case None
      with m that(2) show ?thesis by blast
    next
      case (Some v)
      then obtain t where "v = JObject t" using m(2) by (meson ranI)
      with m Some that(3) show ?thesis by blast
    qed
  qed (rule that(1))
  then show ?thesis
    by cases (auto simp: add_stream_def json_defs stream_table_def lists_track_def ran_def)
qed

lemma list_senders_ok:
  assumes "stream_table j" and "\<forall>s \<in> set ss. track s \<noteq> None \<longrightarrow> stream_ids s \<noteq> []"
  shows "\<exists>j'. list_senders ss j = Inr j' \<and> (\<forall>l t. lists_track j l t \<longrightarrow> lists_track j' l t) \<and>
    (\<forall>s \<in> set ss. \<forall>t. track s = Some t \<longrightarrow> lists_track j' (hd (stream_ids s)) (t_id t))"
  using assms
proof (induction ss arbitrary: j)
  case Nil
  then show ?case by simp
next
  case (Cons s ss)
  show ?case
  proof (cases "track s")
    case None
    with Cons show ?thesis by fastforce
  next
    case (Some t)
    then obtain l ls where l: "stream_ids s = l # ls" using Cons.prems(2) by (cases "stream_ids s") auto
    obtain j1 where j1: "add_stream j l (t_id t) (track_json t) = Inr j1" "stream_table j1"
      "lists_track j1 l (t_id t)" "\<forall>l t. lists_track j l t \<longrightarrow> lists_track j1 l t"
      using add_stream_ok [OF Cons.prems(1)] by blast
    from Cons.IH [OF j1(2)] Cons.prems(2) obtain j' where "list_senders ss j1 = Inr j'"
      "\<forall>l t. lists_track j1 l t \<longrightarrow> lists_track j' l t"
      "\<forall>s \<in> set ss. \<forall>t. track s = Some t \<longrightarrow> lists_track j' (hd (stream_ids s)) (t_id t)"
      by auto
    with Some l j1 show ?thesis by auto
  qed
qed

definition streams_named :: "('pc, 'sd, 'cand) webrtc \<Rightarrow> 'pc manager \<Rightarrow> bool" where
  "streams_named W st \<longleftrightarrow> (\<forall>k pc. peer_pc st k = Some pc \<longrightarrow>
     (\<forall>s \<in> set (senders W pc). track s \<noteq> None \<longrightarrow> stream_ids s \<noteq> []))"

lemma peer_json_ok:
  assumes "\<forall>pc. m_pc obs = Some pc \<longrightarrow> (\<forall>s \<in> set (senders W pc). track s \<noteq> None \<longrightarrow> stream_ids s \<noteq> [])"
  shows "\<exists>v. peer_json W S c now obs = Inr v"
  using list_senders_ok [of JNull] assms
  by (fastforce simp: peer_json_def stream_table_def split: option.splits)

text \<open>The name of the peer that an element of the answer describes.\<close>

definition described_peer :: "json \<Rightarrow> string option" where
  "described_peer j = (case j of JObject [(k, v)] \<Rightarrow> Some k | _ \<Rightarrow> None)"

lemma described_peer_object [simp]: "described_peer (json_object [(k, v)]) = Some k"
  by (simp add: described_peer_def json_object_def)

lemma list_peers_ok:
  assumes "\<forall>(k, a) \<in> set es. \<exists>obs v. deref st a = Inr obs \<and> peer_json W S (coll a) now obs = Inr v"
  shows "\<exists>vs. list_peers W S coll now st es = Inr vs \<and> map described_peer vs = map (\<lambda>e. Some (fst e)) es"
  using assms by (induction es) auto

lemma oldest_defined:
  assumes "mgr_ok st"
  shows "\<exists>r. getOldestPeerCannection C st = Inr r"
proof -
  have "\<forall>e \<in> set es. heap st (snd e) \<noteq> None \<Longrightarrow> \<exists>r. oldest st es t k = Inr r" for es t k
    by (induction es arbitrary: t k) (auto simp: deref_def)
  then show ?thesis using wf_entries [OF assms] by (fastforce simp: getOldestPeerCannection_def)
qed

text \<open>
  In every reachable state in which the senders with a track carry a stream id, the list of
  the peer connections is answered, with one element per registered peer, in the order of
  their names.
\<close>

theorem getPeerConnectionList_complete:
  assumes "reachable C W st" and "streams_named W st"
  shows "\<exists>vs. getPeerConnectionList W S coll now st = Inr (JArray vs) \<and>
           map described_peer vs = map (\<lambda>e. Some (fst e)) (peer_map st)"
proof -
  note ok = reachable_ok [OF assms(1)]
  have "\<exists>obs v. deref st a = Inr obs \<and> peer_json W S (coll a) now obs = Inr v" if "(k, a) \<in> set (peer_map st)" for k a
  proof -
    have m: "map_of (peer_map st) k = Some a"
      using that ok by (simp add: mgr_ok_def smap_ok_distinct smap_keys_def [symmetric] map_of_is_SomeI)
    then obtain obs where obs: "heap st a = Some obs" using wf_peer [OF ok] by fastforce
    then have "m_pc obs = Some pc \<Longrightarrow> peer_pc st k = Some pc" for pc using m by (simp add: peer_pc_def)
    then have "\<forall>pc. m_pc obs = Some pc \<longrightarrow> (\<forall>s \<in> set (senders W pc). track s \<noteq> None \<longrightarrow> stream_ids s \<noteq> [])"
      using assms(2) unfolding streams_named_def by blast
    from peer_json_ok [OF this] obs show ?thesis by (simp add: deref_def)
  qed
  then have "\<forall>(k, a) \<in> set (peer_map st). \<exists>obs v. deref st a = Inr obs \<and> peer_json W S (coll a) now obs = Inr v"
    by blast
  from list_peers_ok [OF this] show ?thesis by (auto simp: getPeerConnectionList_def)
qed

definition demo_states :: "sender list pc_states" where
  "demo_states = \<lparr>pc_state = (\<lambda>_. ''connected''), signaling_state = (\<lambda>_. ''stable''), ice_state = (\<lambda>_. ''completed'')\<rparr>"

lemma demo_streams_named: "streams_named demo_webrtc demo_state"
proof -
  have "list_all (\<lambda>e. case heap demo_state (snd e) of
        None \<Rightarrow> True
      | Some obs \<Rightarrow> (case m_pc obs of None \<Rightarrow> True | Some pc \<Rightarrow>
          list_all (\<lambda>s. track s \<noteq> None \<longrightarrow> stream_ids s \<noteq> []) (senders demo_webrtc pc))) (peer_map demo_state)"
    by code_simp
  then show ?thesis
    unfolding streams_named_def peer_pc_def list_all_iff
    by (fastforce split: option.splits dest!: map_of_SomeD)
qed

theorem getPeerConnectionList_complete_witness:
  "\<exists>vs. getPeerConnectionList demo_webrtc demo_states (\<lambda>_. new_collector) 9 demo_state = Inr (JArray vs) \<and>
     map described_peer vs = map (\<lambda>e. Some (fst e)) (peer_map demo_state)"
  by (rule getPeerConnectionList_complete [OF demo_state_reachable demo_streams_named])

text \<open>
  C2. In every state that the operations reach one after the other, those that follow the
  registered pointers never meet a deleted observer or a null connection: looking up a peer, its
  candidates or the oldest peer, asking whether a stream is used, an answer, a candidate and a
  hang up all complete, for every peer id and message, and so does the list of all peers
  as long as the senders with a track carry a stream id.
\<close>

theorem requests_never_dangle:
  assumes "reachable C W st"
  shows "(\<exists>r. hangUp W st k = Inr r) \<and> (\<exists>r. getPeerConnection st k = Inr r) \<and>
    (\<exists>r. getIceCandidateList st k = Inr r) \<and> (\<exists>r. streamStillUsed W st l = Inr r) \<and>
    (\<exists>r. setAnswer W st k msg = Inr r) \<and> (\<exists>r. addIceCandidate W st k msg = Inr r) \<and>
    (\<exists>r. getOldestPeerCannection C st = Inr r) \<and>
    (streams_named W st \<longrightarrow> (\<exists>r. getPeerConnectionList W S coll now st = Inr r))"
proof -
  note ok = reachable_ok [OF assms]
  have d: "map_of (peer_map st) k = Some a \<Longrightarrow> \<exists>obs. deref st a = Inr obs" for a
    using wf_peer [OF ok] by (fastforce simp: deref_def)
  have ap: "\<exists>r. apply_candidate W st k cand = Inr r" for cand
    using d by (force simp: apply_candidate_def split: option.splits prod.splits)
  have "\<exists>r. hangUp W st k = Inr r" using hangUp_defined [OF ok] by blast
  moreover have "\<exists>r. getPeerConnection st k = Inr r" "\<exists>r. getIceCandidateList st k = Inr r"
    using d by (force simp: getPeerConnection_def getIceCandidateList_def split: option.splits)+
  moreover have "\<exists>r. streamStillUsed W st l = Inr r" using streamStillUsed_in_use [OF ok] by blast
  moreover have "\<exists>r. setAnswer W st k msg = Inr r"
    using d by (force simp: setAnswer_def split: option.splits prod.splits)
  moreover obtain f where "\<And>cand. apply_candidate W st k cand = Inr (f cand)" using ap by metis
  then have "\<exists>r. addIceCandidate W st k msg = Inr r"
    by (simp add: addIceCandidate_def split: option.splits prod.splits)
  moreover have "\<exists>r. getOldestPeerCannection C st = Inr r" using oldest_defined [OF ok] .
  moreover have "streams_named W st \<longrightarrow> (\<exists>r. getPeerConnectionList W S coll now st = Inr r)"
    using getPeerConnectionList_complete [OF assms] by blast
  ultimately show ?thesis by blast
qed

theorem requests_never_dangle_witness:
  "(\<exists>r. hangUp demo_webrtc demo_state ''p'' = Inr r) \<and> (\<exists>r. getOldestPeerCannection demo_config demo_state = Inr r) \<and>
   (\<exists>r. streamStillUsed demo_webrtc demo_state ''videocap1|||builtin'' = Inr r) \<and>
   (\<exists>r. getPeerConnectionList demo_webrtc demo_states (\<lambda>_. new_collector) 9 demo_state = Inr r)"
  using requests_never_dangle [OF demo_state_reachable] demo_streams_named by blast

text \<open>
  The wait of \<open>getStats\<close> ends after at most nine seconds, and earlier only when a report has
  arrived.
\<close>

lemma wait_report_bound:
  "wait_report seen poll (Suc count) \<le> count \<and>
   (wait_report seen poll (Suc count) < count \<longrightarrow> \<not> json_empty (seen (poll + wait_report seen poll (Suc count))))"
proof (induction count arbitrary: poll)
  case (Suc count)
  from Suc [of "Suc poll"] show ?case by auto
qed simp

theorem getStats_wait_bounded:
  assumes "getStats obs seen = Inr (report, sleeps)"
  shows "sleeps \<le> 9 \<and> report = seen (Suc sleeps) \<and> (sleeps < 9 \<longrightarrow> \<not> json_empty (seen sleeps))"
proof -
  have "sleeps = wait_report seen 0 10 \<and> report = seen (Suc sleeps)"
    using assms by (auto simp: getStats_def Let_def)
  with wait_report_bound [of seen 0 9] show ?thesis by simp
qed

section \<open>Rates\<close>

lemma bits_bounds: "0 < n \<Longrightarrow> 2 ^ (bits n - 1) \<le> n \<and> n < 2 ^ bits n \<and> 0 < bits n"
proof (induction n rule: bits.induct)
  case (1 n)
  show ?case
  proof (cases "n = 1")
    case True
    then show ?thesis by (simp add: bits.simps)
  next
    case False
    with 1 have IH: "2 ^ (bits (n div 2) - 1) \<le> n div 2" "n div 2 < 2 ^ bits (n div 2)" "0 < bits (n div 2)"
      by auto
    obtain b where b: "bits (n div 2) = Suc b" using IH(3) by (cases "bits (n div 2)") auto
    with 1(2) have "bits n = Suc (Suc b)" by (subst bits.simps) simp
    with IH(1,2) b show ?thesis by auto
  qed
qed

lemma half_even_of_int [simp]: "half_even (of_int i) = i"
  by (simp add: half_even_def)

text \<open>The integers below \<open>2\<^sup>5\<^sup>3\<close> are doubles.\<close>

lemma to_double_nat:
  assumes "n < 2 ^ 53"
  shows "to_double (of_nat n) = of_nat n"
proof (cases "n = 0")
  case False
  then have b: "2 ^ (bits (int n) - 1) \<le> int n" "0 < bits (int n)" using bits_bounds [of "int n"] by auto
  define e where "e = bits (int n) - 1"
  have "int n < 2 ^ 53" using assms by simp
  with b(1) have "(2::int) ^ e < 2 ^ 53" unfolding e_def by (rule le_less_trans)
  then have e: "e \<le> 52" using power_less_imp_less_exp [of "2::int" e 53] by simp
  have k: "int (bits (int n)) - 1 = int e" using b(2) by (simp add: e_def)
  have "rat_of_int (2 ^ e) \<le> of_int (int n)" using b(1) unfolding e_def of_int_le_iff .
  then have le: "(2::rat) powi int e \<le> of_nat n" by simp
  have one: "bits 1 = 1" by (simp add: bits.simps)
  have q: "quotient_of (rat_of_nat n) = (int n, 1)"
    using quotient_of_int [of "int n"] by (simp add: of_int_of_nat_eq)
  have "ulp (of_nat n) = 2 powi (- int (52 - e))"
    using le k one e by (simp add: ulp_def q of_nat_diff)
  then have u: "ulp (of_nat n) = 1 / 2 ^ (52 - e)"
    unfolding power_int_minus by (simp add: field_simps)
  have "rat_of_nat n / (1 / 2 ^ (52 - e)) = of_int (int n * 2 ^ (52 - e))" by simp
  then have "half_even (of_nat n / ulp (of_nat n)) = int n * 2 ^ (52 - e)"
    unfolding u by (simp only: half_even_of_int)
  then show ?thesis using False by (simp add: to_double_def u)
qed (simp add: to_double_def)

lemma rate_one_second:
  assumes "prev \<le> bytes" and "8 * (uint bytes - uint prev) < 2 ^ 53"
  shows "rate bytes prev 1 = Inr (8 * (bytes - prev)) \<and> uint (8 * (bytes - prev)) = 8 * (uint bytes - uint prev)"
proof -
  have d: "uint (bytes - prev) = uint bytes - uint prev" using assms(1) by (simp add: uint_minus_simple_alt word_le_def)
  have nonneg: "0 \<le> uint bytes - uint prev" using assms(1) by (simp add: word_le_def)
  have "uint ((bytes - prev) * 8) = 8 * (uint bytes - uint prev)"
    using assms(2) nonneg unfolding uint_word_ariths(3) d by (simp add: mod_pos_pos_trivial mult.commute)
  moreover obtain n where n: "8 * (uint bytes - uint prev) = int n" using nonneg by (metis nonneg_int_cases mult_nonneg_nonneg zero_le_numeral)
  moreover have "n < 2 ^ 53" using assms(2) n by simp
  ultimately have "rate bytes prev 1 = Inr (of_int (int n))"
    and u: "uint (8 * (bytes - prev)) = int n"
    using to_double_nat [of n] by (simp_all add: rate_def double_to_u64_def mult.commute)
  moreover have "of_int (int n) = 8 * (bytes - prev)" using u by (metis word_of_int_uint)
  ultimately show ?thesis using n by simp
qed

lemma dt_one_second: "to_double (to_double 1000000 / 1000000) = 1"
  using to_double_nat [of 1000000] to_double_nat [of 1] by simp

text \<open>
  Two reports one second apart give the exact rates in bits per second, as long as the byte
  counters do not decrease and grow by less than \<open>2\<^sup>5\<^sup>0\<close>.
\<close>

theorem bandwidth_per_second:
  assumes "OnStatsDelivered report1 t c = Inr c1" and "OnStatsDelivered report2 (t + 1000000) c1 = Inr c2" and "0 < t"
    and "m_bytesSent c1 \<le> m_bytesSent c2" and "uint (m_bytesSent c2) - uint (m_bytesSent c1) < 2 ^ 50"
    and "m_bytesReceived c1 \<le> m_bytesReceived c2"
    and "uint (m_bytesReceived c2) - uint (m_bytesReceived c1) < 2 ^ 50"
  shows "uint (m_bwSentBps c2) = 8 * (uint (m_bytesSent c2) - uint (m_bytesSent c1)) \<and>
         uint (m_bwRecvBps c2) = 8 * (uint (m_bytesReceived c2) - uint (m_bytesReceived c1))"
proof -
  have c1: "m_prevTimestampUs c1 = t" "m_prevBytesSent c1 = m_bytesSent c1" "m_prevBytesReceived c1 = m_bytesReceived c1"
    using assms(1) by (auto simp: OnStatsDelivered_def split: prod.splits)
  have "rate (m_bytesSent c2) (m_bytesSent c1) 1 = Inr (m_bwSentBps c2)"
    and "rate (m_bytesReceived c2) (m_bytesReceived c1) 1 = Inr (m_bwRecvBps c2)"
    using assms(2,3) by (auto simp: OnStatsDelivered_def c1 dt_one_second Let_def split: prod.splits)
  with rate_one_second [OF assms(4)] rate_one_second [OF assms(6)] assms(5,7) show ?thesis by simp
qed

definition demo_report :: "string \<Rightarrow> stat_entry list" where
  "demo_report n = [\<lparr>st_id = ''T'', st_type = ''transport'',
     st_attributes = [\<lparr>at_name = ''bytesSent'', at_value = Some n, at_text = n\<rparr>]\<rparr>]"

definition demo_collect :: "(string \<times> int) list \<Rightarrow> collector res" where
  "demo_collect rs = fold (\<lambda>(n, t) r. rbind r (OnStatsDelivered (demo_report n) t)) rs (Inr new_collector)"

theorem bandwidth_per_second_witness:
  "\<exists>c1 c2. demo_collect [(''1000'', 7)] = Inr c1 \<and> demo_collect [(''1000'', 7), (''1500'', 1000007)] = Inr c2 \<and>
     uint (m_bwSentBps c2) = 8 * (uint (m_bytesSent c2) - uint (m_bytesSent c1)) \<and>
     uint (m_bwRecvBps c2) = 8 * (uint (m_bytesReceived c2) - uint (m_bytesReceived c1))"
proof -
  have "\<not> isl (demo_collect [(''1000'', 7)])" "\<not> isl (demo_collect [(''1000'', 7), (''1500'', 1000007)])"
    by code_simp+
  then obtain c1 c2 where c: "demo_collect [(''1000'', 7)] = Inr c1"
    "demo_collect [(''1000'', 7), (''1500'', 1000007)] = Inr c2"
    by (metis sum.collapse(2))
  have "map (\<lambda>r. case r of Inr c \<Rightarrow> (uint (m_bytesSent c), uint (m_bytesReceived c)) | Inl _ \<Rightarrow> (0, 0))
      [demo_collect [(''1000'', 7)], demo_collect [(''1000'', 7), (''1500'', 1000007)]] = [(1000, 0), (1500, 0)]"
    by code_simp
  with c have v: "uint (m_bytesSent c1) = 1000" "uint (m_bytesSent c2) = 1500"
    "uint (m_bytesReceived c1) = 0" "uint (m_bytesReceived c2) = 0" by simp_all
  have "uint (m_bwSentBps c2) = 8 * (uint (m_bytesSent c2) - uint (m_bytesSent c1)) \<and>
     uint (m_bwRecvBps c2) = 8 * (uint (m_bytesReceived c2) - uint (m_bytesReceived c1))"
  proof (rule bandwidth_per_second)
    show "OnStatsDelivered (demo_report ''1000'') 7 new_collector = Inr c1"
      and "OnStatsDelivered (demo_report ''1500'') (7 + 1000000) c1 = Inr c2"
      using c by (simp_all add: demo_collect_def)
  qed (simp_all add: word_le_def v)
  with c show ?thesis by blast
qed

text \<open>
  A counter that falls, as when the second report has no transport, wraps around: the rate is
  nearly \<open>2\<^sup>6\<^sup>4\<close> bits per second after one second, and half a second after the first report the
  conversion to \<open>uint64_t\<close> is undefined.
\<close>

lemma falling_counter_wraps:
  "map_sum id (\<lambda>c. uint (m_bwSentBps c)) (demo_collect [(''1000000'', 7), (''0'', 1000007)]) = Inr 18446744073701552128"
  "demo_collect [(''1000000'', 7), (''0'', 500007)] = Inl Undefined"
  by code_simp+

end
