(* ===== verification/Http_Server.thy ===== *)
theory Http_Server
  imports Peer_Stats
begin

text \<open>
  The HTTP server (\<open>src/HttpServerRequestHandler.cpp\<close>) and the API that the constructor of
  the peer connection manager registers with it: the table of paths, what each entry calls,
  the handler that turns an answer into a response, the WebSocket handler and the metrics.
  Civetweb, the JSON reader and writer and the texts of status codes are the parameters in
  \<open>civet\<close>; the model starts where civetweb has chosen the handler of a path.
\<close>

section \<open>Requests and state\<close>

record request_info =
  request_method :: string
  request_uri :: string
  query_string :: "string option" \<comment> \<open>\<open>None\<close>: the null pointer of a request without a query\<close>
  remote_addr :: string
  content_length :: int

record civet =
  get_param :: "string \<Rightarrow> string \<Rightarrow> string option" \<comment> \<open>\<open>CivetServer::getParam\<close>\<close>
  json_parse :: "string \<Rightarrow> bool \<times> json" \<comment> \<open>success and the value left in the output\<close>
  json_write :: "json \<Rightarrow> string" \<comment> \<open>\<open>Json::writeString\<close>\<close>
  status_text :: "int \<Rightarrow> string" \<comment> \<open>\<open>mg_get_response_code_text\<close>\<close>
  version_text :: string \<comment> \<open>\<open>VERSION\<close>, set by the build\<close>

record ('pc, 'sd, 'cand) server_env =
  env_config :: config
  env_webrtc :: "('pc, 'sd, 'cand) webrtc"
  env_states :: "'pc pc_states"
  env_civet :: civet
  env_base :: string \<comment> \<open>\<open>basePath\<close>\<close>

text \<open>What changes from one request to the next without being caused by it.\<close>

record moment =
  clock :: "64 word"
  random_bytes :: "nat \<Rightarrow> nat"
  collectors :: "nat \<Rightarrow> collector"

record 'pc server =
  mgr :: "'pc manager"
  log_level :: int \<comment> \<open>\<open>LogMessage::GetLogToDebug\<close>\<close>
  requests :: "string \<Rightarrow> nat" \<comment> \<open>the counters \<open>http_requests\<close>, by path\<close>

definition getParam :: "civet \<Rightarrow> string option \<Rightarrow> string \<Rightarrow> string" where
  "getParam V queryString paramName =
     (case queryString of
        None \<Rightarrow> []
      | Some q \<Rightarrow> (case get_param V q paramName of None \<Rightarrow> [] | Some value \<Rightarrow> value))"

section \<open>The API\<close>

datatype api_op = ApiGetMediaList | ApiGetVideoDeviceList | ApiGetAudioDeviceList | ApiGetAudioPlayoutList
  | ApiGetIceServers | ApiCall | ApiWhep | ApiHangup | ApiCreateOffer | ApiSetAnswer | ApiGetIceCandidate
  | ApiAddIceCandidate | ApiGetPeerConnectionList | ApiGetStreamList | ApiVersion | ApiLog | ApiHelp

text \<open>\<open>m_func\<close>, filled in the order of the constructor\<close>

definition api_table :: "string \<Rightarrow> (string, api_op) smap" where
  "api_table basePath = fold (\<lambda>(k, v). smap_assign (basePath @ k) v)
     [(''/api/getMediaList'', ApiGetMediaList), (''/api/getVideoDeviceList'', ApiGetVideoDeviceList),
      (''/api/getAudioDeviceList'', ApiGetAudioDeviceList), (''/api/getAudioPlayoutList'', ApiGetAudioPlayoutList),
      (''/api/getIceServers'', ApiGetIceServers), (''/api/call'', ApiCall), (''/api/whep'', ApiWhep),
      (''/api/hangup'', ApiHangup), (''/api/createOffer'', ApiCreateOffer), (''/api/setAnswer'', ApiSetAnswer),
      (''/api/getIceCandidate'', ApiGetIceCandidate), (''/api/addIceCandidate'', ApiAddIceCandidate),
      (''/api/getPeerConnectionList'', ApiGetPeerConnectionList), (''/api/getStreamList'', ApiGetStreamList),
      (''/api/version'', ApiVersion), (''/api/log'', ApiLog), (''/api/help'', ApiHelp)] []"

text \<open>\<open>make_tuple(200, {}, value)\<close> around an operation of the manager\<close>

definition answer_200 :: "'pc server \<Rightarrow> (json \<times> 'pc manager) res \<Rightarrow> (http_return \<times> 'pc server) res" where
  "answer_200 sv r = rbind r (\<lambda>(j, st). Inr ((200, [], j), sv\<lparr>mgr := st\<rparr>))"

definition answer_value :: "'pc server \<Rightarrow> json res \<Rightarrow> (http_return \<times> 'pc server) res" where
  "answer_value sv r = rbind r (\<lambda>j. Inr ((200, [], j), sv))"

definition api_log :: "civet \<Rightarrow> string option \<Rightarrow> 'pc server \<Rightarrow> (http_return \<times> 'pc server) res" where
  "api_log V q sv =
     (let loglevel = getParam V q ''level'' in
      rbind (if loglevel \<noteq> [] then rbind (atoi loglevel) (\<lambda>l. Inr (sv\<lparr>log_level := l\<rparr>)) else Inr sv) (\<lambda>sv'.
        Inr ((200, [], JInt (log_level sv')), sv')))"

definition run_api ::
  "('pc, 'sd, 'cand) server_env \<Rightarrow> moment \<Rightarrow> api_op \<Rightarrow> request_info \<Rightarrow> json \<Rightarrow> 'pc server
     \<Rightarrow> (http_return \<times> 'pc server) res" where
  "run_api E M f req body sv =
     (let C = env_config E; W = env_webrtc E; V = env_civet E; st = mgr sv; q = query_string req;
          peerid = getParam V q ''peerid''; url = getParam V q ''url''; audiourl = getParam V q ''audiourl'';
          opts = getParam V q ''options'';
          useNullCodec = (m_useNullCodec C \<or> getOptionValue opts ''nullcodec'' = ''1'')
      in case f of
        ApiGetMediaList \<Rightarrow> answer_value sv (getMediaList C)
      | ApiGetVideoDeviceList \<Rightarrow> answer_value sv (Inr (getVideoDeviceList C))
      | ApiGetAudioDeviceList \<Rightarrow> answer_value sv (Inr (getAudioDeviceList C st))
      | ApiGetAudioPlayoutList \<Rightarrow> answer_value sv (Inr (getAudioPlayoutList C st))
      | ApiGetIceServers \<Rightarrow>
          answer_value sv (Inr (getIceServers (net C) (m_iceServerList C) (m_transportType C) (remote_addr req)))
      | ApiCall \<Rightarrow> answer_200 sv (call C W st peerid url audiourl opts body useNullCodec (clock M))
      | ApiWhep \<Rightarrow>
          rbind (nonnull q) (\<lambda>query.
          rbind (whep C W st (request_method req) (request_uri req @ ''?'' @ query) peerid url audiourl opts
                   useNullCodec body (random_bytes M) (clock M)) (\<lambda>(r, st'). Inr (r, sv\<lparr>mgr := st'\<rparr>)))
      | ApiHangup \<Rightarrow> answer_200 sv (hangUp W st peerid)
      | ApiCreateOffer \<Rightarrow> answer_200 sv (createOffer C W st peerid url audiourl opts (clock M))
      | ApiSetAnswer \<Rightarrow> answer_200 sv (setAnswer W st peerid body)
      | ApiGetIceCandidate \<Rightarrow> answer_value sv (getIceCandidateList st peerid)
      | ApiAddIceCandidate \<Rightarrow> answer_200 sv (addIceCandidate W st peerid body)
      | ApiGetPeerConnectionList \<Rightarrow>
          answer_value sv (getPeerConnectionList W (env_states E) (collectors M) (clock M) st)
      | ApiGetStreamList \<Rightarrow> answer_value sv (Inr (getStreamList st))
      | ApiVersion \<Rightarrow> answer_value sv (Inr (JString (version_text V)))
      | ApiLog \<Rightarrow> api_log V q sv
      | ApiHelp \<Rightarrow> answer_value sv (Inr (JArray (map (\<lambda>e. JString (fst e)) (api_table (env_base E))))))"

section \<open>HTTP\<close>

definition crlf :: string where "crlf = [CHR 0x0D, CHR 0x0A]"

text \<open>What \<open>%s\<close> prints of a string\<close>

definition c_str :: "string \<Rightarrow> string" where
  "c_str s = takeWhile (\<lambda>c. c \<noteq> CHR 0x00) s"

definition header_line :: "string \<times> string \<Rightarrow> string" where
  "header_line h = c_str (fst h) @ '': '' @ c_str (snd h) @ crlf"

text \<open>The sequence of \<open>mg_printf\<close> and \<open>mg_write\<close>\<close>

definition write_response :: "int \<Rightarrow> headers \<Rightarrow> string \<Rightarrow> string" where
  "write_response code hs answer =
     ''HTTP/1.1 '' @ to_string code @ '' OK'' @ crlf @
     concat (map header_line
       ([(''Access-Control-Allow-Origin'', ''*''), (''Content-Type'', ''text/plain''),
         (''Content-Length'', to_string (int (length answer)))] @ hs)) @
     crlf @ answer"

definition getInputMessage :: "civet \<Rightarrow> request_info \<Rightarrow> string \<Rightarrow> json" where
  "getInputMessage V req body =
     (if content_length req > 0 then
        (case json_parse V body of (ok, j) \<Rightarrow> if ok then j else JString body)
      else JNull)"

text \<open>The status and the text of an answer: a null value is an internal error.\<close>

definition fill_out :: "civet \<Rightarrow> int \<Rightarrow> json \<Rightarrow> (int \<times> string) res" where
  "fill_out V code body =
     (if \<not> is_null body then
        (if is_string body then rbind (as_string body) (\<lambda>s. Inr (code, s)) else Inr (code, json_write V body))
      else Inr (500, status_text V 500))"

text \<open>\<open>RequestHandler::handle\<close> of the handler registered for a path, called by every method\<close>

definition handle ::
  "('pc, 'sd, 'cand) server_env \<Rightarrow> moment \<Rightarrow> string \<times> api_op \<Rightarrow> request_info \<Rightarrow> string \<Rightarrow> 'pc server
     \<Rightarrow> (string \<times> 'pc server) res" where
  "handle E M h req body sv =
     (let sv1 = sv\<lparr>requests := (requests sv)(fst h := Suc (requests sv (fst h)))\<rparr>;
          input = getInputMessage (env_civet E) req body
      in rbind (run_api E M (snd h) req input sv1) (\<lambda>((code, hs, j), sv2).
         rbind (fill_out (env_civet E) code j) (\<lambda>(code', answer).
           Inr (write_response code' hs answer, sv2))))"

section \<open>WebSocket\<close>

unbundle bit_operations_syntax

text \<open>\<open>handleData\<close>: the message written back, if any\<close>

definition handleData ::
  "('pc, 'sd, 'cand) server_env \<Rightarrow> moment \<Rightarrow> request_info \<Rightarrow> int \<Rightarrow> string \<Rightarrow> 'pc server
     \<Rightarrow> (string option \<times> 'pc server) res" where
  "handleData E M req flags data sv =
     (if flags AND 0xf = 1 then
        (let V = env_civet E; input = snd (json_parse V data) in
         rbind (member_default input ''request'' (JString [])) (\<lambda>r.
         rbind (as_string r) (\<lambda>request.
         case map_of (api_table (env_base E)) request of
           Some f \<Rightarrow>
             rbind (member_default input ''body'' (JString [])) (\<lambda>body.
             rbind (run_api E M f req body sv) (\<lambda>((_, _, j), sv'). Inr (Some (json_write V j), sv')))
         | None \<Rightarrow> Inr (Some (status_text V 500), sv))))
      else Inr (None, sv))"

section \<open>Metrics\<close>

record gauges =
  g_fds :: int
  g_threads :: int
  g_virtual_memory :: int
  g_resident_memory :: int
  g_cpu :: int

text \<open>\<open>std::stoul\<close>, as the \<open>unsigned long\<close> it returns\<close>

definition stoul :: "string \<Rightarrow> 64 word res" where
  "stoul s = (case strtol10 s of None \<Rightarrow> Inl InvalidArgument
     | Some n \<Rightarrow> if \<bar>n\<bar> < 2 ^ 64 then Inr (of_int n) else Inl StdOutOfRange)"

definition stat_field :: "string list \<Rightarrow> nat \<Rightarrow> 64 word res" where
  "stat_field st i = (if i < length st then stoul (st ! i) else Inl OutOfBounds)"

text \<open>The entries of \<open>/proc/<pid>/fd\<close>: whether each one is a link; \<open>None\<close> when it cannot be opened.\<close>

definition get_fds_total :: "bool list option \<Rightarrow> int" where
  "get_fds_total entries = (case entries of None \<Rightarrow> 0 | Some es \<Rightarrow> int (length (filter id es)))"

definition read_proc_stat :: "string \<Rightarrow> string list" where
  "read_proc_stat line = words line"

text \<open>\<open>updateMetrics\<close>: the sums and products are \<open>unsigned long\<close>, stored in a \<open>long\<close>.\<close>

definition updateMetrics :: "64 word \<Rightarrow> 64 word \<Rightarrow> bool list option \<Rightarrow> string \<Rightarrow> gauges res" where
  "updateMetrics pagesize clk_tck entries line =
     (let st = read_proc_stat line in
      rbind (stat_field st 19) (\<lambda>threads_total.
      rbind (stat_field st 22) (\<lambda>vm_bytes.
      rbind (stat_field st 23) (\<lambda>rss.
      rbind (stat_field st 13) (\<lambda>utime.
      rbind (stat_field st 14) (\<lambda>stime.
        if clk_tck = 0 then Inl DivByZero
        else Inr \<lparr>g_fds = get_fds_total entries, g_threads = sint threads_total, g_virtual_memory = sint vm_bytes,
                  g_resident_memory = sint (rss * pagesize), g_cpu = sint ((utime + stime) div clk_tck)\<rparr>))))))"

text \<open>\<open>PrometheusHandler::handleGet\<close>; the serializer prints the counters and the gauges.\<close>

definition handle_metrics ::
  "((string \<Rightarrow> nat) \<Rightarrow> gauges \<Rightarrow> string) \<Rightarrow> 64 word \<Rightarrow> 64 word \<Rightarrow> bool list option \<Rightarrow> string \<Rightarrow> 'pc server \<Rightarrow> string res"
  where
  "handle_metrics serialize pagesize clk_tck entries line sv =
     rbind (updateMetrics pagesize clk_tck entries line) (\<lambda>g.
       Inr (write_response 200 [] (serialize (requests sv) g)))"

text \<open>The paths that the constructor registers, in order.\<close>

definition registered_paths :: "string \<Rightarrow> string list" where
  "registered_paths basePath = map fst (api_table basePath) @ [''/metrics'']"

section \<open>Reading a response\<close>

text \<open>
  A reference reader: the status line, the header lines up to the empty one, and as many bytes
  of the body as \<open>Content-Length\<close> says; what follows belongs to the next response.
\<close>

fun split_crlf :: "string \<Rightarrow> (string \<times> string) option" where
  "split_crlf (c # d # s) =
     (if c = CHR 0x0D \<and> d = CHR 0x0A then Some ([], s)
      else map_option (\<lambda>(l, r). (c # l, r)) (split_crlf (d # s)))"
| "split_crlf _ = None"

lemma split_crlf_line: "CHR 0x0D \<notin> set l \<Longrightarrow> split_crlf (l @ crlf @ s) = Some (l, s)"
proof (induction l)
  case (Cons c l)
  then obtain d r where "l @ crlf @ s = d # r" by (cases "l @ crlf @ s") (auto simp: crlf_def)
  with Cons show ?case by auto
qed (simp add: crlf_def)

lemma split_crlf_shorter: "split_crlf s = Some (l, r) \<Longrightarrow> length r < length s"
  by (induction s arbitrary: l rule: split_crlf.induct) (auto split: if_splits)

definition parse_header :: "string \<Rightarrow> string \<times> string" where
  "parse_header l = (takeWhile (\<lambda>c. c \<noteq> CHR '':'') l, drop 2 (dropWhile (\<lambda>c. c \<noteq> CHR '':'') l))"

function read_headers :: "string \<Rightarrow> (headers \<times> string) option" where
  "read_headers s = (case split_crlf s of
     None \<Rightarrow> None
   | Some (l, r) \<Rightarrow> if l = [] then Some ([], r)
       else map_option (\<lambda>(hs, b). (parse_header l # hs, b)) (read_headers r))"
  by auto
termination by (relation "measure length") (auto dest: split_crlf_shorter)

declare read_headers.simps [simp del]

definition read_response :: "string \<Rightarrow> (int \<times> headers \<times> string \<times> string) option" where
  "read_response s = (case split_crlf s of
     None \<Rightarrow> None
   | Some (l, r) \<Rightarrow>
       (case (strtol10 (takeWhile (\<lambda>c. c \<noteq> CHR '' '') (drop 9 l)), read_headers r) of
          (Some code, Some (hs, b)) \<Rightarrow>
            (case map_of hs ''Content-Length'' of
               None \<Rightarrow> None
             | Some v \<Rightarrow> (case strtol10 v of
                            None \<Rightarrow> None
                          | Some n \<Rightarrow> Some (code, hs, take (nat n) b, drop (nat n) b)))
        | _ \<Rightarrow> None))"

definition header_ok :: "string \<times> string \<Rightarrow> bool" where
  "header_ok h \<longleftrightarrow> fst h \<noteq> [] \<and> CHR '':'' \<notin> set (fst h) \<and>
     (\<forall>c \<in> set (fst h) \<union> set (snd h). c \<noteq> CHR 0x0D \<and> c \<noteq> CHR 0x00)"

lemma c_str_id: "CHR 0x00 \<notin> set s \<Longrightarrow> c_str s = s"
  unfolding c_str_def by (rule takeWhile_eq_all_conv [THEN iffD2]) auto

lemma parse_header_line: "CHR '':'' \<notin> set k \<Longrightarrow> parse_header (k @ '': '' @ v) = (k, v)"
  by (auto simp: parse_header_def takeWhile_append dropWhile_append)

lemma read_headers_lines:
  "\<forall>h \<in> set hs. header_ok h \<Longrightarrow> read_headers (concat (map header_line hs) @ crlf @ b) = Some (hs, b)"
proof (induction hs)
  case Nil
  then show ?case using split_crlf_line [of "[]" b] by (simp add: read_headers.simps)
next
  case (Cons h hs)
  let ?l = "fst h @ '': '' @ snd h" and ?r = "concat (map header_line hs) @ crlf @ b"
  from Cons.prems have h: "header_ok h" by simp
  then have "CHR 0x00 \<notin> set (fst h)" "CHR 0x00 \<notin> set (snd h)" unfolding header_ok_def by blast+
  then have "header_line h = ?l @ crlf" by (simp add: header_line_def c_str_id)
  moreover have "split_crlf (?l @ crlf @ ?r) = Some (?l, ?r)"
    using h by (intro split_crlf_line) (auto simp: header_ok_def)
  moreover have "parse_header ?l = h" using h parse_header_line [of "fst h" "snd h"] by (simp add: header_ok_def)
  ultimately show ?case using Cons by (subst read_headers.simps) simp
qed

lemma digits_plain: "c \<in> set (nat_string n) \<Longrightarrow> c \<noteq> CHR 0x0D \<and> c \<noteq> CHR 0x00 \<and> c \<noteq> CHR '' ''"
  using nat_string_digits [of c n] by (auto simp: is_digit_def)

lemma response_read_back:
  assumes "0 \<le> code" and "\<forall>h \<in> set hs. header_ok h"
  shows "read_response (write_response code hs answer @ rest)
    = Some (code,
            [(''Access-Control-Allow-Origin'', ''*''), (''Content-Type'', ''text/plain''),
             (''Content-Length'', to_string (int (length answer)))] @ hs, answer, rest)"
proof -
  let ?hs = "[(''Access-Control-Allow-Origin'', ''*''), (''Content-Type'', ''text/plain''),
             (''Content-Length'', to_string (int (length answer)))] @ hs"
  let ?l = "''HTTP/1.1 '' @ to_string code @ '' OK''"
  have code: "to_string code = nat_string (nat code)" using assms(1) by (simp add: to_string_def)
  have len: "to_string (int (length answer)) = nat_string (length answer)" by (simp add: to_string_def)
  have "split_crlf (?l @ crlf @ concat (map header_line ?hs) @ crlf @ answer @ rest)
      = Some (?l, concat (map header_line ?hs) @ crlf @ answer @ rest)"
    using digits_plain [of _ "nat code"] by (intro split_crlf_line) (auto simp: code)
  moreover have "read_headers (concat (map header_line ?hs) @ crlf @ answer @ rest) = Some (?hs, answer @ rest)"
    using assms(2) digits_plain [of _ "length answer"]
    by (intro read_headers_lines) (auto simp: header_ok_def len)
  moreover have "takeWhile (\<lambda>c. c \<noteq> CHR '' '') (drop 9 ?l) = nat_string (nat code)"
    using digits_plain [of _ "nat code"] by (simp add: code takeWhile_append)
  ultimately show ?thesis
    using assms(1) by (simp add: write_response_def read_response_def strtol10_nat_string len del: split_crlf.simps)
qed

text \<open>
  C19. A client on a kept-alive connection reads back exactly what was answered: the code, the
  three fixed headers followed by those of the operation, and the body; the bytes that follow
  are left for the next response.
\<close>

theorem read_write_response:
  assumes "0 \<le> code" and "\<forall>h \<in> set hs. header_ok h"
  shows "read_response (write_response code hs answer @ rest)
    = Some (code,
            [(''Access-Control-Allow-Origin'', ''*''), (''Content-Type'', ''text/plain''),
             (''Content-Length'', to_string (int (length answer)))] @ hs, answer, rest)"
  by (rule response_read_back [OF assms])

theorem read_write_response_witness:
  "read_response (write_response 201 [(''Location'', ''/api/whep?peerid=1'')] ''v=0'' @ ''HTTP'')
    = Some (201, [(''Access-Control-Allow-Origin'', ''*''), (''Content-Type'', ''text/plain''),
                  (''Content-Length'', ''3''), (''Location'', ''/api/whep?peerid=1'')], ''v=0'', ''HTTP'')"
proof -
  have "to_string (int (length ''v=0'')) = ''3''" by code_simp
  moreover have "\<forall>h \<in> set [(''Location'', ''/api/whep?peerid=1'')]. header_ok h" by (simp add: header_ok_def)
  ultimately show ?thesis
    using read_write_response [of 201 "[(''Location'', ''/api/whep?peerid=1'')]" "''v=0''" "''HTTP''"] by simp
qed

section \<open>Runs of the server\<close>

lemma answer_200_cases:
  assumes "answer_200 sv r = Inr (x, sv')"
  obtains j st where "r = Inr (j, st)" "x = (200, [], j)" "sv' = sv\<lparr>mgr := st\<rparr>"
  using assms by (auto simp: answer_200_def split: prod.splits)

lemma answer_value_cases:
  assumes "answer_value sv r = Inr (x, sv')"
  obtains j where "r = Inr j" "x = (200, [], j)" "sv' = sv"
  using assms by (auto simp: answer_value_def)

lemma run_api_step:
  assumes "run_api E M f req body sv = Inr (r, sv')"
  shows "mgr sv' = mgr sv \<or> api_step (env_config E) (env_webrtc E) (mgr sv) (mgr sv')"
proof (cases f)
  case ApiWhep
  with assms show ?thesis by (auto simp: run_api_def Let_def split: prod.splits intro: api_step.whep)
next
  case ApiLog
  with assms show ?thesis by (auto simp: run_api_def api_log_def Let_def split: if_splits)
qed (use assms in \<open>auto simp: run_api_def Let_def elim!: answer_200_cases answer_value_cases
        intro: api_step.call api_step.hangup api_step.offer api_step.answer api_step.candidate\<close>)

text \<open>
  The server between two callbacks: a request to a registered path, a WebSocket message, or
  something that WebRTC does in the background.
\<close>

inductive server_step :: "('pc, 'sd, 'cand) server_env \<Rightarrow> 'pc server \<Rightarrow> 'pc server \<Rightarrow> bool" for E where
  http: "h \<in> set (api_table (env_base E)) \<Longrightarrow> handle E M h req body sv = Inr (resp, sv') \<Longrightarrow> server_step E sv sv'"
| websocket: "handleData E M req flags data sv = Inr (out, sv') \<Longrightarrow> server_step E sv sv'"
| webrtc: "api_step (env_config E) (env_webrtc E) (mgr sv) st \<Longrightarrow> server_step E sv (sv\<lparr>mgr := st\<rparr>)"

definition init_server :: "'pc server" where
  "init_server = \<lparr>mgr = init_manager, log_level = 5, requests = (\<lambda>_. 0)\<rparr>"

lemma handle_run_api:
  assumes "handle E M h req body sv = Inr (resp, sv')"
  shows "\<exists>r. run_api E M (snd h) req (getInputMessage (env_civet E) req body)
    (sv\<lparr>requests := (requests sv)(fst h := Suc (requests sv (fst h)))\<rparr>) = Inr (r, sv')"
  using assms by (auto simp: handle_def Let_def split: prod.splits)

lemma handleData_run_api:
  assumes "handleData E M req flags data sv = Inr (out, sv')"
  shows "sv' = sv \<or> (\<exists>f body r. run_api E M f req body sv = Inr (r, sv'))"
  using assms by (auto simp: handleData_def Let_def split: if_splits option.splits prod.splits)

lemma server_step_mgr:
  assumes "server_step E sv sv'"
  shows "mgr sv' = mgr sv \<or> api_step (env_config E) (env_webrtc E) (mgr sv) (mgr sv')"
  using assms
proof (cases rule: server_step.cases)
  case http
  from handle_run_api [OF http(2)] show ?thesis by (fastforce dest: run_api_step)
next
  case websocket
  from handleData_run_api [OF websocket] show ?thesis by (auto dest: run_api_step)
qed simp

interpretation srv: step_invariant "server_step E"
  "\<lambda>sv. reachable (env_config E) (env_webrtc E) (mgr sv)"
  for E :: "('pc, 'sd, 'cand) server_env"
proof
  fix sv sv' :: "'pc server"
  assume r: "reachable (env_config E) (env_webrtc E) (mgr sv)" and "server_step E sv sv'"
  from server_step_mgr [OF this(2)] r show "reachable (env_config E) (env_webrtc E) (mgr sv')"
    unfolding reachable_def by (metis rtranclp.rtrancl_into_rtrancl)
qed

definition served :: "('pc, 'sd, 'cand) server_env \<Rightarrow> 'pc server \<Rightarrow> bool" where
  "served E sv \<longleftrightarrow> (server_step E)\<^sup>*\<^sup>* init_server sv"

lemma served_reachable: "served E sv \<Longrightarrow> reachable (env_config E) (env_webrtc E) (mgr sv)"
  unfolding served_def using srv.steps_inv [of E init_server sv]
  by (simp add: init_server_def reachable_def)

text \<open>The requests that concern an existing session, and those that only report.\<close>

definition session_ops :: "api_op list" where
  "session_ops = [ApiHangup, ApiSetAnswer, ApiGetIceCandidate, ApiAddIceCandidate, ApiGetStreamList,
     ApiGetVideoDeviceList, ApiGetAudioDeviceList, ApiGetAudioPlayoutList, ApiGetIceServers, ApiVersion, ApiHelp]"

lemma run_session_op:
  assumes "mgr_ok (mgr sv)" and "f \<in> set session_ops"
  shows "\<exists>j sv'. run_api E M f req body sv = Inr ((200, [], j), sv') \<and> requests sv' = requests sv"
proof -
  let ?W = "env_webrtc E"
  have "\<exists>r. hangUp ?W (mgr sv) k = Inr r" for k using hangUp_defined [OF assms(1), of ?W k] by blast
  then obtain r1 where h: "\<And>k. hangUp ?W (mgr sv) k = Inr (r1 k)" by metis
  have d: "map_of (peer_map (mgr sv)) k = Some a \<Longrightarrow> \<exists>obs. deref (mgr sv) a = Inr obs" for k a
    using wf_peer [OF assms(1)] by (fastforce simp: deref_def)
  have "\<exists>r. setAnswer ?W (mgr sv) k body = Inr r" for k
    using d [of k] by (force simp: setAnswer_def split: option.splits prod.splits)
  then obtain r2 where a: "\<And>k. setAnswer ?W (mgr sv) k body = Inr (r2 k)" by metis
  have "\<exists>r. getIceCandidateList (mgr sv) k = Inr r" for k
    using d [of k] by (force simp: getIceCandidateList_def split: option.splits)
  then obtain r3 where l: "\<And>k. getIceCandidateList (mgr sv) k = Inr (r3 k)" by metis
  have "\<exists>r. apply_candidate ?W (mgr sv) k cand = Inr r" for k cand
    using apply_candidate_defined [OF assms(1), of ?W k cand] by blast
  then obtain g where g: "\<And>k cand. apply_candidate ?W (mgr sv) k cand = Inr (g k cand)" by metis
  have "\<exists>r. addIceCandidate ?W (mgr sv) k body = Inr r" for k
    by (simp add: addIceCandidate_def g split: option.splits prod.splits)
  then obtain r4 where c: "\<And>k. addIceCandidate ?W (mgr sv) k body = Inr (r4 k)" by metis
  show ?thesis
    using assms(2)
    by (auto simp: session_ops_def run_api_def Let_def answer_200_def answer_value_def h a l c split: prod.splits)
qed

text \<open>
  C4. After any run of the server, a request about a session, whatever its parameters and its
  body, is answered with the value that the function of its path gives: with 200 and the value,
  a string as it is and anything else as JSON text, or, when the value is null, with 500 and the
  text of this status. The request is counted.
\<close>

theorem session_requests_answered:
  assumes "served E sv" and "f \<in> set session_ops"
  shows "\<exists>j sv'. run_api E M f req (getInputMessage (env_civet E) req body)
             (sv\<lparr>requests := (requests sv)(path := Suc (requests sv path))\<rparr>) = Inr ((200, [], j), sv') \<and>
           handle E M (path, f) req body sv = Inr (
             (case j of
                JNull \<Rightarrow> write_response 500 [] (status_text (env_civet E) 500)
              | JString s \<Rightarrow> write_response 200 [] s
              | _ \<Rightarrow> write_response 200 [] (json_write (env_civet E) j)), sv') \<and>
           requests sv' = (requests sv)(path := Suc (requests sv path))"
proof -
  let ?sv = "sv\<lparr>requests := (requests sv)(path := Suc (requests sv path))\<rparr>"
  have "mgr_ok (mgr ?sv)" using reachable_ok [OF served_reachable [OF assms(1)]] by simp
  from run_session_op [OF this assms(2)] obtain j sv' where
    r: "run_api E M f req (getInputMessage (env_civet E) req body) ?sv = Inr ((200, [], j), sv')"
      "requests sv' = requests ?sv"
    by blast
  have "fill_out (env_civet E) 200 j = Inr (case j of
        JNull \<Rightarrow> (500, status_text (env_civet E) 500)
      | JString s \<Rightarrow> (200, s)
      | _ \<Rightarrow> (200, json_write (env_civet E) j))"
    by (cases j) (simp_all add: fill_out_def json_defs)
  with r show ?thesis by (intro exI [of _ j] exI [of _ sv']) (cases j; simp add: handle_def)
qed

text \<open>An instance of the parameters: a query is read as an option string, a text starting with a
  quote is a string, \<open>{}\<close> is a message that hangs up, and anything else is an array.\<close>

definition demo_civet :: civet where
  "demo_civet =
     \<lparr>get_param = (\<lambda>q k. Some (getOptionValue q k)),
      json_parse = (\<lambda>s. case s of
          [] \<Rightarrow> (False, JNull)
        | c # cs \<Rightarrow> if c = CHR 0x22 then (True, JString cs)
                    else if c = CHR ''{'' then (True, JObject [(''body'', JString ''v''), (''request'', JString ''/api/hangup'')])
                    else (True, JArray [])),
      json_write = (\<lambda>j. if j = JBool True then ''true'' else if j = JNull then ''null'' else ''?''),
      status_text = (\<lambda>_. ''Internal Server Error''), version_text = ''1''\<rparr>"

definition demo_server_env :: "(sender list, string, string) server_env" where
  "demo_server_env = \<lparr>env_config = demo_config, env_webrtc = demo_webrtc, env_states = demo_states,
                      env_civet = demo_civet, env_base = []\<rparr>"

definition demo_moment :: moment where
  "demo_moment = \<lparr>clock = 7, random_bytes = (\<lambda>i. i), collectors = (\<lambda>_. new_collector)\<rparr>"

definition demo_request :: "string \<Rightarrow> string option \<Rightarrow> request_info" where
  "demo_request path q = \<lparr>request_method = ''POST'', request_uri = path, query_string = q,
                          remote_addr = ''127.0.0.1'', content_length = 1\<rparr>"

definition demo_offer :: "(string \<times> sender list server) res" where
  "demo_offer = handle demo_server_env demo_moment (''/api/createOffer'', ApiCreateOffer)
     (demo_request ''/api/createOffer'' (Some ''peerid=p&url=videocap://1'')) [] init_server"

definition demo_server :: "sender list server" where
  "demo_server = snd (projr demo_offer)"

lemma demo_server_served: "served demo_server_env demo_server"
proof -
  have "\<not> isl demo_offer" by code_simp
  then obtain resp where "demo_offer = Inr (resp, demo_server)"
    unfolding demo_server_def by (metis prod.collapse sum.collapse(2))
  moreover have "(''/api/createOffer'', ApiCreateOffer) \<in> set (api_table (env_base demo_server_env))" by code_simp
  ultimately have "server_step demo_server_env init_server demo_server"
    unfolding demo_offer_def by (rule server_step.http [rotated])
  then show ?thesis by (simp add: served_def)
qed

theorem session_requests_answered_witness:
  "\<exists>j sv'. run_api demo_server_env demo_moment ApiHangup (demo_request ''/api/hangup'' (Some ''peerid=p''))
       (getInputMessage demo_civet (demo_request ''/api/hangup'' (Some ''peerid=p'')) [])
       (demo_server\<lparr>requests := (requests demo_server)(''/api/hangup'' := Suc (requests demo_server ''/api/hangup''))\<rparr>)
         = Inr ((200, [], j), sv') \<and>
     handle demo_server_env demo_moment (''/api/hangup'', ApiHangup)
       (demo_request ''/api/hangup'' (Some ''peerid=p'')) [] demo_server = Inr (
         (case j of
            JNull \<Rightarrow> write_response 500 [] ''Internal Server Error''
          | JString s \<Rightarrow> write_response 200 [] s
          | _ \<Rightarrow> write_response 200 [] (json_write demo_civet j)), sv') \<and>
     requests sv' = (requests demo_server)(''/api/hangup'' := Suc (requests demo_server ''/api/hangup''))"
proof -
  have "env_civet demo_server_env = demo_civet" "status_text demo_civet 500 = ''Internal Server Error''"
    by (simp_all add: demo_server_env_def demo_civet_def)
  moreover have "ApiHangup \<in> set session_ops" by (simp add: session_ops_def)
  ultimately show ?thesis
    using session_requests_answered [OF demo_server_served, of ApiHangup demo_moment "demo_request ''/api/hangup'' (Some ''peerid=p'')" "[]" "''/api/hangup''"]
    by (simp only:)
qed

section \<open>WebSocket and HTTP\<close>

text \<open>The counters are written by \<open>handle\<close> only.\<close>

lemma run_api_requests:
  "run_api E M f req body (sv\<lparr>requests := c\<rparr>) = map_sum id (\<lambda>(r, sv'). (r, sv'\<lparr>requests := c\<rparr>)) (run_api E M f req body sv)"
proof -
  have a: "answer_200 (sv\<lparr>requests := c\<rparr>) r = map_sum id (\<lambda>(r, sv'). (r, sv'\<lparr>requests := c\<rparr>)) (answer_200 sv r)" for r
    by (cases r) (auto simp: answer_200_def split: prod.splits)
  have v: "answer_value (sv\<lparr>requests := c\<rparr>) r = map_sum id (\<lambda>(r, sv'). (r, sv'\<lparr>requests := c\<rparr>)) (answer_value sv r)" for r
    by (cases r) (auto simp: answer_value_def)
  have l: "api_log V q (sv\<lparr>requests := c\<rparr>) = map_sum id (\<lambda>(r, sv'). (r, sv'\<lparr>requests := c\<rparr>)) (api_log V q sv)" for V q
    by (auto simp: api_log_def Let_def rbind_def split: sum.splits)
  show ?thesis
    by (cases f) (simp_all add: run_api_def Let_def a v l, auto simp: rbind_def split: sum.splits prod.splits)
qed

text \<open>
  C34. A WebSocket message that names a registered path does what an HTTP request with the same
  body to that path does: the manager and the log level end in the same state, and the message
  written back is the text of the value that the operation gave.
\<close>

theorem websocket_same_as_http:
  assumes "flags AND 0xf = 1" and "json_parse (env_civet E) data = (True, JObject m)"
    and "map_of m ''request'' = Some (JString path)" and "map_of m ''body'' = Some j"
    and "map_of (api_table (env_base E)) path = Some f"
    and "getInputMessage (env_civet E) req body = j"
    and "handle E M (path, f) req body sv = Inr (resp, sv1)"
  shows "\<exists>out sv2. handleData E M req flags data sv = Inr (Some out, sv2) \<and>
           mgr sv2 = mgr sv1 \<and> log_level sv2 = log_level sv1 \<and>
           (\<exists>code hs v. run_api E M f req j sv = Inr ((code, hs, v), sv2) \<and> out = json_write (env_civet E) v)"
proof -
  from handle_run_api [OF assms(7)] assms(6) obtain r where
    "run_api E M f req j (sv\<lparr>requests := (requests sv)(path := Suc (requests sv path))\<rparr>) = Inr (r, sv1)" by auto
  then obtain sv2 where r: "run_api E M f req j sv = Inr (r, sv2)" "mgr sv2 = mgr sv1" "log_level sv2 = log_level sv1"
    unfolding run_api_requests by (cases "run_api E M f req j sv") auto
  with assms(1-5) show ?thesis
    by (cases r) (auto simp: handleData_def Let_def json_defs)
qed

theorem websocket_same_as_http_witness:
  "\<exists>resp sv1 out sv2. handle demo_server_env demo_moment (''/api/hangup'', ApiHangup)
       (demo_request ''/ws'' (Some ''peerid=p'')) [CHR 0x22, CHR ''v''] demo_server = Inr (resp, sv1) \<and>
     handleData demo_server_env demo_moment (demo_request ''/ws'' (Some ''peerid=p'')) 0x81 ''{}'' demo_server = Inr (Some out, sv2) \<and>
     mgr sv2 = mgr sv1 \<and> log_level sv2 = log_level sv1"
proof -
  let ?r = "handle demo_server_env demo_moment (''/api/hangup'', ApiHangup)
       (demo_request ''/ws'' (Some ''peerid=p'')) [CHR 0x22, CHR ''v''] demo_server"
  have "\<not> isl ?r" by code_simp
  then obtain resp sv1 where r: "?r = Inr (resp, sv1)" by (metis prod.collapse sum.collapse(2))
  have "\<exists>out sv2. handleData demo_server_env demo_moment (demo_request ''/ws'' (Some ''peerid=p'')) 0x81 ''{}'' demo_server
        = Inr (Some out, sv2) \<and> mgr sv2 = mgr sv1 \<and> log_level sv2 = log_level sv1 \<and>
        (\<exists>code hs v. run_api demo_server_env demo_moment ApiHangup (demo_request ''/ws'' (Some ''peerid=p'')) (JString ''v'')
           demo_server = Inr ((code, hs, v), sv2) \<and> out = json_write (env_civet demo_server_env) v)"
  proof (rule websocket_same_as_http [OF _ _ _ _ _ _ r])
    show "(0x81 :: int) AND 0xf = 1" by code_simp
    show "json_parse (env_civet demo_server_env) ''{}''
        = (True, JObject [(''body'', JString ''v''), (''request'', JString ''/api/hangup'')])" by code_simp
    show "map_of (api_table (env_base demo_server_env)) ''/api/hangup'' = Some ApiHangup" by code_simp
    show "getInputMessage (env_civet demo_server_env) (demo_request ''/ws'' (Some ''peerid=p'')) [CHR 0x22, CHR ''v''] = JString ''v''"
      by code_simp
  qed simp_all
  with r show ?thesis by blast
qed

text \<open>
  A text message that is JSON but not an object, such as \<open>[]\<close>, throws in \<open>handleData\<close>, and a
  WHEP request without a query string appends a null pointer to the URL.
\<close>

theorem websocket_non_object_throws:
  assumes "flags AND 0xf = 1" and "json_parse (env_civet E) data = (True, j)"
    and "j \<noteq> JNull" and "\<forall>m. j \<noteq> JObject m"
  shows "handleData E M req flags data sv = Inl JsonLogicError"
  using assms by (cases j) (simp_all add: handleData_def Let_def json_defs)

theorem websocket_non_object_throws_witness:
  "handleData demo_server_env demo_moment (demo_request ''/ws'' None) 0x81 ''[]'' init_server = Inl JsonLogicError"
proof (rule websocket_non_object_throws)
  show "(0x81 :: int) AND 0xf = 1" by code_simp
  show "json_parse (env_civet demo_server_env) ''[]'' = (True, JArray [])" by code_simp
qed simp_all

theorem whep_without_query_crashes:
  assumes "query_string req = None"
  shows "handle E M (path, ApiWhep) req body sv = Inl NullDeref"
  using assms by (simp add: handle_def run_api_def Let_def nonnull_def)

theorem whep_without_query_crashes_witness:
  "handle demo_server_env demo_moment (''/api/whep'', ApiWhep) (demo_request ''/api/whep'' None) [] init_server = Inl NullDeref"
  by (rule whep_without_query_crashes) (simp add: demo_request_def)

section \<open>The headers of a WHEP answer\<close>

definition plain :: "string \<Rightarrow> bool" where
  "plain s \<longleftrightarrow> CHR 0x0D \<notin> set s \<and> CHR 0x00 \<notin> set s"

lemma charset_plain: "list_all (\<lambda>c. c \<noteq> CHR 0x0D \<and> c \<noteq> CHR 0x00) charset"
  by code_simp

lemma random_string_plain: "plain (random_string rand n)"
  using random_string_charset [of rand n] charset_plain by (auto simp: plain_def list_all_iff)

lemma whep_headers:
  "fold (\<lambda>(k, v). smap_assign k v)
     [(''Location'', u), (''Access-Control-Expose-Headers'', ''Location''), (''Content-Type'', ''application/sdp'')] []
   = [(''Access-Control-Expose-Headers'', ''Location''), (''Content-Type'', ''application/sdp''), (''Location'', u)]"
  by code_simp

lemma whep_answer_headers:
  assumes "run_api E M ApiWhep req body sv = Inr ((code, hs, j), sv')" and "query_string req = Some q"
    and "request_method req \<notin> {''DELETE'', ''PATCH''}" and "plain (request_uri req)" and "plain q"
  shows "(\<exists>s. j = JString s) \<and> (code = 501 \<and> hs = [] \<or> code = 201 \<and> (\<forall>h \<in> set hs. header_ok h) \<and>
    map snd (filter (\<lambda>h. fst h = ''Content-Type'') hs) = [''application/sdp''])"
proof -
  let ?url = "request_uri req @ ''?'' @ q"
  from assms(1,2) obtain p v a opts n st' where
    w: "whep (env_config E) (env_webrtc E) (mgr sv) (request_method req) ?url p v a opts n body
      (random_bytes M) (clock M) = Inr ((code, hs, j), st')"
    by (auto simp: run_api_def Let_def nonnull_def split: prod.splits)
  define u where "u = (if p = [] then ?url @ ''&'' @ ''peerid='' @ random_string (random_bytes M) 32 else ?url)"
  have u: "plain u" using assms(4,5) random_string_plain by (auto simp: u_def plain_def)
  from w assms(3) have "(\<exists>s. j = JString s) \<and> (code = 501 \<and> hs = [] \<or> code = 201 \<and>
      hs = [(''Access-Control-Expose-Headers'', ''Location''), (''Content-Type'', ''application/sdp''), (''Location'', u)])"
    by (auto simp: whep_def Let_def whep_headers u_def simp del: fold_simps split: if_splits option.splits)
  then show ?thesis using u by (auto simp: header_ok_def plain_def)
qed

text \<open>
  A successful WHEP answer declares its type twice: \<open>text/plain\<close>, which every answer carries,
  and \<open>application/sdp\<close>, which the operation adds.
\<close>

theorem whep_answer_two_content_types:
  assumes "handle E M (path, ApiWhep) req body sv = Inr (resp, sv')" and "query_string req = Some q"
    and "request_method req \<notin> {''DELETE'', ''PATCH''}" and "plain (request_uri req)" and "plain q"
    and "read_response resp = Some (201, hs, answer, [])"
  shows "map snd (filter (\<lambda>h. fst h = ''Content-Type'') hs) = [''text/plain'', ''application/sdp'']"
proof -
  let ?sv = "sv\<lparr>requests := (requests sv)(path := Suc (requests sv path))\<rparr>"
  from assms(1) obtain code hs0 j code' msg where
    r: "run_api E M ApiWhep req (getInputMessage (env_civet E) req body) ?sv = Inr ((code, hs0, j), sv')" and
    f: "fill_out (env_civet E) code j = Inr (code', msg)" and resp: "resp = write_response code' hs0 msg"
    by (auto simp: handle_def Let_def)
  note h = whep_answer_headers [OF r assms(2-5)]
  then have "code' = code" using f by (auto simp: fill_out_def json_defs)
  moreover have "\<forall>h \<in> set hs0. header_ok h" "0 \<le> code" using h by auto
  ultimately have "code = 201" "hs = [(''Access-Control-Allow-Origin'', ''*''), (''Content-Type'', ''text/plain''),
      (''Content-Length'', to_string (int (length msg)))] @ hs0"
    using response_read_back [of code hs0 msg "[]"] assms(6) resp by auto
  with h show ?thesis by simp
qed

definition demo_whep_post :: "(string \<times> sender list server) res" where
  "demo_whep_post = handle demo_server_env demo_moment (''/api/whep'', ApiWhep)
     (demo_request ''/api/whep'' (Some ''url=videocap://1'')) [CHR 0x22, CHR ''v''] init_server"

theorem whep_answer_two_content_types_witness:
  "\<exists>resp sv' hs answer. demo_whep_post = Inr (resp, sv') \<and> read_response resp = Some (201, hs, answer, []) \<and>
     map snd (filter (\<lambda>h. fst h = ''Content-Type'') hs) = [''text/plain'', ''application/sdp'']"
proof -
  have "case demo_whep_post of Inl _ \<Rightarrow> False | Inr (resp, _) \<Rightarrow>
      (case read_response resp of Some (code, hs, answer, rest) \<Rightarrow> code = 201 \<and> rest = [] | None \<Rightarrow> False)"
    by code_simp
  then obtain resp sv' hs answer where r: "demo_whep_post = Inr (resp, sv')" "read_response resp = Some (201, hs, answer, [])"
    by (auto split: sum.splits option.splits)
  have "map snd (filter (\<lambda>h. fst h = ''Content-Type'') hs) = [''text/plain'', ''application/sdp'']"
    by (rule whep_answer_two_content_types [OF r(1) [unfolded demo_whep_post_def] _ _ _ _ r(2), where q = "''url=videocap://1''"])
      (simp_all add: demo_request_def plain_def)
  with r show ?thesis by (intro exI conjI)
qed

end
