(* ===== verification/Video_Decoder.thy ===== *)
theory Video_Decoder
  imports Video_Scaler
begin

text \<open>
  The decoding pipeline of \<open>inc/VideoDecoder.h\<close>: the queue of frames between the capture
  thread and the decoder thread, the creation of decoders when the format changes, the pacing of
  decoded images in \<open>Decoded\<close>, and the initial frames taken from the SDP. The decoder, its
  factory, Base64 and the decoding of \<open>sprop\<close> values belong to WebRTC and are the fields
  of \<open>codec_env\<close>; \<open>marker\<close> is \<open>H26X_marker\<close> of live555helper.
\<close>

section \<open>Frames and decoders\<close>

type_synonym bytes = "8 word list"

datatype frame_type = KeyFrame | DeltaFrame

text \<open>The three constructors of \<open>Frame\<close>: the empty one, encoded content, and a format.\<close>

datatype frame = NoFrame | Encoded bytes "64 word" frame_type | Format string int int

record encoded_image =
  e_data :: bytes
  e_type :: frame_type
  e_ntp_ms :: "64 word"
  e_rtp :: "32 word"

datatype codec_type = CodecGeneric | CodecH264 | CodecH265 | CodecVP9

record 'dec codec_env =
  factory_create :: "string \<Rightarrow> 'dec option" \<comment> \<open>\<open>m_factory->Create(SdpVideoFormat)\<close>\<close>
  configure :: "'dec \<Rightarrow> codec_type \<Rightarrow> int \<Rightarrow> int \<Rightarrow> 'dec"
  decode :: "'dec \<Rightarrow> encoded_image \<Rightarrow> 'dec \<times> int"
  base64_decode :: "string \<Rightarrow> bytes option"
  decode_sprop :: "string \<Rightarrow> (bytes \<times> bytes) option" \<comment> \<open>SPS and PPS of \<open>DecodeSprop\<close>\<close>
  marker :: bytes

record 'dec decoder =
  m_decoder :: "'dec option"
  dec_format :: string
  dec_width :: int
  dec_height :: int

definition init_decoder :: "'dec decoder" where
  "init_decoder = \<lparr>m_decoder = None, dec_format = [], dec_width = 0, dec_height = 0\<rparr>"

definition createDecoder ::
  "'dec codec_env \<Rightarrow> 'dec option \<Rightarrow> string \<Rightarrow> int \<Rightarrow> int \<Rightarrow> 'dec option" where
  "createDecoder E old format w h =
     (case (if format = ''H264'' then (factory_create E ''H264'', CodecH264)
            else if format = ''H265'' then (factory_create E format, CodecH265)
            else if format = ''VP9'' then (factory_create E ''VP9'', CodecVP9)
            else (old, CodecGeneric)) of
        (d, codec) \<Rightarrow> map_option (\<lambda>dec. configure E dec codec w h) d)"

text \<open>The part of \<open>DecoderThread\<close> for a frame with a format.\<close>

definition apply_format :: "'dec codec_env \<Rightarrow> string \<Rightarrow> int \<Rightarrow> int \<Rightarrow> 'dec decoder \<Rightarrow> 'dec decoder" where
  "apply_format E format w h d =
     (let d1 = (if m_decoder d \<noteq> None \<and> (dec_format d \<noteq> format \<or> dec_width d \<noteq> w \<or> dec_height d \<noteq> h)
                then d\<lparr>m_decoder := None\<rparr> else d)
      in if m_decoder d1 = None
         then d1\<lparr>dec_format := format, dec_width := w, dec_height := h,
                 m_decoder := createDecoder E (m_decoder d1) format w h\<rparr>
         else d1)"

text \<open>The part for a frame with content; \<open>WEBRTC_VIDEO_CODEC_OK\<close> is 0.\<close>

definition decode_content :: "'dec codec_env \<Rightarrow> bytes \<Rightarrow> 64 word \<Rightarrow> frame_type \<Rightarrow> 'dec decoder \<Rightarrow> 'dec decoder" where
  "decode_content E content ts ty d =
     (if content = [] then d
      else case m_decoder d of
             None \<Rightarrow> d
           | Some dec \<Rightarrow>
               (case decode E dec \<lparr>e_data = content, e_type = ty, e_ntp_ms = ts, e_rtp = ucast ts\<rparr> of
                  (dec', result) \<Rightarrow> d\<lparr>m_decoder := if result \<noteq> 0 then None else Some dec'\<rparr>))"

definition handle_frame :: "'dec codec_env \<Rightarrow> frame \<Rightarrow> 'dec decoder \<Rightarrow> 'dec decoder" where
  "handle_frame E f d =
     (case f of
        NoFrame \<Rightarrow> d
      | Format format w h \<Rightarrow> if format \<noteq> [] then apply_format E format w h d else d
      | Encoded content ts ty \<Rightarrow> decode_content E content ts ty d)"

section \<open>The queue\<close>

text \<open>\<open>std::queue<Frame>\<close> with \<open>push\<close>, and \<open>front\<close> with \<open>pop\<close>.\<close>

definition queue_push :: "frame \<Rightarrow> frame list \<Rightarrow> frame list" where
  "queue_push f q = q @ [f]"

definition queue_pop :: "frame list \<Rightarrow> (frame \<times> frame list) option" where
  "queue_pop q = (case q of [] \<Rightarrow> None | f # q' \<Rightarrow> Some (f, q'))"

text \<open>What the two threads rely on: the queue is first in, first out.\<close>

locale fifo =
  fixes push :: "'a \<Rightarrow> 'q \<Rightarrow> 'q" and pop :: "'q \<Rightarrow> ('a \<times> 'q) option" and elems :: "'q \<Rightarrow> 'a list"
  assumes elems_push: "elems (push x q) = elems q @ [x]"
    and pop_None: "pop q = None \<longleftrightarrow> elems q = []"
    and pop_Some: "pop q = Some (x, q') \<Longrightarrow> elems q = x # elems q'"
begin

text \<open>Taken and waiting elements are the ones pushed, in order.\<close>

lemma history_push: "taken @ elems q = pushed \<Longrightarrow> taken @ elems (push x q) = pushed @ [x]"
  by (simp add: elems_push flip: append_assoc)

lemma history_pop: "taken @ elems q = pushed \<Longrightarrow> pop q = Some (x, q') \<Longrightarrow> (taken @ [x]) @ elems q' = pushed"
  by (auto dest: pop_Some)

lemma pushed_not_blocked: "pop (push x q) \<noteq> None"
  by (simp add: pop_None elems_push)

end

interpretation fq: fifo queue_push queue_pop id
  by unfold_locales (auto simp: queue_push_def queue_pop_def split: list.splits)

section \<open>The threads\<close>

text \<open>
  The decoder thread is at the test of \<open>m_stop\<close>, waiting in \<open>getFrame\<close>, or has left the
  loop. \<open>posted\<close> and \<open>handled\<close> record the frames that were pushed and taken;
  \<open>stop_pushed\<close> that \<open>Stop\<close> has pushed its empty frame.
\<close>

datatype thread_pc = Testing | Waiting | Exited

record 'dec pipeline =
  dstate :: "'dec decoder"
  m_queue :: "frame list"
  m_stop :: bool
  at :: thread_pc
  stop_pushed :: bool
  posted :: "frame list"
  handled :: "frame list"

definition init_pipeline :: "'dec pipeline" where
  "init_pipeline = \<lparr>dstate = init_decoder, m_queue = [], m_stop = False, at = Testing,
                    stop_pushed = False, posted = [], handled = []\<rparr>"

definition PostFrame :: "frame \<Rightarrow> 'dec pipeline \<Rightarrow> 'dec pipeline" where
  "PostFrame f s = s\<lparr>m_queue := queue_push f (m_queue s), posted := posted s @ [f]\<rparr>"

text \<open>The two halves of \<open>Stop\<close> before it joins the thread.\<close>

definition stop_flag :: "'dec pipeline \<Rightarrow> 'dec pipeline" where
  "stop_flag s = s\<lparr>m_stop := True\<rparr>"

definition stop_push :: "'dec pipeline \<Rightarrow> 'dec pipeline" where
  "stop_push s = (PostFrame NoFrame s)\<lparr>stop_pushed := True\<rparr>"

definition getFrame :: "'dec pipeline \<Rightarrow> (frame \<times> 'dec pipeline) option" where
  "getFrame s = map_option (\<lambda>(f, q). (f, s\<lparr>m_queue := q, handled := handled s @ [f]\<rparr>)) (queue_pop (m_queue s))"

text \<open>A step of \<open>DecoderThread\<close>; \<open>None\<close> when it has ended or waits on an empty queue.\<close>

definition DecoderThread :: "'dec codec_env \<Rightarrow> 'dec pipeline \<Rightarrow> 'dec pipeline option" where
  "DecoderThread E s =
     (case at s of
        Testing \<Rightarrow> Some (s\<lparr>at := if m_stop s then Exited else Waiting\<rparr>)
      | Waiting \<Rightarrow> map_option (\<lambda>(f, s'). s'\<lparr>dstate := handle_frame E f (dstate s'), at := Testing\<rparr>) (getFrame s)
      | Exited \<Rightarrow> None)"

inductive pipeline_step :: "'dec codec_env \<Rightarrow> 'dec pipeline \<Rightarrow> 'dec pipeline \<Rightarrow> bool" for E where
  post: "pipeline_step E s (PostFrame f s)"
| flag: "pipeline_step E s (stop_flag s)"
| push: "m_stop s \<Longrightarrow> pipeline_step E s (stop_push s)"
| thread: "DecoderThread E s = Some s' \<Longrightarrow> pipeline_step E s s'"

inductive_cases pipeline_stepE: "pipeline_step E s s'"

section \<open>The pipeline is sequential decoding\<close>

definition pipeline_ok :: "'dec codec_env \<Rightarrow> 'dec pipeline \<Rightarrow> bool" where
  "pipeline_ok E s \<longleftrightarrow>
     handled s @ m_queue s = posted s \<and>
     dstate s = fold (handle_frame E) (handled s) init_decoder \<and>
     (stop_pushed s \<longrightarrow> m_stop s \<and> (at s = Waiting \<longrightarrow> queue_pop (m_queue s) \<noteq> None))"

lemma queue_pop_push: "queue_pop (queue_push f q) \<noteq> None"
  by (rule fq.pushed_not_blocked)

lemma PostFrame_ok: "pipeline_ok E s \<Longrightarrow> pipeline_ok E (PostFrame f s)"
  using fq.history_push [of "handled s" "m_queue s" "posted s" f] queue_pop_push [of f "m_queue s"]
  by (simp add: pipeline_ok_def PostFrame_def)

lemma getFrame_ok:
  assumes "pipeline_ok E s" and "getFrame s = Some (f, s')"
  shows "handled s' @ m_queue s' = posted s'" and "handled s' = handled s @ [f]" and "posted s' = posted s"
    and "m_stop s' = m_stop s" and "stop_pushed s' = stop_pushed s" and "dstate s' = dstate s"
  using assms fq.history_pop [of "handled s" "m_queue s" "posted s" f]
  by (auto simp: getFrame_def pipeline_ok_def)

lemma DecoderThread_ok:
  assumes "pipeline_ok E s" and "DecoderThread E s = Some s'"
  shows "pipeline_ok E s'"
proof (cases "at s")
  case Testing
  with assms show ?thesis by (auto simp: DecoderThread_def pipeline_ok_def)
next
  case Waiting
  with assms(2) obtain f t where g: "getFrame s = Some (f, t)"
    and s': "s' = t\<lparr>dstate := handle_frame E f (dstate t), at := Testing\<rparr>"
    by (auto simp: DecoderThread_def)
  from getFrame_ok [OF assms(1) g] assms(1) show ?thesis by (auto simp: s' pipeline_ok_def)
next
  case Exited
  with assms show ?thesis by (simp add: DecoderThread_def)
qed

lemma stop_flag_ok: "pipeline_ok E s \<Longrightarrow> pipeline_ok E (stop_flag s)"
  by (simp add: stop_flag_def pipeline_ok_def)

lemma stop_push_ok: "pipeline_ok E s \<Longrightarrow> m_stop s \<Longrightarrow> pipeline_ok E (stop_push s)"
  using PostFrame_ok [of E s NoFrame] queue_pop_push [of NoFrame "m_queue s"]
  by (simp add: stop_push_def pipeline_ok_def PostFrame_def)

interpretation pipe: step_invariant "pipeline_step E" "pipeline_ok E :: 'dec pipeline \<Rightarrow> bool"
  for E :: "'dec codec_env"
  by unfold_locales
    (auto elim!: pipeline_stepE intro: PostFrame_ok stop_flag_ok stop_push_ok DecoderThread_ok)

lemma init_pipeline_ok: "pipeline_ok E init_pipeline"
  by (simp add: pipeline_ok_def init_pipeline_def)

definition running :: "'dec codec_env \<Rightarrow> 'dec pipeline \<Rightarrow> bool" where
  "running E s \<longleftrightarrow> (pipeline_step E)\<^sup>*\<^sup>* init_pipeline s"

lemma running_ok: "running E s \<Longrightarrow> pipeline_ok E s"
  unfolding running_def using pipe.steps_inv init_pipeline_ok by blast

text \<open>
  C11. However the capture thread, \<open>Stop\<close> and the decoder thread interleave, the decoder
  thread has taken a prefix of the posted frames, in the order in which they were posted, and
  its decoder is in the state that decoding this prefix sequentially gives. No frame is lost,
  duplicated or reordered while the thread runs.
\<close>

theorem pipeline_decodes_in_order:
  assumes "running E s"
  shows "posted s = handled s @ m_queue s \<and> dstate s = fold (handle_frame E) (handled s) init_decoder"
  using running_ok [OF assms] by (simp add: pipeline_ok_def)

text \<open>A decoder that counts the bytes of its frames and fails on a frame of one byte.\<close>

definition demo_codec :: "nat codec_env" where
  "demo_codec = \<lparr>factory_create = (\<lambda>_. Some 0), configure = (\<lambda>n _ w _. n + nat w),
     decode = (\<lambda>n img. (n + length (e_data img), if length (e_data img) = 1 then -1 else 0)),
     base64_decode = (\<lambda>s. Some (map (\<lambda>c. of_nat (of_char c)) s)),
     decode_sprop = (\<lambda>s. if s = [] then None else Some ([1], [2])), marker = [0, 0, 0, 1]\<rparr>"

fun posts :: "frame list \<Rightarrow> 'dec pipeline \<Rightarrow> 'dec pipeline" where
  "posts [] s = s"
| "posts (f # fs) s = posts fs (PostFrame f s)"

fun thread_runs :: "'dec codec_env \<Rightarrow> nat \<Rightarrow> 'dec pipeline \<Rightarrow> 'dec pipeline" where
  "thread_runs E 0 s = s"
| "thread_runs E (Suc n) s = (case DecoderThread E s of None \<Rightarrow> s | Some s' \<Rightarrow> thread_runs E n s')"

lemma posts_steps: "(pipeline_step E)\<^sup>*\<^sup>* s (posts fs s)"
proof (induction fs arbitrary: s)
  case (Cons f fs)
  have "pipeline_step E s (PostFrame f s)" by (rule pipeline_step.post)
  then show ?case using Cons [of "PostFrame f s"] by (simp add: converse_rtranclp_into_rtranclp)
qed simp

lemma thread_runs_steps: "(pipeline_step E)\<^sup>*\<^sup>* s (thread_runs E n s)"
proof (induction n arbitrary: s)
  case (Suc n)
  show ?case
  proof (cases "DecoderThread E s")
    case (Some s')
    then have "pipeline_step E s s'" by (rule pipeline_step.thread)
    with Suc [of s'] Some show ?thesis by (simp add: converse_rtranclp_into_rtranclp)
  qed simp
qed simp

definition demo_pipeline :: "nat pipeline" where
  "demo_pipeline = thread_runs demo_codec 4
     (posts [Format ''H264'' 640 480, Encoded [7, 7] 40 KeyFrame, Encoded [9] 80 DeltaFrame] init_pipeline)"

lemma demo_pipeline_running: "running demo_codec demo_pipeline"
  unfolding running_def demo_pipeline_def
  by (rule rtranclp_trans [OF posts_steps thread_runs_steps])

theorem pipeline_decodes_in_order_witness:
  "posted demo_pipeline = handled demo_pipeline @ m_queue demo_pipeline \<and>
   dstate demo_pipeline = fold (handle_frame demo_codec) (handled demo_pipeline) init_decoder \<and>
   length (handled demo_pipeline) = 2 \<and> length (m_queue demo_pipeline) = 1"
proof -
  have "length (handled demo_pipeline) = 2" "length (m_queue demo_pipeline) = 1" by code_simp+
  with pipeline_decodes_in_order [OF demo_pipeline_running] show ?thesis by simp
qed

section \<open>Stopping\<close>

definition rank :: "'dec pipeline \<Rightarrow> nat" where
  "rank s = (case at s of Exited \<Rightarrow> 0 | Testing \<Rightarrow> 1 | Waiting \<Rightarrow> 2)"

lemma DecoderThread_rank:
  "m_stop s \<Longrightarrow> DecoderThread E s = Some s' \<Longrightarrow> rank s' < rank s \<and> m_stop s'"
  by (auto simp: DecoderThread_def rank_def getFrame_def split: thread_pc.splits)

text \<open>
  C29. \<open>Stop\<close> ends: once it has set the flag and pushed its empty frame, the decoder thread
  is never blocked until it leaves its loop, it leaves it after at most two of its own steps,
  and nothing that the other threads do can delay it, so that the join returns.
\<close>

theorem stop_ends_thread:
  assumes "running E s" and "stop_pushed s" and "at s \<noteq> Exited"
  shows "(\<exists>s'. DecoderThread E s = Some s') \<and>
         (\<forall>s'. DecoderThread E s = Some s' \<longrightarrow> rank s' < rank s \<and> stop_pushed s') \<and>
         (\<forall>f. rank (PostFrame f s) = rank s) \<and> rank s \<le> 2 \<and> at (thread_runs E 2 s) = Exited"
proof -
  note ok = running_ok [OF assms(1)]
  have stop: "m_stop s" using ok assms(2) by (simp add: pipeline_ok_def)
  have enabled: "\<exists>t'. DecoderThread E t = Some t'" if "pipeline_ok E t" "stop_pushed t" "at t \<noteq> Exited" for t
    using that by (cases "at t") (auto simp: DecoderThread_def getFrame_def pipeline_ok_def)
  have keeps: "stop_pushed t'" if "DecoderThread E t = Some t'" "stop_pushed t" for t t'
    using that by (auto simp: DecoderThread_def getFrame_def split: thread_pc.splits)
  obtain s1 where s1: "DecoderThread E s = Some s1" using enabled ok assms(2,3) by blast
  have r1: "rank s1 < rank s" "m_stop s1" using DecoderThread_rank [OF stop s1] by simp_all
  have "at (thread_runs E 2 s) = Exited"
  proof (cases "at s1 = Exited")
    case True
    then show ?thesis using s1 by (simp add: numeral_2_eq_2 DecoderThread_def [of E s1])
  next
    case False
    then obtain s2 where s2: "DecoderThread E s1 = Some s2"
      using enabled DecoderThread_ok [OF ok s1] keeps [OF s1 assms(2)] by blast
    have "rank s2 < rank s1" using DecoderThread_rank [OF r1(2) s2] by simp
    with r1(1) have "rank s2 = 0" by (simp add: rank_def split: thread_pc.splits)
    then show ?thesis using s1 s2 by (simp add: numeral_2_eq_2 rank_def split: thread_pc.splits)
  qed
  moreover have "rank (PostFrame f s) = rank s" for f by (simp add: PostFrame_def rank_def)
  moreover have "rank s \<le> 2" by (simp add: rank_def split: thread_pc.splits)
  ultimately show ?thesis using s1 r1 keeps assms(2) by auto
qed

theorem stop_ends_thread_witness:
  "at (thread_runs demo_codec 2 (stop_push (stop_flag demo_pipeline))) = Exited"
proof -
  let ?s = "stop_push (stop_flag demo_pipeline)"
  have "pipeline_step demo_codec demo_pipeline (stop_flag demo_pipeline)" by (rule pipeline_step.flag)
  moreover have "pipeline_step demo_codec (stop_flag demo_pipeline) ?s"
    by (rule pipeline_step.push) (simp add: stop_flag_def)
  ultimately have "running demo_codec ?s"
    using demo_pipeline_running unfolding running_def by (meson rtranclp.rtrancl_into_rtrancl)
  moreover have "stop_pushed ?s" "at ?s \<noteq> Exited" by code_simp+
  ultimately show ?thesis using stop_ends_thread by blast
qed

section \<open>The decoder fits the format\<close>

text \<open>A decoder that was created and configured for a format, and has decoded frames since.\<close>

inductive made :: "'dec codec_env \<Rightarrow> string \<Rightarrow> int \<Rightarrow> int \<Rightarrow> 'dec \<Rightarrow> bool" for E format w h where
  created: "createDecoder E None format w h = Some dec \<Longrightarrow> made E format w h dec"
| decoded: "made E format w h dec \<Longrightarrow> decode E dec img = (dec', 0) \<Longrightarrow> made E format w h dec'"

fun last_format :: "frame list \<Rightarrow> (string \<times> int \<times> int) option" where
  "last_format [] = None"
| "last_format (f # fs) =
     (case last_format fs of
        Some x \<Rightarrow> Some x
      | None \<Rightarrow> (case f of Format format w h \<Rightarrow> if format \<noteq> [] then Some (format, w, h) else None | _ \<Rightarrow> None))"

lemma last_format_snoc:
  "last_format (fs @ [f]) =
     (case f of Format format w h \<Rightarrow> if format \<noteq> [] then Some (format, w, h) else last_format fs
      | _ \<Rightarrow> last_format fs)"
  by (induction fs) (auto split: frame.splits option.splits)

definition decoder_fits :: "'dec codec_env \<Rightarrow> (string \<times> int \<times> int) option \<Rightarrow> 'dec decoder \<Rightarrow> bool" where
  "decoder_fits E fmt d \<longleftrightarrow> (\<forall>dec. m_decoder d = Some dec \<longrightarrow>
     fmt = Some (dec_format d, dec_width d, dec_height d) \<and> made E (dec_format d) (dec_width d) (dec_height d) dec)"

lemma apply_format_fits:
  assumes "decoder_fits E fmt d"
  shows "decoder_fits E (Some (format, w, h)) (apply_format E format w h d)"
proof (cases "m_decoder d \<noteq> None \<and> dec_format d = format \<and> dec_width d = w \<and> dec_height d = h")
  case True
  then have "apply_format E format w h d = d" by (auto simp: apply_format_def)
  with assms True show ?thesis by (auto simp: decoder_fits_def)
next
  case False
  then have "apply_format E format w h d
      = d\<lparr>dec_format := format, dec_width := w, dec_height := h, m_decoder := createDecoder E None format w h\<rparr>"
    by (auto simp: apply_format_def)
  then show ?thesis by (simp add: decoder_fits_def made.created)
qed

lemma decode_content_fits: "decoder_fits E fmt d \<Longrightarrow> decoder_fits E fmt (decode_content E content ts ty d)"
  by (auto simp: decode_content_def decoder_fits_def split: option.splits prod.splits if_splits
      intro: made.decoded)

lemma fold_handle_fits: "decoder_fits E (last_format fs) (fold (handle_frame E) fs init_decoder)"
proof (induction fs rule: rev_induct)
  case Nil
  show ?case by (simp add: decoder_fits_def init_decoder_def)
next
  case (snoc f fs)
  then show ?case
    by (auto simp: handle_frame_def last_format_snoc split: frame.splits
        intro: apply_format_fits decode_content_fits)
qed

text \<open>
  Whenever there is a decoder, it was created and configured for the format and the
  resolution that were announced last among the frames taken so far, and has since decoded
  without error: no frame is decoded with the decoder of an older format.
\<close>

theorem decoder_fits_last_format:
  assumes "running E s" and "m_decoder (dstate s) = Some dec"
  shows "\<exists>format w h. last_format (handled s) = Some (format, w, h) \<and> made E format w h dec"
  using fold_handle_fits [of E "handled s"] running_ok [OF assms(1)] assms(2)
  by (auto simp: decoder_fits_def pipeline_ok_def)

theorem decoder_fits_last_format_witness:
  "\<exists>format w h. last_format (handled demo_pipeline) = Some (format, w, h) \<and> made demo_codec format w h 642"
proof (rule decoder_fits_last_format [OF demo_pipeline_running])
  show "m_decoder (dstate demo_pipeline) = Some 642" by code_simp
qed

text \<open>
  A frame that fails to decode costs the decoder: every following frame is dropped until a
  format is announced again, even the same one, and then a new decoder is created.
\<close>

theorem decode_error_drops_until_format:
  assumes "m_decoder d = Some dec" and "content \<noteq> []"
    and "decode E dec \<lparr>e_data = content, e_type = ty, e_ntp_ms = ts, e_rtp = ucast ts\<rparr> = (dec', result)"
    and "result \<noteq> 0" and "last_format fs = None" and "format \<noteq> []"
  shows "m_decoder (fold (handle_frame E) (Encoded content ts ty # fs) d) = None \<and>
         m_decoder (fold (handle_frame E) (Encoded content ts ty # fs @ [Format format w h]) d)
           = createDecoder E None format w h"
proof -
  have "m_decoder (fold (handle_frame E) fs d') = None" if "m_decoder d' = None" for d' :: "'a decoder"
    using that assms(5)
  proof (induction fs arbitrary: d')
    case (Cons f fs)
    then have "handle_frame E f d' = d'"
      by (auto simp: handle_frame_def decode_content_def split: frame.splits option.splits if_splits)
    with Cons show ?case by (auto split: option.splits)
  qed simp
  moreover have "m_decoder (handle_frame E (Encoded content ts ty) d) = None"
    using assms(1-4) by (simp add: handle_frame_def decode_content_def)
  ultimately show ?thesis using assms(6) by (simp add: handle_frame_def apply_format_def)
qed

theorem decode_error_drops_until_format_witness:
  "m_decoder (fold (handle_frame demo_codec) (Encoded [9] 80 DeltaFrame # [Encoded [7, 7] 120 DeltaFrame])
      (dstate demo_pipeline)) = None \<and>
   m_decoder (fold (handle_frame demo_codec)
      (Encoded [9] 80 DeltaFrame # [Encoded [7, 7] 120 DeltaFrame] @ [Format ''H264'' 640 480]) (dstate demo_pipeline))
     = createDecoder demo_codec None ''H264'' 640 480"
proof (rule decode_error_drops_until_format)
  show "m_decoder (dstate demo_pipeline) = Some 642" by code_simp
  show "decode demo_codec 642 \<lparr>e_data = [9], e_type = DeltaFrame, e_ntp_ms = 80, e_rtp = ucast (80 :: 64 word)\<rparr> = (643, -1)"
    by (simp add: demo_codec_def)
qed simp_all

section \<open>Decoded images\<close>

text \<open>\<open>int64_t\<close> arithmetic, and division that truncates.\<close>

definition cint64 :: "int \<Rightarrow> int res" where
  "cint64 x = (if - (2 ^ 63) \<le> x \<and> x < 2 ^ 63 then Inr x else Inl SignedOverflow)"

definition to_ms :: "int \<Rightarrow> int" where
  "to_ms us = sgn us * (\<bar>us\<bar> div 1000)"

record pacer =
  m_scaler :: scaler
  m_wait :: bool
  m_previmagets :: int
  m_prevts :: int

text \<open>\<open>rtp_timestamp()*1000\<close> is computed in 32 bits.\<close>

definition stamp_image :: "video_frame \<Rightarrow> video_frame" where
  "stamp_image f = (if timestamp_us f = 0 then f\<lparr>timestamp_us := uint (rtp_timestamp f * 1000)\<rparr> else f)"

text \<open>The milliseconds that the thread sleeps, \<open>ts\<close> being the clock on entry.\<close>

definition image_delay :: "pacer \<Rightarrow> video_frame \<Rightarrow> int \<Rightarrow> int res" where
  "image_delay p f ts =
     (if m_wait p \<and> m_prevts p \<noteq> 0 then
        rbind (cint64 (to_ms (timestamp_us f) - m_previmagets p)) (\<lambda>periodSource.
        rbind (cint64 (ts - m_prevts p)) (\<lambda>periodDecode.
        rbind (cint64 (periodSource - periodDecode)) (\<lambda>delayms.
          Inr (if delayms > 0 \<and> delayms < 1000 then delayms else 0))))
      else Inr 1)"

definition Decoded :: "pacer \<Rightarrow> video_frame \<Rightarrow> int \<Rightarrow> int \<Rightarrow> (int \<times> broadcast \<times> pacer) res" where
  "Decoded p decodedImage ts now =
     (let image = stamp_image decodedImage in
      rbind (image_delay p image ts) (\<lambda>slept.
      rbind (OnFrame (m_scaler p) image) (\<lambda>(s', out).
        Inr (slept, out, p\<lparr>m_scaler := s', m_previmagets := to_ms (timestamp_us image), m_prevts := now\<rparr>))))"

text \<open>
  Handing a decoded image on delays the decoder by less than a second, whatever the time
  stamps of the images and the clock say.
\<close>

theorem Decoded_delay_bounded:
  assumes "Decoded p f ts now = Inr (slept, out, p')"
  shows "0 \<le> slept \<and> slept < 1000 \<and> m_prevts p' = now"
  using assms by (auto simp: Decoded_def image_delay_def Let_def split: if_splits)

definition demo_pacer :: pacer where
  "demo_pacer = \<lparr>m_scaler = projr (VideoScaler []), m_wait = True, m_previmagets = 100, m_prevts = 5000\<rparr>"

theorem Decoded_delay_bounded_witness:
  "\<exists>out p'. Decoded demo_pacer ((demo_frame 640 480)\<lparr>timestamp_us := 140000\<rparr>) 5010 5041 = Inr (30, out, p') \<and>
     0 \<le> (30::int) \<and> (30::int) < 1000 \<and> m_prevts p' = 5041"
proof -
  let ?r = "Decoded demo_pacer ((demo_frame 640 480)\<lparr>timestamp_us := 140000\<rparr>) 5010 5041"
  have "\<not> isl ?r" and "fst (projr ?r) = 30" by code_simp+
  then obtain out p' where r: "?r = Inr (30, out, p')" by (metis prod.collapse sum.collapse(2))
  from Decoded_delay_bounded [OF r] r show ?thesis by simp
qed

text \<open>
  The time of an image that its decoder left without one is taken from the 32-bit RTP time,
  which holds the low bits of the source time in milliseconds, and is multiplied in 32 bits: it
  is the time of the frame in microseconds exactly when that is below \<open>2 ^ 32\<close>, that is for
  the first 71 minutes of the clock of the source.
\<close>

theorem image_time_wraps:
  assumes "timestamp_us f = 0" and "rtp_timestamp f = ucast (ts :: 64 word)"
  shows "timestamp_us (stamp_image f) = uint ts * 1000 mod 2 ^ 32 \<and>
         (timestamp_us (stamp_image f) = uint ts * 1000 \<longleftrightarrow> uint ts < 4294968)"
proof -
  have "uint (ucast ts * 1000 :: 32 word) = uint (ucast ts :: 32 word) * 1000 mod 2 ^ 32"
    by (simp add: uint_word_arith_bintrs take_bit_eq_mod)
  also have "uint (ucast ts :: 32 word) = uint ts mod 2 ^ 32"
    by (simp add: unsigned_ucast_eq take_bit_eq_mod)
  finally have e: "timestamp_us (stamp_image f) = uint ts * 1000 mod 2 ^ 32"
    using assms by (simp add: stamp_image_def mod_mult_left_eq)
  have "uint ts * 1000 mod 2 ^ 32 = uint ts * 1000 \<longleftrightarrow> uint ts < 4294968"
  proof
    assume "uint ts * 1000 mod 2 ^ 32 = uint ts * 1000"
    then have "uint ts * 1000 < 2 ^ 32" using pos_mod_bound [of "2 ^ 32" "uint ts * 1000"] by simp
    then show "uint ts < 4294968" by simp
  next
    assume "uint ts < 4294968"
    then show "uint ts * 1000 mod 2 ^ 32 = uint ts * 1000" by (intro mod_pos_pos_trivial) simp_all
  qed
  with e show ?thesis by simp
qed

theorem image_time_wraps_witness:
  "timestamp_us (stamp_image ((demo_frame 640 480)\<lparr>rtp_timestamp := ucast (1700000000000 :: 64 word)\<rparr>)) \<noteq> 1700000000000 * 1000"
proof -
  let ?f = "(demo_frame 640 480)\<lparr>rtp_timestamp := ucast (1700000000000 :: 64 word)\<rparr>"
  have "timestamp_us ?f = 0" "rtp_timestamp ?f = ucast (1700000000000 :: 64 word)" by (simp_all add: demo_frame_def)
  from image_time_wraps [OF this] show ?thesis by simp
qed

section \<open>Initial frames\<close>

text \<open>The text after the first occurrence of a pattern, cut at the first delimiter.\<close>

definition after :: "string \<Rightarrow> string \<Rightarrow> string option" where
  "after pattern s = map_option (\<lambda>i. drop (i + length pattern) s) (str_find pattern s)"

definition cut_value :: "string \<Rightarrow> string" where
  "cut_value s = (case find_first_of [CHR '' '', CHR '';'', CHR 0x0D, CHR 0x0A] s of None \<Rightarrow> s | Some p \<Rightarrow> take p s)"

definition extractParameters :: "'dec codec_env \<Rightarrow> string \<Rightarrow> bytes" where
  "extractParameters E buffer =
     (case base64_decode E (cut_value buffer) of None \<Rightarrow> [] | Some binary \<Rightarrow> marker E @ binary)"

definition getInitFrames :: "'dec codec_env \<Rightarrow> string \<Rightarrow> string \<Rightarrow> bytes list" where
  "getInitFrames E codec sdp =
     (if codec = ''H264'' then
        (case after ''sprop-parameter-sets='' sdp of
           None \<Rightarrow> []
         | Some sprop \<Rightarrow>
             (case decode_sprop E (cut_value sprop) of
                Some (sps, pps) \<Rightarrow> [marker E @ sps, marker E @ pps]
              | None \<Rightarrow> []))
      else if codec = ''H265'' then
        (case (after ''sprop-vps='' sdp, after ''sprop-sps='' sdp, after ''sprop-pps='' sdp) of
           (Some vps, Some sps, Some pps) \<Rightarrow>
             [extractParameters E vps, extractParameters E sps, extractParameters E pps]
         | _ \<Rightarrow> [])
      else [])"

lemma cut_value_delim:
  assumes "set v \<inter> {CHR '' '', CHR '';'', CHR 0x0D, CHR 0x0A} = {}" and "d \<in> {CHR '' '', CHR '';'', CHR 0x0D, CHR 0x0A}"
  shows "cut_value (v @ d # rest) = v"
  using find_first_of_append [of v "[CHR '' '', CHR '';'', CHR 0x0D, CHR 0x0A]" d rest] assms
  by (auto simp: cut_value_def)

text \<open>
  The parameter sets of an H264 session are taken from the value of the first
  \<open>sprop-parameter-sets\<close> attribute of its SDP, up to the next delimiter: two frames, the
  SPS before the PPS, each behind a start code.
\<close>

theorem getInitFrames_h264:
  assumes "sdp = pre @ ''sprop-parameter-sets='' @ v @ d # rest"
    and "str_find ''sprop-parameter-sets='' sdp = Some (length pre)"
    and "set v \<inter> {CHR '' '', CHR '';'', CHR 0x0D, CHR 0x0A} = {}"
    and "d \<in> {CHR '' '', CHR '';'', CHR 0x0D, CHR 0x0A}"
    and "decode_sprop E v = Some (sps, pps)"
  shows "getInitFrames E ''H264'' sdp = [marker E @ sps, marker E @ pps]"
proof -
  have "after ''sprop-parameter-sets='' sdp = Some (v @ d # rest)"
    unfolding after_def assms(2) by (simp add: assms(1))
  then show ?thesis using cut_value_delim [OF assms(3,4), of rest] assms(5) by (simp add: getInitFrames_def)
qed

theorem getInitFrames_h264_witness:
  "getInitFrames demo_codec ''H264'' ''a=fmtp:96 sprop-parameter-sets=Z0LAH,aM4; x=1'' = [[0, 0, 0, 1, 1], [0, 0, 0, 1, 2]]"
proof -
  have "getInitFrames demo_codec ''H264'' ''a=fmtp:96 sprop-parameter-sets=Z0LAH,aM4; x=1''
      = [marker demo_codec @ [1], marker demo_codec @ [2]]"
  proof (rule getInitFrames_h264 [where pre = "''a=fmtp:96 ''" and v = "''Z0LAH,aM4''" and d = "CHR '';''" and rest = "'' x=1''"])
    show "str_find ''sprop-parameter-sets='' ''a=fmtp:96 sprop-parameter-sets=Z0LAH,aM4; x=1'' = Some (length ''a=fmtp:96 '')"
      by code_simp
  qed (simp_all add: demo_codec_def)
  then show ?thesis by (simp add: demo_codec_def)
qed

end
