(* ===== verification/Null_Codec.thy ===== *)
theory Null_Codec
  imports Video_Decoder
begin

text \<open>
  The null codecs (\<open>inc/NullDecoder.h\<close>, \<open>inc/NullEncoder.h\<close>, \<open>inc/EncodedVideoFrameBuffer.h\<close>
  and the two factories), with which a stream is sent without being decoded: the decoder wraps
  the encoded data into a native frame buffer and the encoder unwraps it. The decoder is an
  instance of the decoder interface of \<open>Video_Decoder\<close>, so the decoder thread runs on it.
\<close>

section \<open>Encoded frame buffers\<close>

record sdp_format =
  sf_name :: string
  sf_params :: "(string, string) smap"

record encoded_buffer =
  eb_width :: int
  eb_height :: int
  eb_data :: bytes
  eb_type :: frame_type
  eb_format :: sdp_format

datatype frame_buffer = Native encoded_buffer | Planar int int

record buffer_frame =
  bf_buffer :: frame_buffer
  bf_rtp :: "32 word"
  bf_time_ms :: "64 word"
  bf_ntp_ms :: "64 word"

text \<open>\<open>getEncodedImage(uint32_t rtptime, int ntptime)\<close>: the time is passed as a 32-bit \<open>int\<close>.\<close>

definition getEncodedImage :: "encoded_buffer \<Rightarrow> 32 word \<Rightarrow> 32 word \<Rightarrow> encoded_image" where
  "getEncodedImage b rtptime ntptime =
     \<lparr>e_data = eb_data b, e_type = eb_type b, e_ntp_ms = scast ntptime, e_rtp = rtptime\<rparr>"

section \<open>The decoder\<close>

text \<open>\<open>WEBRTC_VIDEO_CODEC_OK\<close>, \<open>_ERR_PARAMETER\<close> and \<open>_UNINITIALIZED\<close>\<close>

definition codec_ok :: int where "codec_ok = 0"
definition codec_err_parameter :: int where "codec_err_parameter = -4"
definition codec_uninitialized :: int where "codec_uninitialized = -7"

text \<open>\<open>nd_callback\<close> is \<open>None\<close> while the pointer has no value; the calls of the callback are kept.\<close>

record null_decoder =
  nd_format :: sdp_format
  nd_resolution :: "int \<times> int"
  nd_callback :: "bool option"
  nd_decoded :: "buffer_frame list"

definition NullDecoder :: "sdp_format \<Rightarrow> null_decoder" where
  "NullDecoder format = \<lparr>nd_format = format, nd_resolution = (0, 0), nd_callback = None, nd_decoded = []\<rparr>"

definition Configure :: "int \<Rightarrow> int \<Rightarrow> null_decoder \<Rightarrow> null_decoder" where
  "Configure w h d = d\<lparr>nd_resolution := (w, h)\<rparr>"

definition RegisterDecodeCompleteCallback :: "bool \<Rightarrow> null_decoder \<Rightarrow> null_decoder" where
  "RegisterDecodeCompleteCallback cb d = d\<lparr>nd_callback := Some cb\<rparr>"

definition Decode :: "encoded_image \<Rightarrow> 64 word \<Rightarrow> null_decoder \<Rightarrow> (null_decoder \<times> int) res" where
  "Decode img render_time_ms d =
     (case nd_callback d of
        None \<Rightarrow> Inl Undefined
      | Some False \<Rightarrow> Inr (d, codec_uninitialized)
      | Some True \<Rightarrow>
          Inr (d\<lparr>nd_decoded := nd_decoded d @
            [\<lparr>bf_buffer = Native \<lparr>eb_width = fst (nd_resolution d), eb_height = snd (nd_resolution d),
                                 eb_data = e_data img, eb_type = e_type img, eb_format = nd_format d\<rparr>,
              bf_rtp = e_rtp img, bf_time_ms = render_time_ms, bf_ntp_ms = e_ntp_ms img\<rparr>]\<rparr>, codec_ok))"

text \<open>\<open>VideoDecoderFactory\<close> and \<open>VideoEncoderFactory\<close>; the H264 formats are those of WebRTC.\<close>

definition supported_formats :: "sdp_format list \<Rightarrow> sdp_format list" where
  "supported_formats h264_codecs = h264_codecs @ [\<lparr>sf_name = ''H265'', sf_params = []\<rparr>]"

definition factory_Create :: "sdp_format \<Rightarrow> null_decoder option" where
  "factory_Create format = Some (NullDecoder format)"

text \<open>
  The decoder interface that \<open>createDecoder\<close> and \<open>DecoderThread\<close> use, for the null factory:
  a new decoder is configured and given its callback; the render time of a frame is its time
  stamp.
\<close>

definition null_codec :: "null_decoder codec_env" where
  "null_codec =
     \<lparr>factory_create = (\<lambda>name. factory_Create \<lparr>sf_name = name, sf_params = []\<rparr>),
      configure = (\<lambda>d _ w h. RegisterDecodeCompleteCallback True (Configure w h d)),
      decode = (\<lambda>d img. case Decode img (e_ntp_ms img) d of Inr r \<Rightarrow> r | Inl _ \<Rightarrow> (d, codec_uninitialized)),
      base64_decode = (\<lambda>_. None), decode_sprop = (\<lambda>_. None), marker = [0, 0, 0, 1]\<rparr>"

section \<open>The encoder\<close>

datatype packetization = NonInterleaved | SingleNalUnit

record codec_specific =
  cs_type :: codec_type
  cs_packetization :: "packetization option"

record null_encoder =
  ne_format :: sdp_format
  ne_callback :: "bool option"

definition NullEncoder :: "sdp_format \<Rightarrow> null_encoder" where
  "NullEncoder format = \<lparr>ne_format = format, ne_callback = None\<rparr>"

definition RegisterEncodeCompleteCallback :: "bool \<Rightarrow> null_encoder \<Rightarrow> null_encoder" where
  "RegisterEncodeCompleteCallback cb e = e\<lparr>ne_callback := Some cb\<rparr>"

definition specific_info :: "sdp_format \<Rightarrow> codec_specific" where
  "specific_info format =
     (if sf_name format = ''H264'' then
        \<lparr>cs_type = CodecH264,
         cs_packetization = Some (if map_of (sf_params format) ''packetization-mode'' = Some ''1''
                                  then NonInterleaved else SingleNalUnit)\<rparr>
      else if sf_name format = ''H265'' then \<lparr>cs_type = CodecH265, cs_packetization = None\<rparr>
      else \<lparr>cs_type = CodecGeneric, cs_packetization = None\<rparr>)"

text \<open>The status, and what is handed to the callback.\<close>

definition Encode :: "null_encoder \<Rightarrow> buffer_frame \<Rightarrow> (int \<times> (encoded_image \<times> codec_specific) option) res" where
  "Encode e f =
     (case ne_callback e of
        None \<Rightarrow> Inl Undefined
      | Some False \<Rightarrow> Inr (codec_uninitialized, None)
      | Some True \<Rightarrow>
          (case bf_buffer f of
             Planar _ _ \<Rightarrow> Inr (codec_err_parameter, None)
           | Native b \<Rightarrow>
               if sf_name (eb_format b) \<noteq> sf_name (ne_format e) then Inr (codec_err_parameter, None)
               else Inr (codec_ok, Some (getEncodedImage b (bf_rtp f) (ucast (bf_ntp_ms f)), specific_info (ne_format e)))))"

section \<open>Passing a stream through\<close>

definition passed_image :: "bytes \<times> 64 word \<times> frame_type \<Rightarrow> encoded_image" where
  "passed_image p = (case p of (b, ts, ty) \<Rightarrow>
     \<lparr>e_data = b, e_type = ty, e_ntp_ms = scast (ucast ts :: 32 word), e_rtp = ucast ts\<rparr>)"

definition encoder_for :: "sdp_format \<Rightarrow> null_encoder" where
  "encoder_for format = RegisterEncodeCompleteCallback True (NullEncoder format)"

definition null_frame :: "null_decoder \<Rightarrow> bytes \<times> 64 word \<times> frame_type \<Rightarrow> buffer_frame" where
  "null_frame d p = (case p of (b, ts, ty) \<Rightarrow>
     \<lparr>bf_buffer = Native \<lparr>eb_width = fst (nd_resolution d), eb_height = snd (nd_resolution d), eb_data = b,
                         eb_type = ty, eb_format = nd_format d\<rparr>,
      bf_rtp = ucast ts, bf_time_ms = ts, bf_ntp_ms = ts\<rparr>)"

lemma null_decoder_frames:
  assumes "m_decoder d = Some nd" and "nd_callback nd = Some True" and "\<forall>(b, ts, ty) \<in> set ps. b \<noteq> []"
  shows "m_decoder (fold (handle_frame null_codec) (map (\<lambda>(b, ts, ty). Encoded b ts ty) ps) d)
    = Some (nd\<lparr>nd_decoded := nd_decoded nd @ map (null_frame nd) ps\<rparr>)"
  using assms
proof (induction ps arbitrary: d nd)
  case Nil
  then show ?case by simp
next
  case (Cons p ps)
  obtain b ts ty where p: "p = (b, ts, ty)" by (cases p)
  let ?nd = "nd\<lparr>nd_decoded := nd_decoded nd @ [null_frame nd p]\<rparr>"
  have "m_decoder (handle_frame null_codec (Encoded b ts ty) d) = Some ?nd"
    using Cons.prems p
    by (auto simp: handle_frame_def decode_content_def null_codec_def Decode_def codec_ok_def null_frame_def)
  moreover have "null_frame ?nd = null_frame nd" by (auto simp: null_frame_def fun_eq_iff)
  ultimately show ?case using Cons.IH [of _ ?nd] Cons.prems(2,3) p by simp
qed

lemma null_stream:
  assumes "format = ''H264'' \<or> format = ''H265''" and "\<forall>(b, ts, ty) \<in> set ps. b \<noteq> []"
    and "sf_name out = format"
  shows "\<exists>nd. m_decoder (fold (handle_frame null_codec) (Format format w h # map (\<lambda>(b, ts, ty). Encoded b ts ty) ps)
                 init_decoder) = Some nd \<and>
    map (Encode (encoder_for out)) (nd_decoded nd)
      = map (\<lambda>p. Inr (codec_ok, Some (passed_image p, specific_info out))) ps"
proof -
  let ?nd = "RegisterDecodeCompleteCallback True (Configure w h (NullDecoder \<lparr>sf_name = format, sf_params = []\<rparr>))"
  have "m_decoder (handle_frame null_codec (Format format w h) init_decoder) = Some ?nd"
    using assms(1)
    by (auto simp: handle_frame_def apply_format_def init_decoder_def createDecoder_def null_codec_def factory_Create_def Let_def)
  from null_decoder_frames [OF this _ assms(2)]
  have "m_decoder (fold (handle_frame null_codec) (Format format w h # map (\<lambda>(b, ts, ty). Encoded b ts ty) ps) init_decoder)
      = Some (?nd\<lparr>nd_decoded := map (null_frame ?nd) ps\<rparr>)"
    by (simp add: RegisterDecodeCompleteCallback_def Configure_def NullDecoder_def)
  moreover have "Encode (encoder_for out) (null_frame ?nd p) = Inr (codec_ok, Some (passed_image p, specific_info out))" for p
    using assms(3)
    by (cases p) (simp add: Encode_def encoder_for_def RegisterEncodeCompleteCallback_def NullEncoder_def null_frame_def
        RegisterDecodeCompleteCallback_def Configure_def NullDecoder_def getEncodedImage_def passed_image_def)
  ultimately show ?thesis by simp
qed

text \<open>
  C28. With the null codecs a stream passes through unchanged: after its format is announced, every
  encoded frame that is posted to the decoder comes out of the encoder of the same format, in
  order, with the same bytes, frame type and RTP time.
\<close>

theorem null_codec_passthrough:
  assumes "format = ''H264'' \<or> format = ''H265''" and "\<forall>(b, ts, ty) \<in> set ps. b \<noteq> []"
    and "sf_name out = format"
  shows "\<exists>nd. m_decoder (fold (handle_frame null_codec) (Format format w h # map (\<lambda>(b, ts, ty). Encoded b ts ty) ps)
                 init_decoder) = Some nd \<and>
    map (Encode (encoder_for out)) (nd_decoded nd)
      = map (\<lambda>p. Inr (codec_ok, Some (passed_image p, specific_info out))) ps"
  by (rule null_stream [OF assms])

definition demo_h264 :: sdp_format where
  "demo_h264 = \<lparr>sf_name = ''H264'', sf_params = [(''packetization-mode'', ''1'')]\<rparr>"

theorem null_codec_passthrough_witness:
  "\<exists>nd. m_decoder (fold (handle_frame null_codec) (Format ''H264'' 640 480 #
          map (\<lambda>(b, ts, ty). Encoded b ts ty) [([0, 0, 1, 5], 40, KeyFrame), ([0, 0, 1, 1], 80, DeltaFrame)])
        init_decoder) = Some nd \<and>
    map (Encode (encoder_for demo_h264)) (nd_decoded nd)
      = map (\<lambda>p. Inr (codec_ok, Some (passed_image p, specific_info demo_h264)))
          [([0, 0, 1, 5], 40, KeyFrame), ([0, 0, 1, 1], 80, DeltaFrame)]"
  by (rule null_codec_passthrough) (simp_all add: demo_h264_def)

text \<open>
  The time of a frame does not survive: milliseconds since 1970 need 41 bits, and the encoder
  keeps 32 of them.
\<close>

theorem null_codec_truncates_time:
  assumes "2 ^ 32 \<le> uint ts" and "uint ts < 2 ^ 63"
  shows "e_ntp_ms (passed_image (b, ts, ty)) \<noteq> ts"
proof
  assume "e_ntp_ms (passed_image (b, ts, ty)) = ts"
  then have "sint (scast (ucast ts :: 32 word) :: 64 word) = sint ts" by (simp add: passed_image_def)
  moreover have "sint (scast (ucast ts :: 32 word) :: 64 word) = sint (ucast ts :: 32 word)"
    by (simp add: sint_up_scast is_up)
  moreover have "sint (ucast ts :: 32 word) < 2 ^ 31" using sint_lt [of "ucast ts :: 32 word"] by simp
  moreover have "sint ts = uint ts" using assms by (simp add: sint_uint signed_take_bit_int_eq_self)
  ultimately show False using assms(1) by simp
qed

theorem null_codec_truncates_time_witness:
  "e_ntp_ms (passed_image ([0], 1700000000000, KeyFrame)) \<noteq> 1700000000000"
  by (rule null_codec_truncates_time) simp_all

end
