(* ===== verification/Live_Video.thy ===== *)
theory Live_Video
  imports Video_Decoder
begin

text \<open>
  The video side of a live555 client (\<open>inc/livevideosource.h\<close>): the codec of each session,
  the splitting of H264 and H265 access units into parameter sets, key frames and other slices,
  motion JPEG and VP9. The result of an operation is the sequence of what it hands to
  \<open>VideoDecoder\<close>. The search for NAL units and the parsers of NAL unit types and parameter
  sets belong to WebRTC and libyuv and are the fields of \<open>live_env\<close>.
\<close>

section \<open>Buffers\<close>

text \<open>Reading one byte, and the range \<open>[a, b)\<close>, of a buffer of known size.\<close>

definition byte_at :: "bytes \<Rightarrow> nat \<Rightarrow> 8 word res" where
  "byte_at buf i = (if i < length buf then Inr (buf ! i) else Inl OutOfBounds)"

definition slice :: "bytes \<Rightarrow> nat \<Rightarrow> nat \<Rightarrow> bytes res" where
  "slice buf a b = (if a \<le> b \<and> b \<le> length buf then Inr (take (b - a) (drop a buf)) else Inl OutOfBounds)"

record nalu_index =
  start_offset :: nat
  payload_start_offset :: nat
  payload_size :: nat

datatype h264_nalu = H264Sps | H264Pps | H264Sei | H264Idr | H264Other
datatype h265_nalu = H265Vps | H265Sps | H265Pps | H265IdrWRadl | H265IdrNLp | H265Other

record live_env =
  h264_indices :: "bytes \<Rightarrow> nalu_index list"
  h264_type :: "8 word \<Rightarrow> h264_nalu"
  h264_sps :: "bytes \<Rightarrow> (int \<times> int) option"
  h265_indices :: "bytes \<Rightarrow> nalu_index list"
  h265_type :: "8 word \<Rightarrow> h265_nalu"
  h265_sps :: "bytes \<Rightarrow> (int \<times> int) option"
  mjpg_size :: "bytes \<Rightarrow> (int \<times> int) option"
  mjpg_convert :: "bytes \<Rightarrow> int"

section \<open>State\<close>

text \<open>\<open>m_prevTimestamp\<close> has no value before the first \<open>onData\<close> is over.\<close>

record live =
  m_cfg :: bytes
  m_codec :: "(string, string) smap"
  m_prevTimestamp :: "64 word option"

definition init_live :: live where
  "init_live = \<lparr>m_cfg = [], m_codec = [], m_prevTimestamp = None\<rparr>"

datatype live_event = Post frame | Image video_frame

section \<open>H264\<close>

text \<open>What the loop carries: the configuration, the collected IDR slices and the frames posted.\<close>

record h26x =
  x_cfg :: bytes
  x_idr :: bytes
  x_posts :: "frame list"

definition nalu_bytes :: "bytes \<Rightarrow> nalu_index \<Rightarrow> bytes res" where
  "nalu_bytes buf ix = slice buf (start_offset ix) (payload_size ix + payload_start_offset ix)"

text \<open>\<open>m_prevTimestamp && ts < m_prevTimestamp && m_decoder && ...\<close>; \<open>ffmpeg\<close> stands for
  the last two: there is a decoder and its name is \<open>FFmpeg\<close>.\<close>

definition in_the_past :: "64 word option \<Rightarrow> 64 word \<Rightarrow> bool \<Rightarrow> bool res" where
  "in_the_past prev ts ffmpeg =
     (case prev of None \<Rightarrow> Inl Undefined | Some p \<Rightarrow> Inr (p \<noteq> 0 \<and> ts < p \<and> ffmpeg))"

definition post_slice ::
  "bytes \<Rightarrow> nalu_index \<Rightarrow> 64 word \<Rightarrow> 64 word option \<Rightarrow> bool \<Rightarrow> h26x \<Rightarrow> h26x res" where
  "post_slice buf ix ts prev ffmpeg x =
     rbind (in_the_past prev ts ffmpeg) (\<lambda>past.
       if past then Inr x
       else rbind (nalu_bytes buf ix) (\<lambda>content.
              Inr (x\<lparr>x_posts := x_posts x @ [Encoded content ts DeltaFrame]\<rparr>)))"

definition add_idr :: "bytes \<Rightarrow> nalu_index \<Rightarrow> h26x \<Rightarrow> h26x res" where
  "add_idr buf ix x =
     rbind (nalu_bytes buf ix) (\<lambda>raw.
       Inr (x\<lparr>x_idr := (if x_idr x = [] then x_cfg x else x_idr x) @ raw\<rparr>))"

definition add_cfg :: "bytes \<Rightarrow> nalu_index \<Rightarrow> h26x \<Rightarrow> h26x res" where
  "add_cfg buf ix x = rbind (nalu_bytes buf ix) (\<lambda>raw. Inr (x\<lparr>x_cfg := x_cfg x @ raw\<rparr>))"

definition sps_format :: "string \<Rightarrow> (int \<times> int) option \<Rightarrow> frame" where
  "sps_format codec sps = (case sps of None \<Rightarrow> Format codec 0 0 | Some (w, h) \<Rightarrow> Format codec w h)"

definition h264_nalu_step ::
  "live_env \<Rightarrow> bytes \<Rightarrow> 64 word \<Rightarrow> string \<Rightarrow> 64 word option \<Rightarrow> bool \<Rightarrow> nalu_index \<Rightarrow> h26x \<Rightarrow> h26x res" where
  "h264_nalu_step L buf ts codec prev ffmpeg ix x =
     (if payload_size ix = 0 then Inr x
      else rbind (byte_at buf (payload_start_offset ix)) (\<lambda>b.
        case h264_type L b of
          H264Sps \<Rightarrow>
            rbind (add_cfg buf ix (x\<lparr>x_cfg := []\<rparr>)) (\<lambda>x1.
            rbind (slice buf (payload_start_offset ix + 1) (payload_start_offset ix + payload_size ix)) (\<lambda>sps.
              Inr (x1\<lparr>x_posts := x_posts x1 @ [sps_format codec (h264_sps L sps)]\<rparr>)))
        | H264Pps \<Rightarrow> add_cfg buf ix x
        | H264Sei \<Rightarrow> Inr x
        | H264Idr \<Rightarrow> add_idr buf ix x
        | H264Other \<Rightarrow> post_slice buf ix ts prev ffmpeg x))"

fun nalu_loop :: "(nalu_index \<Rightarrow> h26x \<Rightarrow> h26x res) \<Rightarrow> nalu_index list \<Rightarrow> h26x \<Rightarrow> h26x res" where
  "nalu_loop step [] x = Inr x"
| "nalu_loop step (ix # ixs) x = rbind (step ix x) (nalu_loop step ixs)"

definition post_idr :: "64 word \<Rightarrow> h26x \<Rightarrow> frame list" where
  "post_idr ts x = x_posts x @ (if x_idr x \<noteq> [] then [Encoded (x_idr x) ts KeyFrame] else [])"

definition onH264Data ::
  "live_env \<Rightarrow> live \<Rightarrow> bytes \<Rightarrow> 64 word \<Rightarrow> string \<Rightarrow> bool \<Rightarrow> (frame list \<times> live) res" where
  "onH264Data L st buf ts codec ffmpeg =
     rbind (nalu_loop (h264_nalu_step L buf ts codec (m_prevTimestamp st) ffmpeg) (h264_indices L buf)
              \<lparr>x_cfg = m_cfg st, x_idr = [], x_posts = []\<rparr>) (\<lambda>x.
       Inr (post_idr ts x, st\<lparr>m_cfg := x_cfg x\<rparr>))"

section \<open>H265\<close>

text \<open>\<open>payload_size - kNaluHeaderSize\<close> wraps below 2 and then runs past the buffer.\<close>

definition h265_nalu_step ::
  "live_env \<Rightarrow> bytes \<Rightarrow> 64 word \<Rightarrow> string \<Rightarrow> 64 word option \<Rightarrow> bool \<Rightarrow> nalu_index \<Rightarrow> h26x \<Rightarrow> h26x res" where
  "h265_nalu_step L buf ts codec prev ffmpeg ix x =
     rbind (byte_at buf (payload_start_offset ix)) (\<lambda>b.
       case h265_type L b of
         H265Vps \<Rightarrow> add_cfg buf ix (x\<lparr>x_cfg := []\<rparr>)
       | H265Sps \<Rightarrow>
           rbind (add_cfg buf ix x) (\<lambda>x1.
           rbind (if payload_size ix < 2 then Inl OutOfBounds
                  else slice buf (payload_start_offset ix + 2) (payload_start_offset ix + payload_size ix)) (\<lambda>sps.
             Inr (x1\<lparr>x_posts := x_posts x1 @ [sps_format codec (h265_sps L sps)]\<rparr>)))
       | H265Pps \<Rightarrow> add_cfg buf ix x
       | H265IdrWRadl \<Rightarrow> add_idr buf ix x
       | H265IdrNLp \<Rightarrow> add_idr buf ix x
       | H265Other \<Rightarrow> post_slice buf ix ts prev ffmpeg x)"

definition onH265Data ::
  "live_env \<Rightarrow> live \<Rightarrow> bytes \<Rightarrow> 64 word \<Rightarrow> string \<Rightarrow> bool \<Rightarrow> (frame list \<times> live) res" where
  "onH265Data L st buf ts codec ffmpeg =
     rbind (nalu_loop (h265_nalu_step L buf ts codec (m_prevTimestamp st) ffmpeg) (h265_indices L buf)
              \<lparr>x_cfg = m_cfg st, x_idr = [], x_posts = []\<rparr>) (\<lambda>x.
       Inr (post_idr ts x, st\<lparr>m_cfg := x_cfg x\<rparr>))"

section \<open>JPEG and dispatch\<close>

definition onJPEGData :: "live_env \<Rightarrow> bytes \<Rightarrow> int \<Rightarrow> (int \<times> live_event list) res" where
  "onJPEGData L buf ts =
     (case mjpg_size L buf of
        None \<Rightarrow> Inr (-1, [])
      | Some (w, h) \<Rightarrow>
          if mjpg_convert L buf \<ge> 0 then
            rbind (cint64 (ts * 1000)) (\<lambda>us.
              Inr (0, [Image \<lparr>width = w, height = h, native = False, rtp_timestamp = 0,
                              timestamp_us = us, frame_id = ts\<rparr>]))
          else Inr (-1, []))"

text \<open>\<open>m_codec[id]\<close> creates an empty entry for an id that is not there.\<close>

definition onData ::
  "live_env \<Rightarrow> live \<Rightarrow> string \<Rightarrow> bytes \<Rightarrow> int \<Rightarrow> int \<Rightarrow> bool \<Rightarrow> (bool \<times> live_event list \<times> live) res" where
  "onData L st ident buf tv_sec tv_usec ffmpeg =
     rbind (cint64 (tv_sec * 1000)) (\<lambda>ms.
     rbind (cint64 (ms + to_ms tv_usec)) (\<lambda>ts.
     let st1 = st\<lparr>m_codec := smap_insert ident [] (m_codec st)\<rparr>;
         codec = (case map_of (m_codec st) ident of None \<Rightarrow> [] | Some c \<Rightarrow> c);
         stamp = (\<lambda>s. s\<lparr>m_prevTimestamp := Some (of_int ts)\<rparr>)
     in if codec = ''H264'' then
          rbind (onH264Data L st1 buf (of_int ts) codec ffmpeg) (\<lambda>(fs, st2). Inr (True, map Post fs, stamp st2))
        else if codec = ''H265'' then
          rbind (onH265Data L st1 buf (of_int ts) codec ffmpeg) (\<lambda>(fs, st2). Inr (True, map Post fs, stamp st2))
        else if codec = ''JPEG'' then
          rbind (onJPEGData L buf ts) (\<lambda>(result, es). Inr (result = 0, es, stamp st1))
        else if codec = ''VP9'' then
          Inr (True, [Post (Format codec 0 0), Post (Encoded buf (of_int ts) KeyFrame)], stamp st1)
        else Inr (True, [], stamp st1)))"

fun onInitFrames ::
  "live_env \<Rightarrow> string \<Rightarrow> bool \<Rightarrow> bytes list \<Rightarrow> live \<Rightarrow> (live_event list \<times> live) res" where
  "onInitFrames L ident ffmpeg [] st = Inr ([], st)"
| "onInitFrames L ident ffmpeg (f # fs) st =
     rbind (onData L st ident f 0 0 ffmpeg) (\<lambda>(_, es, st1).
     rbind (onInitFrames L ident ffmpeg fs st1) (\<lambda>(es', st2). Inr (es @ es', st2)))"

definition onNewSession ::
  "live_env \<Rightarrow> 'dec codec_env \<Rightarrow> live \<Rightarrow> string \<Rightarrow> string \<Rightarrow> string \<Rightarrow> string \<Rightarrow> bool
     \<Rightarrow> (bool \<times> live_event list \<times> live) res" where
  "onNewSession L E st ident media codec sdp ffmpeg =
     (if media = ''video'' \<and> codec \<in> {''H264'', ''H265'', ''JPEG'', ''VP9''} then
        rbind (onInitFrames L ident ffmpeg (getInitFrames E codec sdp)
                 (st\<lparr>m_codec := smap_assign ident codec (m_codec st)\<rparr>)) (\<lambda>(es, st').
          Inr (True, es, st'))
      else Inr (False, [], st))"

section \<open>Access units\<close>

text \<open>
  The reference for the two loops: every NAL unit has a role, possibly announces a format, and
  has its bytes. An access unit posts the formats and the other slices in their order, and
  after them one key frame, the configuration that was known at the first IDR slice followed
  by all the IDR slices.
\<close>

datatype role = ConfigStart | ConfigMore | IdrSlice | OtherSlice | Ignored

type_synonym nalu = "role \<times> frame option \<times> bytes"

fun config_after :: "bytes \<Rightarrow> nalu list \<Rightarrow> bytes" where
  "config_after cfg [] = cfg"
| "config_after cfg ((r, _, raw) # ns) =
     config_after (if r = ConfigStart then raw else if r = ConfigMore then cfg @ raw else cfg) ns"

definition idr_slices :: "nalu list \<Rightarrow> bytes list" where
  "idr_slices ns = [raw. (r, _, raw) \<leftarrow> ns, r = IdrSlice]"

definition before_idr :: "nalu list \<Rightarrow> nalu list" where
  "before_idr ns = takeWhile (\<lambda>(r, _, _). r \<noteq> IdrSlice) ns"

definition unit_posts :: "64 word \<Rightarrow> nalu list \<Rightarrow> frame list" where
  "unit_posts ts ns = concat (map (\<lambda>(r, fmt, raw).
     (if r = OtherSlice then [Encoded raw ts DeltaFrame] else []) @ (case fmt of None \<Rightarrow> [] | Some f \<Rightarrow> [f])) ns)"

definition access_unit :: "64 word \<Rightarrow> bytes \<Rightarrow> nalu list \<Rightarrow> frame list" where
  "access_unit ts cfg ns = unit_posts ts ns @
     (if idr_slices ns = [] then []
      else [Encoded (config_after cfg (before_idr ns) @ concat (idr_slices ns)) ts KeyFrame])"

definition role_step :: "64 word \<Rightarrow> nalu \<Rightarrow> h26x \<Rightarrow> h26x" where
  "role_step ts n x =
     (case n of (r, fmt, raw) \<Rightarrow>
        \<lparr>x_cfg = (if r = ConfigStart then raw else if r = ConfigMore then x_cfg x @ raw else x_cfg x),
         x_idr = (if r = IdrSlice then (if x_idr x = [] then x_cfg x else x_idr x) @ raw else x_idr x),
         x_posts = x_posts x @ unit_posts ts [n]\<rparr>)"

lemma unit_posts_Cons: "unit_posts ts (n # ns) = unit_posts ts [n] @ unit_posts ts ns"
  by (simp add: unit_posts_def)

lemma fold_role_step:
  assumes "\<forall>(r, fmt, raw) \<in> set ns. r = IdrSlice \<longrightarrow> raw \<noteq> []"
  shows "fold (role_step ts) ns x =
    \<lparr>x_cfg = config_after (x_cfg x) ns,
     x_idr = (if x_idr x \<noteq> [] then x_idr x @ concat (idr_slices ns)
              else if idr_slices ns = [] then []
              else config_after (x_cfg x) (before_idr ns) @ concat (idr_slices ns)),
     x_posts = x_posts x @ unit_posts ts ns\<rparr>"
  using assms
proof (induction ns arbitrary: x)
  case Nil
  then show ?case by (simp add: idr_slices_def unit_posts_def)
next
  case (Cons n ns)
  obtain r fmt raw where n: "n = (r, fmt, raw)" by (cases n)
  from Cons.prems have "\<forall>(r, fmt, raw) \<in> set ns. r = IdrSlice \<longrightarrow> raw \<noteq> []" by simp
  note IH = Cons.IH [OF this, of "role_step ts n x"]
  show ?case
  proof (cases "r = IdrSlice")
    case True
    then have "raw \<noteq> []" using Cons.prems n by auto
    with True IH n show ?thesis
      by (simp add: role_step_def idr_slices_def before_idr_def unit_posts_Cons [of ts "(IdrSlice, fmt, raw)" ns])
  next
    case False
    with IH n show ?thesis
      by (simp add: role_step_def idr_slices_def before_idr_def unit_posts_Cons [of ts "(r, fmt, raw)" ns])
  qed
qed

text \<open>What a loop over NAL units relies on: each step acts as the role of its unit says.\<close>

locale nalu_splitter =
  fixes ts :: "64 word" and step :: "nalu_index \<Rightarrow> h26x \<Rightarrow> h26x res"
    and ok :: "nalu_index \<Rightarrow> bool" and classify :: "nalu_index \<Rightarrow> nalu"
  assumes step_role: "ok ix \<Longrightarrow> step ix x = Inr (role_step ts (classify ix) x)"
    and idr_nonempty: "ok ix \<Longrightarrow> classify ix = (IdrSlice, fmt, raw) \<Longrightarrow> raw \<noteq> []"
begin

lemma loop_fold: "\<forall>ix \<in> set ixs. ok ix \<Longrightarrow> nalu_loop step ixs x = Inr (fold (role_step ts) (map classify ixs) x)"
  by (induction ixs arbitrary: x) (auto simp: step_role)

lemma loop_access_unit:
  assumes "\<forall>ix \<in> set ixs. ok ix"
  shows "\<exists>x. nalu_loop step ixs \<lparr>x_cfg = cfg, x_idr = [], x_posts = []\<rparr> = Inr x \<and>
           post_idr ts x = access_unit ts cfg (map classify ixs) \<and> x_cfg x = config_after cfg (map classify ixs)"
proof -
  have idr: "\<forall>(r, fmt, raw) \<in> set (map classify ixs). r = IdrSlice \<longrightarrow> raw \<noteq> []"
  proof clarify
    fix r fmt
    assume "(IdrSlice, fmt, []) \<in> set (map classify ixs)"
    then obtain ix where "ix \<in> set ixs" "classify ix = (IdrSlice, fmt, [])" by force
    then show False using assms idr_nonempty by blast
  qed
  have "\<forall>(r, fmt, raw) \<in> set (map classify ixs). r = IdrSlice \<longrightarrow> raw \<noteq> []
      \<Longrightarrow> idr_slices (map classify ixs) \<noteq> [] \<Longrightarrow> concat (idr_slices (map classify ixs)) \<noteq> []"
    by (fastforce simp: idr_slices_def)
  with idr show ?thesis
    using loop_fold [OF assms] fold_role_step [OF idr, of ts "\<lparr>x_cfg = cfg, x_idr = [], x_posts = []\<rparr>"]
    by (auto simp: post_idr_def access_unit_def)
qed

end

definition index_ok :: "bytes \<Rightarrow> nalu_index \<Rightarrow> bool" where
  "index_ok buf ix \<longleftrightarrow> start_offset ix \<le> payload_start_offset ix \<and>
     payload_start_offset ix + payload_size ix \<le> length buf"

definition raw_nalu :: "bytes \<Rightarrow> nalu_index \<Rightarrow> bytes" where
  "raw_nalu buf ix = take (payload_size ix + payload_start_offset ix - start_offset ix) (drop (start_offset ix) buf)"

lemma nalu_bytes_ok: "index_ok buf ix \<Longrightarrow> nalu_bytes buf ix = Inr (raw_nalu buf ix)"
  by (simp add: index_ok_def nalu_bytes_def slice_def raw_nalu_def)

lemma raw_nalu_nonempty: "index_ok buf ix \<Longrightarrow> payload_size ix \<noteq> 0 \<Longrightarrow> raw_nalu buf ix \<noteq> []"
  by (auto simp: index_ok_def raw_nalu_def)

text \<open>The roles of H264 and H265 units, and when a step of each loop is defined.\<close>

definition h264_classify :: "live_env \<Rightarrow> bytes \<Rightarrow> string \<Rightarrow> nalu_index \<Rightarrow> nalu" where
  "h264_classify L buf codec ix =
     (if payload_size ix = 0 then (Ignored, None, [])
      else case h264_type L (buf ! payload_start_offset ix) of
        H264Sps \<Rightarrow> (ConfigStart, Some (sps_format codec (h264_sps L
           (take (payload_size ix - 1) (drop (payload_start_offset ix + 1) buf)))), raw_nalu buf ix)
      | H264Pps \<Rightarrow> (ConfigMore, None, raw_nalu buf ix)
      | H264Sei \<Rightarrow> (Ignored, None, raw_nalu buf ix)
      | H264Idr \<Rightarrow> (IdrSlice, None, raw_nalu buf ix)
      | H264Other \<Rightarrow> (OtherSlice, None, raw_nalu buf ix))"

definition h265_classify :: "live_env \<Rightarrow> bytes \<Rightarrow> string \<Rightarrow> nalu_index \<Rightarrow> nalu" where
  "h265_classify L buf codec ix =
     (case h265_type L (buf ! payload_start_offset ix) of
        H265Vps \<Rightarrow> (ConfigStart, None, raw_nalu buf ix)
      | H265Sps \<Rightarrow> (ConfigMore, Some (sps_format codec (h265_sps L
           (take (payload_size ix - 2) (drop (payload_start_offset ix + 2) buf)))), raw_nalu buf ix)
      | H265Pps \<Rightarrow> (ConfigMore, None, raw_nalu buf ix)
      | H265IdrWRadl \<Rightarrow> (IdrSlice, None, raw_nalu buf ix)
      | H265IdrNLp \<Rightarrow> (IdrSlice, None, raw_nalu buf ix)
      | H265Other \<Rightarrow> (OtherSlice, None, raw_nalu buf ix))"

definition h264_ok :: "live_env \<Rightarrow> bytes \<Rightarrow> 64 word \<Rightarrow> 64 word option \<Rightarrow> bool \<Rightarrow> nalu_index \<Rightarrow> bool" where
  "h264_ok L buf ts prev ffmpeg ix \<longleftrightarrow> index_ok buf ix \<and>
     (in_the_past prev ts ffmpeg = Inr False \<or> fst (h264_classify L buf [] ix) \<noteq> OtherSlice)"

definition h265_ok :: "bytes \<Rightarrow> 64 word \<Rightarrow> 64 word option \<Rightarrow> bool \<Rightarrow> nalu_index \<Rightarrow> bool" where
  "h265_ok buf ts prev ffmpeg ix \<longleftrightarrow> index_ok buf ix \<and> in_the_past prev ts ffmpeg = Inr False \<and> 2 \<le> payload_size ix"

text \<open>
  An H264 slice that comes too late for the FFmpeg decoder is dropped. Its step is that of a unit
  without a role.
\<close>

definition late :: "bool \<Rightarrow> nalu \<Rightarrow> nalu" where
  "late past n = (case n of (r, fmt, raw) \<Rightarrow> (if past \<and> r = OtherSlice then Ignored else r, fmt, raw))"

definition h264_within :: "live_env \<Rightarrow> bytes \<Rightarrow> 64 word \<Rightarrow> 64 word option \<Rightarrow> bool \<Rightarrow> bool \<Rightarrow> nalu_index \<Rightarrow> bool" where
  "h264_within L buf ts prev ffmpeg past ix \<longleftrightarrow> index_ok buf ix \<and>
     (in_the_past prev ts ffmpeg = Inr past \<or> fst (h264_classify L buf [] ix) \<noteq> OtherSlice)"

lemma late_False [simp]: "late False n = n"
  by (simp add: late_def split: prod.split)

lemmas nalu_step_defs = byte_at_def slice_def role_step_def unit_posts_def add_cfg_def add_idr_def post_slice_def

interpretation h264: nalu_splitter ts "h264_nalu_step L buf ts codec prev ffmpeg"
  "h264_within L buf ts prev ffmpeg past" "\<lambda>ix. late past (h264_classify L buf codec ix)"
  for L buf ts codec prev ffmpeg past
proof
  fix ix x fmt raw
  assume ok: "h264_within L buf ts prev ffmpeg past ix"
  show "h264_nalu_step L buf ts codec prev ffmpeg ix x = Inr (role_step ts (late past (h264_classify L buf codec ix)) x)"
  proof (cases "payload_size ix = 0")
    case True
    then show ?thesis by (simp add: h264_nalu_step_def h264_classify_def late_def role_step_def unit_posts_def)
  next
    case False
    with ok have "index_ok buf ix"
      "in_the_past prev ts ffmpeg = Inr past \<or> h264_type L (buf ! payload_start_offset ix) \<noteq> H264Other"
      "payload_start_offset ix < length buf" "payload_start_offset ix + payload_size ix \<le> length buf"
      by (auto simp: h264_within_def index_ok_def h264_classify_def split: h264_nalu.splits)
    with False show ?thesis
      by (cases "h264_type L (buf ! payload_start_offset ix)")
        (auto simp: h264_nalu_step_def h264_classify_def late_def nalu_step_defs nalu_bytes_ok)
  qed
  assume "late past (h264_classify L buf codec ix) = (IdrSlice, fmt, raw)"
  with ok raw_nalu_nonempty [of buf ix] show "raw \<noteq> []"
    by (auto simp: h264_classify_def h264_within_def late_def split: if_splits h264_nalu.splits)
qed

interpretation h265: nalu_splitter ts "h265_nalu_step L buf ts codec prev ffmpeg"
  "h265_ok buf ts prev ffmpeg" "h265_classify L buf codec"
  for L buf ts codec prev ffmpeg
proof
  fix ix x fmt raw
  assume ok: "h265_ok buf ts prev ffmpeg ix"
  then have "index_ok buf ix" "in_the_past prev ts ffmpeg = Inr False" "2 \<le> payload_size ix"
    "payload_start_offset ix < length buf" "payload_start_offset ix + payload_size ix \<le> length buf"
    by (auto simp: h265_ok_def index_ok_def)
  then show "h265_nalu_step L buf ts codec prev ffmpeg ix x = Inr (role_step ts (h265_classify L buf codec ix) x)"
    by (simp add: h265_nalu_step_def h265_classify_def nalu_step_defs nalu_bytes_ok split: h265_nalu.splits)
  assume "h265_classify L buf codec ix = (IdrSlice, fmt, raw)"
  with ok raw_nalu_nonempty [of buf ix] show "raw \<noteq> []"
    by (auto simp: h265_classify_def h265_ok_def split: if_splits h265_nalu.splits)
qed

lemma config_after_late [simp]: "config_after cfg (map (\<lambda>i. late past (f i)) ns) = config_after cfg (map f ns)"
proof (induction ns arbitrary: cfg)
  case (Cons n ns)
  then show ?case by (cases "f n") (simp add: late_def)
qed simp

lemma h264_role_codec: "fst (h264_classify L buf codec ix) = fst (h264_classify L buf codec' ix)"
  by (simp add: h264_classify_def split: h264_nalu.splits)

lemma onH264Data_units:
  assumes "\<forall>ix \<in> set (h264_indices L buf). h264_ok L buf ts (m_prevTimestamp st) ffmpeg ix"
  shows "onH264Data L st buf ts codec ffmpeg
    = Inr (access_unit ts (m_cfg st) (map (h264_classify L buf codec) (h264_indices L buf)),
           st\<lparr>m_cfg := config_after (m_cfg st) (map (h264_classify L buf codec) (h264_indices L buf))\<rparr>)"
  using h264.loop_access_unit [of "h264_indices L buf" L buf ts "m_prevTimestamp st" ffmpeg False codec "m_cfg st"] assms
  by (auto simp: onH264Data_def h264_ok_def h264_within_def)

text \<open>Before the first time stamp is set, the first slice that is no IDR slice reads it.\<close>

lemma h264_unset_time:
  assumes "\<forall>ix \<in> set ixs. index_ok buf ix" and "\<exists>ix \<in> set ixs. fst (h264_classify L buf codec ix) = OtherSlice"
  shows "nalu_loop (h264_nalu_step L buf ts codec None ffmpeg) ixs x = Inl Undefined"
  using assms
proof (induction ixs arbitrary: x)
  case (Cons ix ixs)
  show ?case
  proof (cases "fst (h264_classify L buf codec ix) = OtherSlice")
    case True
    then have "payload_size ix \<noteq> 0" "h264_type L (buf ! payload_start_offset ix) = H264Other"
      by (auto simp: h264_classify_def split: if_splits h264_nalu.splits)
    moreover have "payload_start_offset ix < length buf"
      using Cons.prems(1) \<open>payload_size ix \<noteq> 0\<close> by (auto simp: index_ok_def)
    ultimately show ?thesis by (simp add: h264_nalu_step_def byte_at_def post_slice_def in_the_past_def)
  next
    case False
    then have "h264_within L buf ts None ffmpeg False ix"
      using Cons.prems(1) h264_role_codec [of L buf codec ix "[]"] by (simp add: h264_within_def)
    with Cons False show ?thesis using h264.step_role by auto
  qed
qed simp

text \<open>
  C12. On every buffer whose NAL units lie inside it, H264 data is split as the reference says:
  the formats and the other slices are posted in order, then one key frame with the
  configuration and all the IDR slices; empty units are skipped, the other slices are dropped
  when the decoder is that of FFmpeg and the time stamp is before the last one, and the
  configuration is kept for the next buffer. Only a slice that comes before any time stamp was
  stored is undefined: it is compared with a member that is not initialised.
\<close>

theorem onH264Data_access_unit:
  assumes "\<forall>ix \<in> set (h264_indices L buf). index_ok buf ix"
  shows "onH264Data L st buf ts codec ffmpeg =
    (let units = map (h264_classify L buf codec) (h264_indices L buf) in
     if m_prevTimestamp st = None \<and> (\<exists>n \<in> set units. fst n = OtherSlice) then Inl Undefined
     else Inr (access_unit ts (m_cfg st)
                 (map (late (case m_prevTimestamp st of None \<Rightarrow> False | Some p \<Rightarrow> p \<noteq> 0 \<and> ts < p \<and> ffmpeg)) units),
               st\<lparr>m_cfg := config_after (m_cfg st) units\<rparr>))"
proof -
  let ?units = "map (h264_classify L buf codec) (h264_indices L buf)"
  let ?past = "case m_prevTimestamp st of None \<Rightarrow> False | Some p \<Rightarrow> p \<noteq> 0 \<and> ts < p \<and> ffmpeg"
  show ?thesis
  proof (cases "m_prevTimestamp st = None \<and> (\<exists>n \<in> set ?units. fst n = OtherSlice)")
    case True
    with assms show ?thesis using h264_unset_time [of "h264_indices L buf" buf L codec] by (auto simp: onH264Data_def Let_def)
  next
    case False
    have "h264_within L buf ts (m_prevTimestamp st) ffmpeg ?past ix" if "ix \<in> set (h264_indices L buf)" for ix
      using that assms False h264_role_codec [of L buf codec ix "[]"]
      by (auto simp: h264_within_def in_the_past_def split: option.splits)
    then have "\<forall>ix \<in> set (h264_indices L buf). h264_within L buf ts (m_prevTimestamp st) ffmpeg ?past ix" by blast
    from h264.loop_access_unit [OF this, of codec "m_cfg st"] False show ?thesis
      by (auto simp: onH264Data_def Let_def config_after_late o_def)
  qed
qed

text \<open>NAL units of four bytes, a start code of three and the type, for H264; of five for H265.\<close>

definition demo_live :: live_env where
  "demo_live =
     \<lparr>h264_indices = (\<lambda>buf. map (\<lambda>i. \<lparr>start_offset = 4 * i, payload_start_offset = 4 * i + 3, payload_size = 1\<rparr>)
                          [0..<length buf div 4]),
      h264_type = (\<lambda>b. if b = 7 then H264Sps else if b = 8 then H264Pps else if b = 6 then H264Sei
                      else if b = 5 then H264Idr else H264Other),
      h264_sps = (\<lambda>_. Some (640, 480)),
      h265_indices = (\<lambda>buf. map (\<lambda>i. \<lparr>start_offset = 5 * i, payload_start_offset = 5 * i + 3, payload_size = 2\<rparr>)
                          [0..<length buf div 5]),
      h265_type = (\<lambda>b. if b = 64 then H265Vps else if b = 66 then H265Sps else if b = 68 then H265Pps
                      else if b = 38 then H265IdrWRadl else H265Other),
      h265_sps = (\<lambda>_. None), mjpg_size = (\<lambda>_. None), mjpg_convert = (\<lambda>_. 0)\<rparr>"

definition demo_live_state :: live where
  "demo_live_state = \<lparr>m_cfg = [], m_codec = [(''v'', ''H264'')], m_prevTimestamp = Some 0\<rparr>"

definition demo_unit :: bytes where
  "demo_unit = [0, 0, 1, 7,  0, 0, 1, 8,  0, 0, 1, 5,  0, 0, 1, 1,  0, 0, 1, 5]"

theorem onH264Data_access_unit_witness:
  "onH264Data demo_live demo_live_state demo_unit 40 ''H264'' True
     = Inr ([Format ''H264'' 640 480, Encoded [0, 0, 1, 1] 40 DeltaFrame,
             Encoded ([0, 0, 1, 7, 0, 0, 1, 8] @ [0, 0, 1, 5] @ [0, 0, 1, 5]) 40 KeyFrame],
            demo_live_state\<lparr>m_cfg := [0, 0, 1, 7, 0, 0, 1, 8]\<rparr>)"
proof -
  let ?ns = "map (h264_classify demo_live demo_unit ''H264'') (h264_indices demo_live demo_unit)"
  have "\<forall>ix \<in> set (h264_indices demo_live demo_unit). index_ok demo_unit ix"
    by code_simp
  note onH264Data_access_unit [OF this, of demo_live_state 40 "''H264''" True]
  moreover have "m_prevTimestamp demo_live_state \<noteq> None"
    "(case m_prevTimestamp demo_live_state of None \<Rightarrow> False | Some p \<Rightarrow> p \<noteq> 0 \<and> (40 :: 64 word) < p \<and> True) = False"
    by code_simp+
  moreover have "access_unit 40 (m_cfg demo_live_state) ?ns =
      [Format ''H264'' 640 480, Encoded [0, 0, 1, 1] 40 DeltaFrame,
       Encoded ([0, 0, 1, 7, 0, 0, 1, 8] @ [0, 0, 1, 5] @ [0, 0, 1, 5]) 40 KeyFrame]"
    and "config_after (m_cfg demo_live_state) ?ns = [0, 0, 1, 7, 0, 0, 1, 8]"
    by code_simp+
  ultimately show ?thesis by (simp add: Let_def comp_def)
qed

text \<open>
  H265 data is split in the same way, provided that every NAL unit also has its two header
  bytes.
\<close>

theorem onH265Data_access_unit:
  assumes "\<forall>ix \<in> set (h265_indices L buf). index_ok buf ix \<and> 2 \<le> payload_size ix"
    and "in_the_past (m_prevTimestamp st) ts ffmpeg = Inr False"
  shows "onH265Data L st buf ts codec ffmpeg
    = Inr (access_unit ts (m_cfg st) (map (h265_classify L buf codec) (h265_indices L buf)),
           st\<lparr>m_cfg := config_after (m_cfg st) (map (h265_classify L buf codec) (h265_indices L buf))\<rparr>)"
proof -
  have "\<forall>ix \<in> set (h265_indices L buf). h265_ok buf ts (m_prevTimestamp st) ffmpeg ix"
    using assms by (simp add: h265_ok_def)
  from h265.loop_access_unit [OF this, of L codec "m_cfg st"] show ?thesis
    by (auto simp: onH265Data_def)
qed

theorem onH265Data_access_unit_witness:
  "onH265Data demo_live demo_live_state [0, 0, 1, 64, 1,  0, 0, 1, 38, 1] 40 ''H265'' True
     = Inr ([Encoded ([0, 0, 1, 64, 1] @ [0, 0, 1, 38, 1]) 40 KeyFrame], demo_live_state\<lparr>m_cfg := [0, 0, 1, 64, 1]\<rparr>)"
proof -
  let ?b = "[0, 0, 1, 64, 1,  0, 0, 1, 38, 1] :: bytes"
  let ?ns = "map (h265_classify demo_live ?b ''H265'') (h265_indices demo_live ?b)"
  have "\<forall>ix \<in> set (h265_indices demo_live ?b). index_ok ?b ix \<and> 2 \<le> payload_size ix"
    and "in_the_past (m_prevTimestamp demo_live_state) 40 True = Inr False"
    by code_simp+
  note onH265Data_access_unit [OF this, of "''H265''"]
  moreover have "access_unit 40 (m_cfg demo_live_state) ?ns = [Encoded ([0, 0, 1, 64, 1] @ [0, 0, 1, 38, 1]) 40 KeyFrame]"
    and "config_after (m_cfg demo_live_state) ?ns = [0, 0, 1, 64, 1]"
    by code_simp+
  ultimately show ?thesis by simp
qed

lemma nalu_loop_append: "nalu_loop step (xs @ ys) x = rbind (nalu_loop step xs x) (nalu_loop step ys)"
  by (induction xs arbitrary: x) (auto simp: rbind_assoc intro!: rbind_cong)

text \<open>
  An empty NAL unit at the end of the buffer, which a trailing start code gives, is skipped
  in H264 data, while H265 data reads its type one byte past the buffer.
\<close>

theorem h265_empty_unit_out_of_bounds:
  assumes "h265_indices L buf = ixs @ [ix]" and "payload_start_offset ix = length buf"
    and "\<forall>i \<in> set ixs. index_ok buf i \<and> 2 \<le> payload_size i"
    and "in_the_past (m_prevTimestamp st) ts ffmpeg = Inr False"
  shows "onH265Data L st buf ts codec ffmpeg = Inl OutOfBounds"
proof -
  have "\<forall>i \<in> set ixs. h265_ok buf ts (m_prevTimestamp st) ffmpeg i"
    using assms(3,4) by (simp add: h265_ok_def)
  from h265.loop_fold [OF this] assms(2) show ?thesis
    by (simp add: onH265Data_def assms(1) nalu_loop_append h265_nalu_step_def byte_at_def)
qed

definition trailing :: live_env where
  "trailing = demo_live\<lparr>h265_indices := (\<lambda>buf. h265_indices demo_live buf @
     [\<lparr>start_offset = length buf - 3, payload_start_offset = length buf, payload_size = 0\<rparr>])\<rparr>"

theorem h265_empty_unit_out_of_bounds_witness:
  "onH265Data trailing demo_live_state [0, 0, 1, 38, 1,  0, 0, 1] 40 ''H265'' True = Inl OutOfBounds"
proof (rule h265_empty_unit_out_of_bounds)
  let ?b = "[0, 0, 1, 38, 1,  0, 0, 1] :: bytes"
  show "h265_indices trailing ?b = h265_indices demo_live ?b @
      [\<lparr>start_offset = length ?b - 3, payload_start_offset = length ?b, payload_size = 0\<rparr>]"
    by (simp add: trailing_def)
  show "\<forall>i \<in> set (h265_indices demo_live ?b). index_ok ?b i \<and> 2 \<le> payload_size i"
    and "in_the_past (m_prevTimestamp demo_live_state) 40 True = Inr False"
    by code_simp+
qed simp

text \<open>
  The first slice of a session whose SDP has no parameter sets is compared with a time
  stamp that was never set.
\<close>

theorem first_slice_reads_unset_time:
  assumes "h264_indices L buf = ix # ixs" and "payload_size ix \<noteq> 0" and "payload_start_offset ix < length buf"
    and "h264_type L (buf ! payload_start_offset ix) = H264Other"
    and "getInitFrames E ''H264'' sdp = []"
  shows "\<exists>st. onNewSession L E init_live ident ''video'' ''H264'' sdp ffmpeg = Inr (True, [], st) \<and>
           onH264Data L st buf ts ''H264'' ffmpeg = Inl Undefined"
  using assms
  by (simp add: onNewSession_def init_live_def onH264Data_def h264_nalu_step_def byte_at_def post_slice_def in_the_past_def)

theorem first_slice_reads_unset_time_witness:
  "\<exists>st. onNewSession demo_live demo_codec init_live ''v'' ''video'' ''H264'' ''m=video'' False = Inr (True, [], st) \<and>
     onH264Data demo_live st [0, 0, 1, 1] 40 ''H264'' False = Inl Undefined"
proof (rule first_slice_reads_unset_time)
  show "h264_indices demo_live [0, 0, 1, 1] = \<lparr>start_offset = 0, payload_start_offset = 3, payload_size = 1\<rparr> # []"
    by (simp add: demo_live_def)
  show "getInitFrames demo_codec ''H264'' ''m=video'' = []" by code_simp
qed (simp_all add: demo_live_def)

section \<open>From the SDP to the key frame\<close>

text \<open>
  A buffer that consists of NAL units of the given roles; the condition on \<open>FindNaluIndices\<close>
  and the type parser that the following property needs.
\<close>

definition consists_of :: "live_env \<Rightarrow> bytes \<Rightarrow> nalu list \<Rightarrow> bool" where
  "consists_of L buf ns \<longleftrightarrow> (\<forall>ix \<in> set (h264_indices L buf). index_ok buf ix) \<and>
     map (h264_classify L buf ''H264'') (h264_indices L buf) = ns"

lemma onData_h264:
  assumes "map_of (m_codec st) ident = Some ''H264''" and "consists_of L buf ns"
    and "cint64 (tv_sec * 1000) = Inr ms" and "cint64 (ms + to_ms tv_usec) = Inr ts"
    and "\<forall>n \<in> set ns. fst n \<noteq> OtherSlice"
  shows "onData L st ident buf tv_sec tv_usec ffmpeg
    = Inr (True, map Post (access_unit (of_int ts) (m_cfg st) ns),
           st\<lparr>m_cfg := config_after (m_cfg st) ns, m_prevTimestamp := Some (of_int ts)\<rparr>)"
proof -
  have "smap_insert ident [] (m_codec st) = m_codec st"
    using assms(1) by (simp add: smap_insert_def)
  moreover have "\<forall>ix \<in> set (h264_indices L buf). h264_ok L buf (of_int ts) (m_prevTimestamp st) ffmpeg ix"
    using assms(2,5) h264_role_codec [of L buf "''H264''" _ "[]"] by (auto simp: consists_of_def h264_ok_def)
  then have "onH264Data L st buf (of_int ts) ''H264'' ffmpeg
      = Inr (access_unit (of_int ts) (m_cfg st) ns, st\<lparr>m_cfg := config_after (m_cfg st) ns\<rparr>)"
    using assms(2) onH264Data_units by (simp add: consists_of_def)
  ultimately show ?thesis using assms(1,3,4) by (simp add: onData_def Let_def)
qed

text \<open>
  C33. The parameter sets of the SDP reach the decoder: a new H264 session announces the format
  of its SPS and nothing else, and the first IDR slice that arrives is posted as a key frame
  behind the SPS and the PPS of the SDP.
\<close>

theorem sdp_parameters_reach_key_frame:
  assumes "getInitFrames E ''H264'' sdp = [sps, pps]"
    and "consists_of L sps [(ConfigStart, Some fmt, sps)]" and "consists_of L pps [(ConfigMore, None, pps)]"
    and "consists_of L buf [(IdrSlice, None, idr)]"
    and "cint64 (tv_sec * 1000) = Inr ms" and "cint64 (ms + to_ms tv_usec) = Inr ts"
  shows "\<exists>st1 st2. onNewSession L E init_live ident ''video'' ''H264'' sdp ffmpeg = Inr (True, [Post fmt], st1) \<and>
           onData L st1 ident buf tv_sec tv_usec ffmpeg
             = Inr (True, [Post (Encoded ((sps @ pps) @ idr) (of_int ts) KeyFrame)], st2)"
proof -
  have zero: "cint64 (0 * 1000) = Inr 0" "cint64 (0 + to_ms 0) = Inr 0"
    by (simp_all add: cint64_def to_ms_def)
  let ?st0 = "init_live\<lparr>m_codec := smap_assign ident ''H264'' (m_codec init_live)\<rparr>"
  let ?st1 = "?st0\<lparr>m_cfg := sps, m_prevTimestamp := Some 0\<rparr>"
  let ?st2 = "?st0\<lparr>m_cfg := sps @ pps, m_prevTimestamp := Some 0\<rparr>"
  have "onData L ?st0 ident sps 0 0 ffmpeg = Inr (True, [Post fmt], ?st1)"
    using onData_h264 [OF _ assms(2) zero, of ?st0 ident ffmpeg]
    by (simp add: access_unit_def unit_posts_def idr_slices_def)
  moreover have "onData L ?st1 ident pps 0 0 ffmpeg = Inr (True, [], ?st2)"
    using onData_h264 [OF _ assms(3) zero, of ?st1 ident ffmpeg]
    by (simp add: access_unit_def unit_posts_def idr_slices_def)
  ultimately have "onNewSession L E init_live ident ''video'' ''H264'' sdp ffmpeg = Inr (True, [Post fmt], ?st2)"
    by (simp add: onNewSession_def assms(1))
  moreover have "\<exists>st3. onData L ?st2 ident buf tv_sec tv_usec ffmpeg
      = Inr (True, [Post (Encoded ((sps @ pps) @ idr) (of_int ts) KeyFrame)], st3)"
    using onData_h264 [OF _ assms(4-6), of ?st2 ident ffmpeg]
    by (simp add: access_unit_def unit_posts_def idr_slices_def before_idr_def)
  ultimately show ?thesis by blast
qed

theorem sdp_parameters_reach_key_frame_witness:
  "\<exists>st1 st2. onNewSession demo_live (demo_codec\<lparr>decode_sprop := (\<lambda>_. Some ([7], [8])), marker := [0, 0, 1]\<rparr>)
       init_live ''v'' ''video'' ''H264'' ''sprop-parameter-sets=Zw,aM;'' True = Inr (True, [Post (Format ''H264'' 640 480)], st1) \<and>
     onData demo_live st1 ''v'' [0, 0, 1, 5] 1 500000 True
       = Inr (True, [Post (Encoded (([0, 0, 1, 7] @ [0, 0, 1, 8]) @ [0, 0, 1, 5]) (of_int 1500) KeyFrame)], st2)"
proof (rule sdp_parameters_reach_key_frame)
  show "getInitFrames (demo_codec\<lparr>decode_sprop := (\<lambda>_. Some ([7], [8])), marker := [0, 0, 1]\<rparr>) ''H264''
      ''sprop-parameter-sets=Zw,aM;'' = [[0, 0, 1, 7], [0, 0, 1, 8]]"
    by code_simp
  show "consists_of demo_live [0, 0, 1, 7] [(ConfigStart, Some (Format ''H264'' 640 480), [0, 0, 1, 7])]"
    "consists_of demo_live [0, 0, 1, 8] [(ConfigMore, None, [0, 0, 1, 8])]"
    "consists_of demo_live [0, 0, 1, 5] [(IdrSlice, None, [0, 0, 1, 5])]"
    by code_simp+
  show "cint64 (1 * 1000) = Inr 1000" "cint64 (1000 + to_ms 500000) = Inr 1500"
    by (simp_all add: cint64_def to_ms_def)
qed

end
