(* ===== verification/Local_Capture.thy ===== *)
theory Local_Capture
  imports Null_Codec Live_Video Capturer_Factory
begin

text \<open>
  Capture from local devices: the V4L2 capture thread, which keeps the last parameter sets and
  puts them before a key frame that has none (\<open>inc/V4l2Capturer.h\<close>), the pairing of cameras
  with sound cards (\<open>inc/V4l2AlsaMap.h\<close>) and the frames of the desktop
  (\<open>src/desktopcapturer.cpp\<close>). The driver, the search for NAL units, libyuv and the files of
  \<open>/sys\<close> are parameters.
\<close>

section \<open>V4L2\<close>

text \<open>The null pointer is \<open>None\<close>.\<close>

record v4l2 =
  m_sps :: "bytes option"
  m_pps :: "bytes option"
  v_format :: string

definition init_v4l2 :: "string \<Rightarrow> v4l2" where
  "init_v4l2 format = \<lparr>m_sps = None, m_pps = None, v_format = format\<rparr>"

record nalu_scan =
  s_idr :: bool
  s_cfg :: nat
  s_state :: v4l2

definition v4l2_nalu :: "live_env \<Rightarrow> bytes \<Rightarrow> nalu_index \<Rightarrow> nalu_scan \<Rightarrow> nalu_scan res" where
  "v4l2_nalu L buf ix x =
     rbind (byte_at buf (payload_start_offset ix)) (\<lambda>b.
     case h264_type L b of
       H264Sps \<Rightarrow> rbind (nalu_bytes buf ix) (\<lambda>raw.
         Inr (x\<lparr>s_cfg := Suc (s_cfg x), s_state := (s_state x)\<lparr>m_sps := Some raw\<rparr>\<rparr>))
     | H264Pps \<Rightarrow> rbind (nalu_bytes buf ix) (\<lambda>raw.
         Inr (x\<lparr>s_cfg := Suc (s_cfg x), s_state := (s_state x)\<lparr>m_pps := Some raw\<rparr>\<rparr>))
     | H264Idr \<Rightarrow> Inr (x\<lparr>s_idr := True\<rparr>)
     | H264Sei \<Rightarrow> Inr x
     | H264Other \<Rightarrow> Inr x)"

fun v4l2_scan :: "live_env \<Rightarrow> bytes \<Rightarrow> nalu_index list \<Rightarrow> nalu_scan \<Rightarrow> nalu_scan res" where
  "v4l2_scan L buf [] x = Inr x"
| "v4l2_scan L buf (ix # ixs) x = rbind (v4l2_nalu L buf ix x) (v4l2_scan L buf ixs)"

definition pointee :: "bytes option \<Rightarrow> bytes res" where
  "pointee p = (case p of None \<Rightarrow> Inl NullDeref | Some b \<Rightarrow> Inr b)"

text \<open>\<open>add last SPS/PPS if not present before an IDR\<close>: the conditions are evaluated in order.\<close>

definition with_config :: "nalu_scan \<Rightarrow> bytes \<Rightarrow> bytes res" where
  "with_config x buf =
     (if s_idr x \<and> s_cfg x = 0 then
        rbind (pointee (m_sps (s_state x))) (\<lambda>sps.
        if sps \<noteq> [] then
          rbind (pointee (m_pps (s_state x))) (\<lambda>pps. Inr (if pps \<noteq> [] then sps @ pps @ buf else buf))
        else Inr buf)
      else Inr buf)"

text \<open>
  One readable buffer: the frame that is broadcast. The log line reads both pointers when the
  verbose level is on.
\<close>

definition v4l2_frame ::
  "live_env \<Rightarrow> bool \<Rightarrow> int \<Rightarrow> int \<Rightarrow> v4l2 \<Rightarrow> bytes \<Rightarrow> 64 word \<Rightarrow> (buffer_frame \<times> v4l2) res" where
  "v4l2_frame L verbose w h st buf now =
     rbind (v4l2_scan L buf (h264_indices L buf) \<lparr>s_idr = False, s_cfg = 0, s_state = st\<rparr>) (\<lambda>x.
     rbind (if verbose then rbind (pointee (m_sps (s_state x))) (\<lambda>_. pointee (m_pps (s_state x))) else Inr []) (\<lambda>_.
     rbind (with_config x buf) (\<lambda>content.
       Inr (\<lparr>bf_buffer = Native \<lparr>eb_width = w, eb_height = h, eb_data = content,
                                 eb_type = (if s_idr x then KeyFrame else DeltaFrame),
                                 eb_format = \<lparr>sf_name = v_format st, sf_params = []\<rparr>\<rparr>,
             bf_rtp = 0, bf_time_ms = now, bf_ntp_ms = 0\<rparr>, s_state x))))"

text \<open>The loop: each turn sees \<open>m_stop\<close> and either a time out or the result of \<open>read\<close>; a failed
  read gives a span of a negative size.\<close>

fun v4l2_CaptureThread ::
  "live_env \<Rightarrow> bool \<Rightarrow> int \<Rightarrow> int \<Rightarrow> (bool \<times> (bytes option \<times> 64 word) option) list \<Rightarrow> v4l2 \<Rightarrow> (buffer_frame list \<times> v4l2) res"
  where
  "v4l2_CaptureThread L verbose w h [] st = Inr ([], st)"
| "v4l2_CaptureThread L verbose w h ((stop, r) # rs) st =
     (if stop then Inr ([], st)
      else (case r of
              None \<Rightarrow> v4l2_CaptureThread L verbose w h rs st
            | Some (None, now) \<Rightarrow> Inl OutOfBounds
            | Some (Some buf, now) \<Rightarrow>
                rbind (v4l2_frame L verbose w h st buf now) (\<lambda>(f, st1).
                rbind (v4l2_CaptureThread L verbose w h rs st1) (\<lambda>(fs, st2). Inr (f # fs, st2)))))"

section \<open>Cameras and sound cards\<close>

text \<open>An entry of a directory of \<open>/sys/class\<close>: its name, and the file name that its link
  \<open>device\<close> points to, if there is one.\<close>

record sys_entry =
  se_name :: string
  se_device :: "string option"

definition getDeviceId :: "string option \<Rightarrow> string" where
  "getDeviceId link = (case link of None \<Rightarrow> []
     | Some filename \<Rightarrow> fst (snd (getline (CHR '':'') (istringstream filename) [])))"

text \<open>\<open>capture_node d\<close>: \<open>/dev/video<d>\<close> opens and has the capture capability.\<close>

definition index_node :: "(nat \<Rightarrow> bool) \<Rightarrow> nat \<Rightarrow> (int, int) smap \<times> int \<Rightarrow> (int, int) smap \<times> int" where
  "index_node capture_node devId r = (case r of (dev2idx, cnt) \<Rightarrow>
     if capture_node devId then (smap_assign (int devId) cnt dev2idx, cnt + 1) else (dev2idx, cnt))"

definition videoDev2Idx :: "(nat \<Rightarrow> bool) \<Rightarrow> (int, int) smap" where
  "videoDev2Idx capture_node = fst (fold (index_node capture_node) [0..<64] ([], 0))"

text \<open>A directory that does not exist has no entries; \<open>dev2Idx[n]\<close> is 0 for a new key.\<close>

fun getVideoDevices :: "(int, int) smap \<Rightarrow> sys_entry list \<Rightarrow> (string, string) smap \<Rightarrow> (string, string) smap res" where
  "getVideoDevices dev2Idx [] videodevices = Inr videodevices"
| "getVideoDevices dev2Idx (e # es) videodevices =
     (if starts_with (se_name e) ''video'' \<and> getDeviceId (se_device e) \<noteq> [] then
        rbind (atoi (drop (length ''video'') (se_name e))) (\<lambda>deviceNumber.
        let idx = (case map_of dev2Idx deviceNumber of None \<Rightarrow> 0 | Some i \<Rightarrow> i) in
        getVideoDevices (smap_insert deviceNumber 0 dev2Idx) es
          (smap_assign (''videocap://'' @ to_string idx) (getDeviceId (se_device e)) videodevices))
      else getVideoDevices dev2Idx es videodevices)"

fun getAudioDevices :: "sys_entry list \<Rightarrow> (string, string) smap \<Rightarrow> (string, string) smap res" where
  "getAudioDevices [] audiodevices = Inr audiodevices"
| "getAudioDevices (e # es) audiodevices =
     (if starts_with (se_name e) ''card'' \<and> getDeviceId (se_device e) \<noteq> [] then
        rbind (atoi (drop (length ''card'') (se_name e))) (\<lambda>deviceNumber.
        getAudioDevices es
          (smap_assign (getDeviceId (se_device e)) (''audiocap://'' @ to_string deviceNumber) audiodevices))
      else getAudioDevices es audiodevices)"

definition pair_devices :: "(string, string) smap \<Rightarrow> (string, string) smap \<Rightarrow> (string, string) smap" where
  "pair_devices videodevices audiodevices =
     fold (\<lambda>(name, deviceid) m. case map_of audiodevices deviceid of
             None \<Rightarrow> m | Some audio \<Rightarrow> smap_assign name audio m) videodevices []"

definition getV4l2AlsaMap :: "(nat \<Rightarrow> bool) \<Rightarrow> sys_entry list \<Rightarrow> sys_entry list \<Rightarrow> (string, string) smap res" where
  "getV4l2AlsaMap capture_node video_entries sound_entries =
     rbind (getVideoDevices (videoDev2Idx capture_node) video_entries []) (\<lambda>videodevices.
     rbind (getAudioDevices sound_entries []) (\<lambda>audiodevices.
       Inr (pair_devices videodevices audiodevices)))"

section \<open>The desktop\<close>

text \<open>The size of the frame that is broadcast for a captured frame of the given size.\<close>

definition desktop_size :: "int \<Rightarrow> int \<Rightarrow> int \<Rightarrow> int \<Rightarrow> (int \<times> int) res" where
  "desktop_size want_w want_h w h =
     (if want_h = 0 \<and> want_w = 0 then Inr (w, h)
      else if want_h = 0 then
        rbind (cint (h * want_w)) (\<lambda>p. rbind (cdiv p w) (\<lambda>h'. Inr (want_w, h')))
      else if want_w = 0 then
        rbind (cint (w * want_h)) (\<lambda>p. rbind (cdiv p h) (\<lambda>w'. Inr (w', want_h)))
      else Inr (want_w, want_h))"

text \<open>
  \<open>OnCaptureResult\<close>: a captured frame is its stride in bytes and its height, four bytes per
  pixel; \<open>convert\<close> is the result of libyuv. The answer is the size of the frame broadcast, if any.
\<close>

definition OnCaptureResult :: "int \<Rightarrow> int \<Rightarrow> bool \<Rightarrow> int \<Rightarrow> int \<Rightarrow> int \<Rightarrow> (int \<times> int) option res" where
  "OnCaptureResult want_w want_h success stride rows convert =
     (if success then
        rbind (cdiv stride 4) (\<lambda>w.
          if convert \<ge> 0 then rbind (desktop_size want_w want_h w rows) (\<lambda>sz. Inr (Some sz)) else Inr None)
      else Inr None)"

section \<open>Key frames carry their parameter sets\<close>

definition unit_kinds :: "live_env \<Rightarrow> bytes \<Rightarrow> h264_nalu list" where
  "unit_kinds L buf = map (\<lambda>ix. h264_type L (buf ! payload_start_offset ix)) (h264_indices L buf)"

definition units_inside :: "live_env \<Rightarrow> bytes \<Rightarrow> bool" where
  "units_inside L buf \<longleftrightarrow> (\<forall>ix \<in> set (h264_indices L buf). index_ok buf ix \<and> payload_start_offset ix < length buf)"

lemma v4l2_scan_plain:
  assumes "\<forall>ix \<in> set ixs. payload_start_offset ix < length buf"
    and "\<forall>ix \<in> set ixs. h264_type L (buf ! payload_start_offset ix) \<notin> {H264Sps, H264Pps}"
  shows "v4l2_scan L buf ixs x
    = Inr (x\<lparr>s_idr := s_idr x \<or> (\<exists>ix \<in> set ixs. h264_type L (buf ! payload_start_offset ix) = H264Idr)\<rparr>)"
  using assms
proof (induction ixs arbitrary: x)
  case (Cons ix ixs)
  then show ?case
    by (cases "h264_type L (buf ! payload_start_offset ix)") (auto simp: v4l2_nalu_def byte_at_def)
qed simp

lemma v4l2_scan_idr:
  assumes "units_inside L buf" and "H264Idr \<in> set (unit_kinds L buf)"
    and "H264Sps \<notin> set (unit_kinds L buf)" and "H264Pps \<notin> set (unit_kinds L buf)"
  shows "v4l2_scan L buf (h264_indices L buf) \<lparr>s_idr = False, s_cfg = 0, s_state = st\<rparr>
    = Inr \<lparr>s_idr = True, s_cfg = 0, s_state = st\<rparr>"
proof -
  let ?k = "\<lambda>ix. h264_type L (buf ! payload_start_offset ix)"
  have "?k ix \<notin> {H264Sps, H264Pps}" if "ix \<in> set (h264_indices L buf)" for ix
  proof -
    have "?k ix \<in> set (unit_kinds L buf)" using that by (simp add: unit_kinds_def)
    then show ?thesis using assms(3,4) by auto
  qed
  moreover obtain ix where "ix \<in> set (h264_indices L buf)" "?k ix = H264Idr"
  proof -
    from assms(2) have "H264Idr \<in> ?k ` set (h264_indices L buf)" by (simp add: unit_kinds_def)
    then show thesis by (elim imageE) (rule that, assumption, rule sym)
  qed
  then have "\<exists>ix \<in> set (h264_indices L buf). ?k ix = H264Idr" by blast
  ultimately show ?thesis using assms(1) by (subst v4l2_scan_plain) (simp_all add: units_inside_def)
qed

text \<open>
  A buffer with an IDR slice and without parameter sets is broadcast as a key frame behind the
  last SPS and PPS that were seen; before the first SPS the null pointer is followed.
\<close>

theorem v4l2_key_frame_configured:
  assumes "units_inside L buf" and "H264Idr \<in> set (unit_kinds L buf)"
    and "H264Sps \<notin> set (unit_kinds L buf)" and "H264Pps \<notin> set (unit_kinds L buf)"
    and "m_sps st = Some sps" and "m_pps st = Some pps" and "sps \<noteq> []" and "pps \<noteq> []"
  shows "\<exists>f b. v4l2_frame L verbose w h st buf now = Inr (f, st) \<and> bf_buffer f = Native b \<and>
           eb_data b = sps @ pps @ buf \<and> eb_type b = KeyFrame"
  using v4l2_scan_idr [OF assms(1-4)] assms(5-8) by (simp add: v4l2_frame_def with_config_def pointee_def)

definition demo_v4l2 :: v4l2 where
  "demo_v4l2 = \<lparr>m_sps = Some [0, 0, 1, 7], m_pps = Some [0, 0, 1, 8], v_format = ''H264''\<rparr>"

theorem v4l2_key_frame_configured_witness:
  "\<exists>f b. v4l2_frame demo_live False 640 480 demo_v4l2 [0, 0, 1, 5] 9 = Inr (f, demo_v4l2) \<and> bf_buffer f = Native b \<and>
     eb_data b = [0, 0, 1, 7] @ [0, 0, 1, 8] @ [0, 0, 1, 5] \<and> eb_type b = KeyFrame"
  by (rule v4l2_key_frame_configured)
    (simp_all add: units_inside_def unit_kinds_def demo_live_def demo_v4l2_def index_ok_def)

theorem v4l2_first_idr_crashes:
  assumes "units_inside L buf" and "H264Idr \<in> set (unit_kinds L buf)"
    and "H264Sps \<notin> set (unit_kinds L buf)" and "H264Pps \<notin> set (unit_kinds L buf)"
  shows "v4l2_frame L verbose w h (init_v4l2 format) buf now = Inl NullDeref"
  using v4l2_scan_idr [OF assms] by (simp add: v4l2_frame_def with_config_def pointee_def init_v4l2_def)

theorem v4l2_first_idr_crashes_witness:
  "v4l2_frame demo_live False 640 480 (init_v4l2 ''H264'') [0, 0, 1, 5] 9 = Inl NullDeref"
  by (rule v4l2_first_idr_crashes) (simp_all add: units_inside_def unit_kinds_def demo_live_def index_ok_def)

section \<open>The pairing\<close>

text \<open>The index of a camera is the number of capture nodes before it.\<close>

lemma videoDev2Idx_fold:
  "fold (index_node capture_node) [0..<n] ([], 0) = (m, c) \<Longrightarrow>
   c = int (card {d. d < n \<and> capture_node d}) \<and>
     (\<forall>d. map_of m (int d) = (if d < n \<and> capture_node d then Some (int (card {d'. d' < d \<and> capture_node d'})) else None))"
proof (induction n arbitrary: m c)
  case (Suc n)
  obtain m0 c0 where f: "fold (index_node capture_node) [0..<n] ([], 0) = (m0, c0)" by (meson surj_pair)
  have s: "{d. d < Suc n \<and> capture_node d} =
      (if capture_node n then insert n {d. d < n \<and> capture_node d} else {d. d < n \<and> capture_node d})"
    by (auto simp: less_Suc_eq)
  have mc: "index_node capture_node n (m0, c0) = (m, c)" using Suc.prems f by simp
  have c: "int (card {d. d < Suc n \<and> capture_node d}) = (if capture_node n then c0 + 1 else c0)"
    using Suc.IH [OF f] by (simp add: s)
  show ?case
  proof (cases "capture_node n")
    case True
    with mc have "m = smap_assign (int n) c0 m0" "c = c0 + 1" by (simp_all add: index_node_def)
    with Suc.IH [OF f] c True show ?thesis by (auto simp: less_Suc_eq)
  next
    case False
    with mc have "m = m0" "c = c0" by (simp_all add: index_node_def)
    with Suc.IH [OF f] c False show ?thesis by (auto simp: less_Suc_eq)
  qed
qed simp

theorem videoDev2Idx_counts:
  "map_of (videoDev2Idx capture_node) (int d)
    = (if d < 64 \<and> capture_node d then Some (int (card {d'. d' < d \<and> capture_node d'})) else None)"
proof -
  obtain m c where f: "fold (index_node capture_node) [0..<64] ([], 0) = (m, c)" by (meson surj_pair)
  from videoDev2Idx_fold [OF f] f show ?thesis by (simp add: videoDev2Idx_def)
qed

lemma pair_devices_fold:
  "distinct (map fst v) \<Longrightarrow> map_of (fold (\<lambda>(name, deviceid) m. case map_of a deviceid of
             None \<Rightarrow> m | Some audio \<Rightarrow> smap_assign name audio m) v m0) k
   = (case map_of v k of None \<Rightarrow> map_of m0 k
      | Some d \<Rightarrow> (case map_of a d of None \<Rightarrow> map_of m0 k | Some audio \<Rightarrow> Some audio))"
proof (induction v arbitrary: m0)
  case (Cons e v)
  obtain n d where e: "e = (n, d)" by (cases e)
  have "map_of v n = None" using Cons.prems e by (simp add: map_of_eq_None_iff)
  with Cons e show ?case by (cases "map_of a d") (simp_all split: option.splits)
qed simp

text \<open>A camera is paired exactly with the sound card that has its device id.\<close>

theorem pair_devices_same_id:
  assumes "smap_ok videodevices"
  shows "map_of (pair_devices videodevices audiodevices) name
    = Option.bind (map_of videodevices name) (map_of audiodevices)"
  using smap_ok_distinct [OF assms] unfolding smap_keys_def pair_devices_def
  by (subst pair_devices_fold) (auto split: option.splits)

theorem pair_devices_same_id_witness:
  "map_of (pair_devices [(''videocap://0'', ''1-2'')] [(''1-2'', ''audiocap://1'')]) ''videocap://0''
    = Option.bind (map_of [(''videocap://0'', ''1-2'')] ''videocap://0'') (map_of [(''1-2'', ''audiocap://1'')])"
  by (rule pair_devices_same_id) code_simp

text \<open>
  The metadata node of a camera, which does not capture, has no index and is filed under 0:
  with two such cameras the first one is paired with the sound card of the second.
\<close>

definition demo_nodes :: "sys_entry list" where
  "demo_nodes = map (\<lambda>(n, d). \<lparr>se_name = n, se_device = Some d\<rparr>)
     [(''video0'', ''1-1:1.0''), (''video1'', ''1-1:1.0''), (''video2'', ''1-2:1.0''), (''video3'', ''1-2:1.0'')]"

definition demo_cards :: "sys_entry list" where
  "demo_cards = map (\<lambda>(n, d). \<lparr>se_name = n, se_device = Some d\<rparr>) [(''card0'', ''1-1:1.2''), (''card1'', ''1-2:1.2'')]"

theorem metadata_node_takes_index_0:
  "getV4l2AlsaMap (\<lambda>d. d = 0 \<or> d = 2) demo_nodes demo_cards
    = Inr [(''videocap://0'', ''audiocap://1''), (''videocap://1'', ''audiocap://1'')]"
  by code_simp

section \<open>The size of desktop frames\<close>

text \<open>When one side is requested, the other keeps the proportions of the screen, rounded down.\<close>

theorem desktop_size_proportional:
  assumes "0 < w" and "0 < h" and "0 < want" and "in_int w" and "in_int h"
    and "h * want \<le> int_max" and "w * want \<le> int_max"
  shows "(\<exists>h'. desktop_size want 0 w h = Inr (want, h') \<and> h' * w \<le> h * want \<and> h * want < (h' + 1) * w) \<and>
         (\<exists>w'. desktop_size 0 want w h = Inr (w', want) \<and> w' * h \<le> w * want \<and> w * want < (w' + 1) * h)"
proof -
  have i: "in_int (h * want)" "in_int (w * want)" using assms by (simp_all add: in_int_nonneg)
  have "cdiv (h * want) w = Inr (h * want div w)" "cdiv (w * want) h = Inr (w * want div h)"
    using assms i by (auto intro!: cdiv_nonneg)
  moreover have "x div y * y \<le> x \<and> x < (x div y + 1) * y" if "0 < y" for x y :: int
    using that by (metis add1_zle_eq div_mult_mod_eq distrib_right mult_1 pos_mod_bound pos_mod_sign add_le_cancel_left
        add_less_cancel_left le_add_same_cancel1)
  ultimately show ?thesis using assms i by (simp add: desktop_size_def cint_def)
qed

theorem desktop_size_proportional_witness:
  "(\<exists>h'. desktop_size 640 0 1920 1080 = Inr (640, h') \<and> h' * 1920 \<le> 1080 * 640 \<and> 1080 * 640 < (h' + 1) * 1920) \<and>
   (\<exists>w'. desktop_size 0 640 1920 1080 = Inr (w', 640) \<and> w' * 1080 \<le> 1920 * 640 \<and> 1920 * 640 < (w' + 1) * 1080)"
  by (rule desktop_size_proportional) (simp_all add: in_int_def int_min_def int_max_def)

end
