(* ===== verification/Startup.thy ===== *)
theory Startup
  imports Http_Server Local_Capture
begin

text \<open>
  The start of the program (\<open>src/main.cpp\<close>) and of the manager: the command line, as
  \<open>cxxopts\<close> gives it, becomes the settings; these give the list of ICE servers, the
  configuration of the peer connection manager, the options of the HTTP server and the
  addresses of the embedded STUN and TURN servers. Reading the file system, the environment
  and the build's constants are parameters.
\<close>

section \<open>Settings\<close>

datatype audio_layer = PlatformDefaultAudio | DummyAudio | AudioLayer int

text \<open>\<open>cxxopts::ParseResult\<close>\<close>

record parsed =
  count :: "string \<Rightarrow> nat"
  as_text :: "string \<Rightarrow> string"
  as_number :: "string \<Rightarrow> int"
  as_texts :: "string \<Rightarrow> string list"

record settings =
  turnurl :: string
  localturnurl :: string
  localstunurl :: string
  stunurl :: string
  localWebrtcUdpPortRange :: string
  extraHost :: string
  logLevel :: int
  webroot :: string
  basePath :: string
  sslCertificate :: string
  audioLayer :: audio_layer
  nbthreads :: string
  passwdFile :: string
  authDomain :: string
  disableXframeOptions :: bool
  publishFilter :: string
  urls_config :: json \<comment> \<open>\<open>config\<close>\<close>
  useNullCodec :: bool
  usePlanB :: bool
  maxpc :: int
  transportType :: int
  webrtcTrialsFields :: string
  httpAddress :: string

text \<open>What the process finds: the resource directory of the build, the directory of the
  executable, the variable \<open>PORT\<close>, the JSON files and the number of \<open>LS_NONE\<close>.\<close>

record process_env =
  ressource_dir :: string
  exe_dir :: string
  port_variable :: "string option"
  read_json_file :: "string \<Rightarrow> json option" \<comment> \<open>\<open>None\<close>: no such file, or not JSON\<close>
  ls_none :: int

definition GetDefaultRessourceDir :: "process_env \<Rightarrow> string" where
  "GetDefaultRessourceDir P = (if ressource_dir P \<noteq> [] \<and> hd (ressource_dir P) = CHR ''/'' then ressource_dir P
     else exe_dir P @ ressource_dir P)"

definition default_settings :: "process_env \<Rightarrow> settings" where
  "default_settings P =
     \<lparr>turnurl = [], localturnurl = [], localstunurl = [], stunurl = ''stun.l.google.com:19302'',
      localWebrtcUdpPortRange = ''0:65535'', extraHost = [], logLevel = ls_none P, webroot = GetDefaultRessourceDir P,
      basePath = [], sslCertificate = [], audioLayer = PlatformDefaultAudio, nbthreads = [], passwdFile = [],
      authDomain = [], disableXframeOptions = False, publishFilter = ''.*'', urls_config = JNull, useNullCodec = False,
      usePlanB = False, maxpc = 0, transportType = 3,
      webrtcTrialsFields = ''WebRTC-FrameDropper/Disabled/WebRTC-Video-H26xPacketBuffer/Enabled/'',
      httpAddress = ''0.0.0.0:'' @ (case port_variable P of None \<Rightarrow> ''8000'' | Some p \<Rightarrow> p)\<rparr>"

section \<open>The command line\<close>

text \<open>\<open>config[k][...] = v\<close>\<close>

fun set_path :: "json \<Rightarrow> string list \<Rightarrow> json \<Rightarrow> json res" where
  "set_path j [] v = Inr v"
| "set_path j (k # ks) v =
     rbind (member j k) (\<lambda>m. rbind (set_path m ks v) (\<lambda>m'. set_member j k m'))"

fun register_urls :: "string list \<Rightarrow> json \<Rightarrow> json res" where
  "register_urls [] config = Inr config"
| "register_urls (url # us) config =
     rbind (set_path config [''urls'', url, ''video''] (JString url)) (register_urls us)"

text \<open>The assignments to \<open>config\<close>, in their order; the positional URLs come last.\<close>

definition config_options :: "process_env \<Rightarrow> parsed \<Rightarrow> json res" where
  "config_options P r =
     (let given = (\<lambda>k. 0 < count r k); streamName = (if given ''name'' then as_text r ''name'' else []) in
      rbind (if given ''config'' then
               (case read_json_file P (as_text r ''config'') of None \<Rightarrow> Inl JsonRuntimeError | Some j \<Rightarrow> Inr j)
             else Inr JNull) (\<lambda>c0.
      rbind (if given ''video'' \<and> streamName \<noteq> []
             then set_path c0 [''urls'', streamName, ''video''] (JString (as_text r ''video'')) else Inr c0) (\<lambda>c1.
      rbind (if given ''audio'' \<and> streamName \<noteq> []
             then set_path c1 [''urls'', streamName, ''audio''] (JString (as_text r ''audio'')) else Inr c1) (\<lambda>c2.
        if given ''urls'' then register_urls (as_texts r ''urls'') c2 else Inr c2))))"

definition audio_option :: "parsed \<Rightarrow> audio_layer res" where
  "audio_option r =
     (if 0 < count r ''audio-layer'' then
        (let audioValue = as_text r ''audio-layer'' in
         if audioValue = [] then Inr DummyAudio else rbind (atoi audioValue) (\<lambda>l. Inr (AudioLayer l)))
      else Inr PlatformDefaultAudio)"

text \<open>A value that an option replaces when it is given.\<close>

definition opt_text :: "parsed \<Rightarrow> string \<Rightarrow> string \<Rightarrow> string" where
  "opt_text r k old = (if 0 < count r k then as_text r k else old)"

definition apply_options :: "process_env \<Rightarrow> parsed \<Rightarrow> settings res" where
  "apply_options P r =
     (let d = default_settings P in
      rbind (config_options P r) (\<lambda>config.
      rbind (audio_option r) (\<lambda>layer.
        Inr \<lparr>turnurl = opt_text r ''turn'' (opt_text r ''turn-server'' (turnurl d)),
             localturnurl = opt_text r ''turn-server'' (localturnurl d),
             localstunurl = opt_text r ''stun-server'' (localstunurl d),
             stunurl = opt_text r ''stun'' (opt_text r ''stun-server'' (stunurl d)),
             localWebrtcUdpPortRange = opt_text r ''udp-range'' (localWebrtcUdpPortRange d),
             extraHost = opt_text r ''extra-host'' (extraHost d),
             logLevel = logLevel d - int (count r ''verbose''),
             webroot = opt_text r ''webroot'' (webroot d), basePath = opt_text r ''base-path'' (basePath d),
             sslCertificate = opt_text r ''cert'' (sslCertificate d), audioLayer = layer,
             nbthreads = opt_text r ''threads'' (nbthreads d), passwdFile = opt_text r ''passwd'' (passwdFile d),
             authDomain = opt_text r ''domain'' (authDomain d),
             disableXframeOptions = (0 < count r ''disable-xframe''),
             publishFilter = opt_text r ''publish-filter'' (publishFilter d), urls_config = config,
             useNullCodec = (0 < count r ''null-codec''), usePlanB = (0 < count r ''plan-b''),
             maxpc = (if 0 < count r ''maxpc'' then as_number r ''maxpc'' else maxpc d),
             transportType = (if 0 < count r ''ice-transport'' then as_number r ''ice-transport'' else transportType d),
             webrtcTrialsFields = opt_text r ''trials'' (webrtcTrialsFields d),
             httpAddress = opt_text r ''http'' (httpAddress d)\<rparr>)))"

text \<open>\<open>None\<close> is a command line that \<open>cxxopts\<close> refuses with its own exception.\<close>

datatype start = Exit int | Start settings

definition parse_command_line :: "process_env \<Rightarrow> parsed option \<Rightarrow> start res" where
  "parse_command_line P result =
     (case result of
        None \<Rightarrow> Inr (Exit 1)
      | Some r \<Rightarrow>
          if 0 < count r ''help'' then Inr (Exit 0)
          else if 0 < count r ''version'' then Inr (Exit 0)
          else rbind (apply_options P r) (\<lambda>s. Inr (Start s)))"

section \<open>The servers\<close>

definition iceServerList :: "settings \<Rightarrow> string list" where
  "iceServerList s =
     (if stunurl s \<noteq> [] \<and> stunurl s \<noteq> ''-'' then [''stun:'' @ stunurl s] else []) @
     (if turnurl s \<noteq> [] then [''turn:'' @ turnurl s] else [])"

definition http_options :: "bool \<Rightarrow> settings \<Rightarrow> string list" where
  "http_options linux s =
     [''document_root'', webroot s, ''enable_directory_listing'', ''no''] @
     (if \<not> disableXframeOptions s then [''additional_header'', ''X-Frame-Options: SAMEORIGIN''] else []) @
     [''access_control_allow_origin'', ''*'', ''listening_ports'', httpAddress s, ''enable_keep_alive'', ''yes'',
      ''keep_alive_timeout_ms'', ''1000'', ''decode_url'', ''no''] @
     (if linux then [''allow_sendfile_call'', ''no''] else []) @
     (if sslCertificate s \<noteq> [] then [''ssl_certificate'', sslCertificate s] else []) @
     (if nbthreads s \<noteq> [] then [''num_threads'', nbthreads s] else []) @
     (if passwdFile s \<noteq> [] then [''global_auth_file'', passwdFile s] else []) @
     (if authDomain s \<noteq> [] then [''authentication_domain'', authDomain s] else [])"

text \<open>Two \<open>getline\<close> with \<open>'@'\<close> into the same string, which the second leaves alone at the end.\<close>

definition turn_addr :: "string \<Rightarrow> string \<Rightarrow> string" where
  "turn_addr url old =
     (case getline (CHR ''@'') (istringstream url) old of (_, addr, st) \<Rightarrow>
      case getline (CHR ''@'') st addr of (_, addr', _) \<Rightarrow> addr')"

record embedded =
  stun_listen :: "string option"
  turn_listen :: "string option"
  turn_external :: "string option"

definition embedded_servers :: "settings \<Rightarrow> embedded" where
  "embedded_servers s =
     \<lparr>stun_listen = (if localstunurl s \<noteq> [] then Some (localstunurl s) else None),
      turn_listen = (if localturnurl s \<noteq> [] then Some (turn_addr (localturnurl s) []) else None),
      turn_external = (if localturnurl s \<noteq> [] then Some (turn_addr (turnurl s) (turn_addr (localturnurl s) [])) else None)\<rparr>"

text \<open>
  The constructor of \<open>PeerConnectionManager\<close>: \<open>base\<close> has the parameters that do not come from
  the settings, \<open>transport_of\<close> is the cast to the enumeration.
\<close>

definition manager_config ::
  "(int \<Rightarrow> ice_transport) \<Rightarrow> (string \<Rightarrow> bool) \<Rightarrow> (string \<Rightarrow> string option option) \<Rightarrow> (string, string) smap \<Rightarrow> config
     \<Rightarrow> settings \<Rightarrow> config res" where
  "manager_config transport_of inet_pton lookup alsa_map base s =
     rbind (member (urls_config s) ''urls'') (\<lambda>urls.
       Inr (base\<lparr>m_iceServerList := iceServerList s, m_config := urls, m_videoaudiomap := alsa_map,
                 m_webrtcPortRange := localWebrtcUdpPortRange s, m_useNullCodec := useNullCodec s,
                 m_usePlanB := usePlanB s, m_maxpc := maxpc s, m_transportType := transport_of (transportType s),
                 m_extraHost := resolveHostnameToIp inet_pton lookup (extraHost s)\<rparr>))"

section \<open>Paths of a configuration\<close>

fun get_path :: "json \<Rightarrow> string list \<Rightarrow> json res" where
  "get_path j [] = Inr j"
| "get_path j (k # ks) = rbind (member j k) (\<lambda>m. get_path m ks)"

lemma get_path_set_path: "set_path j ks v = Inr j' \<Longrightarrow> get_path j' ks = Inr v"
proof (induction ks arbitrary: j j')
  case (Cons k ks)
  from Cons.prems obtain m m' where "member j k = Inr m" "set_path m ks v = Inr m'" "set_member j k m' = Inr j'" by auto
  then show ?case using Cons.IH member_set_member [of j k m' j' k] by auto
qed simp

lemma get_path_set_other:
  "set_path j ks v = Inr j' \<Longrightarrow> length ls = length ks \<Longrightarrow> ls \<noteq> ks \<Longrightarrow> get_path j' ls = get_path j ls"
proof (induction ks arbitrary: j j' ls)
  case (Cons k ks)
  from Cons.prems(1) obtain m m' where m: "member j k = Inr m" "set_path m ks v = Inr m'" "set_member j k m' = Inr j'" by auto
  obtain l ls' where ls: "ls = l # ls'" using Cons.prems(2) by (cases ls) auto
  show ?case
  proof (cases "l = k")
    case True
    then have "get_path m' ls' = get_path m ls'" using Cons.IH [OF m(2), of ls'] Cons.prems(2,3) ls by simp
    then show ?thesis using True ls m member_set_member [OF m(3), of k] by simp
  next
    case False
    then show ?thesis using ls member_set_member [OF m(3), of l] by simp
  qed
qed simp

lemma register_urls_other:
  "register_urls us c = Inr c' \<Longrightarrow> n \<notin> set us \<Longrightarrow> get_path c' [''urls'', n, f] = get_path c [''urls'', n, f]"
proof (induction us arbitrary: c)
  case (Cons u us)
  from Cons.prems(1) obtain c1 where c1: "set_path c [''urls'', u, ''video''] (JString u) = Inr c1"
    "register_urls us c1 = Inr c'"
    by (auto simp del: set_path.simps)
  have "get_path c1 [''urls'', n, f] = get_path c [''urls'', n, f]"
    using get_path_set_other [OF c1(1), of "[''urls'', n, f]"] Cons.prems(2) by (simp del: get_path.simps)
  with Cons c1 show ?case by (simp del: get_path.simps)
qed simp

lemma register_urls_listed:
  "register_urls us c = Inr c' \<Longrightarrow> url \<in> set us \<Longrightarrow> get_path c' [''urls'', url, ''video''] = Inr (JString url)"
proof (induction us arbitrary: c)
  case (Cons u us)
  from Cons.prems(1) obtain c1 where c1: "set_path c [''urls'', u, ''video''] (JString u) = Inr c1"
    "register_urls us c1 = Inr c'"
    by (auto simp del: set_path.simps)
  then show ?case
    using Cons.IH [OF c1(2)] register_urls_other [OF c1(2), of url "''video''"] get_path_set_path [OF c1(1)] Cons.prems(2)
    by (cases "url \<in> set us") (auto simp del: get_path.simps)
qed simp

lemma resolve_from_path:
  assumes "get_path c [''urls'', n, f] = Inr (JString u)"
  shows "\<exists>U. member c ''urls'' = Inr U \<and> resolve_url U f n = Inr u"
proof -
  from assms obtain U e where U: "member c ''urls'' = Inr U" "member U n = Inr e" "member e f = Inr (JString u)" by auto
  then have "\<exists>m. U = JObject m \<and> map_of m n = Some e"
    by (cases U) (auto simp: member_def split: option.splits)
  with U show ?thesis by (auto simp: resolve_url_def json_defs)
qed

lemma named_registered:
  assumes "config_options P r = Inr c" and "0 < count r ''name''" and "as_text r ''name'' \<noteq> []" and "0 < count r ''video''"
  shows "get_path c [''urls'', as_text r ''name'', ''video'']
    = Inr (JString (if 0 < count r ''urls'' \<and> as_text r ''name'' \<in> set (as_texts r ''urls'') then as_text r ''name''
                    else as_text r ''video''))"
proof -
  let ?n = "as_text r ''name''"
  from assms have
    "rbind (if 0 < count r ''config'' then
              (case read_json_file P (as_text r ''config'') of None \<Rightarrow> Inl JsonRuntimeError | Some j \<Rightarrow> Inr j)
            else Inr JNull) (\<lambda>c0.
     rbind (set_path c0 [''urls'', ?n, ''video''] (JString (as_text r ''video''))) (\<lambda>c1.
     rbind (if 0 < count r ''audio'' then set_path c1 [''urls'', ?n, ''audio''] (JString (as_text r ''audio'')) else Inr c1) (\<lambda>c2.
       if 0 < count r ''urls'' then register_urls (as_texts r ''urls'') c2 else Inr c2))) = Inr c"
    unfolding config_options_def Let_def by (simp del: set_path.simps cong: if_cong)
  then obtain c0 c1 c2 where c1: "set_path c0 [''urls'', ?n, ''video''] (JString (as_text r ''video'')) = Inr c1"
    and a: "(if 0 < count r ''audio'' then set_path c1 [''urls'', ?n, ''audio''] (JString (as_text r ''audio'')) else Inr c1) = Inr c2"
    and u: "(if 0 < count r ''urls'' then register_urls (as_texts r ''urls'') c2 else Inr c2) = Inr c"
    by (blast elim: rbind_InrE)
  from a have c2: "c2 = c1 \<or> set_path c1 [''urls'', ?n, ''audio''] (JString (as_text r ''audio'')) = Inr c2"
    by (simp del: set_path.simps split: if_splits)
  have v: "get_path c2 [''urls'', ?n, ''video''] = Inr (JString (as_text r ''video''))"
    using c2 get_path_set_path [OF c1] get_path_set_other [of c1 "[''urls'', ?n, ''audio'']" _ c2 "[''urls'', ?n, ''video'']"]
    by (auto simp del: get_path.simps set_path.simps)
  show ?thesis
  proof (cases "0 < count r ''urls''")
    case True
    then have reg: "register_urls (as_texts r ''urls'') c2 = Inr c" using u by simp
    show ?thesis
      using v True register_urls_listed [OF reg, of ?n] register_urls_other [OF reg, of ?n]
      by (cases "?n \<in> set (as_texts r ''urls'')") (simp_all del: get_path.simps)
  next
    case False
    with u v show ?thesis by (simp del: get_path.simps)
  qed
qed

lemma positional_registered:
  assumes "config_options P r = Inr c" and "0 < count r ''urls''" and "url \<in> set (as_texts r ''urls'')"
  shows "get_path c [''urls'', url, ''video''] = Inr (JString url)"
proof -
  obtain c2 where "register_urls (as_texts r ''urls'') c2 = Inr c"
    using assms(1,2) unfolding config_options_def Let_def
    by (auto elim!: rbind_InrE simp del: set_path.simps register_urls.simps cong: if_cong)
  from register_urls_listed [OF this assms(3)] show ?thesis .
qed

text \<open>
  C38. Streams given on the command line are found by their names: the manager that is started
  with the settings resolves a non-empty name given with \<open>-n\<close> to the URL given with \<open>-u\<close>, unless
  a positional URL is the same text and takes its place, and every positional URL to itself,
  whatever the configuration file contains.
\<close>

theorem registered_streams_resolve:
  assumes "apply_options P r = Inr s" and "manager_config tr pton lookup alsa base s = Inr C"
  shows "(0 < count r ''name'' \<and> as_text r ''name'' \<noteq> [] \<and> 0 < count r ''video'' \<longrightarrow>
           resolve_url (m_config C) ''video'' (as_text r ''name'')
             = Inr (if 0 < count r ''urls'' \<and> as_text r ''name'' \<in> set (as_texts r ''urls'') then as_text r ''name''
                    else as_text r ''video'')) \<and>
         (0 < count r ''urls'' \<longrightarrow> (\<forall>url \<in> set (as_texts r ''urls''). resolve_url (m_config C) ''video'' url = Inr url))"
proof -
  have c: "config_options P r = Inr (urls_config s)" using assms(1) by (auto simp: apply_options_def Let_def)
  have m: "member (urls_config s) ''urls'' = Inr (m_config C)" using assms(2) by (auto simp: manager_config_def)
  have "resolve_url (m_config C) ''video'' n = Inr u" if "get_path (urls_config s) [''urls'', n, ''video''] = Inr (JString u)" for n u
    using resolve_from_path [OF that] m by auto
  then show ?thesis using named_registered [OF c] positional_registered [OF c] by blast
qed

definition demo_process :: process_env where
  "demo_process = \<lparr>ressource_dir = ''./html'', exe_dir = ''/usr/bin/'', port_variable = None,
                   read_json_file = (\<lambda>_. None), ls_none = 5\<rparr>"

definition demo_parsed :: parsed where
  "demo_parsed =
     \<lparr>count = (\<lambda>k. if k \<in> {''name'', ''video'', ''urls'', ''turn-server''} then 1 else 0),
      as_text = (\<lambda>k. if k = ''name'' then ''cam'' else if k = ''video'' then ''rtsp://h/1''
                    else if k = ''turn-server'' then ''turn:turn@0.0.0.0:3478'' else []),
      as_number = (\<lambda>_. 0), as_texts = (\<lambda>_. [''rtsp://h/2'', ''rtsp://h/3''])\<rparr>"

theorem registered_streams_resolve_witness:
  "\<exists>s C. apply_options demo_process demo_parsed = Inr s \<and>
     manager_config (\<lambda>_. kAll) (\<lambda>_. True) (\<lambda>_. None) [] demo_config s = Inr C \<and>
     resolve_url (m_config C) ''video'' ''cam'' = Inr ''rtsp://h/1'' \<and>
     (\<forall>url \<in> set [''rtsp://h/2'', ''rtsp://h/3'']. resolve_url (m_config C) ''video'' url = Inr url)"
proof -
  have "\<not> isl (apply_options demo_process demo_parsed)"
    "\<not> isl (rbind (apply_options demo_process demo_parsed) (manager_config (\<lambda>_. kAll) (\<lambda>_. True) (\<lambda>_. None) [] demo_config))"
    by code_simp+
  then obtain s C where sC: "apply_options demo_process demo_parsed = Inr s"
    "manager_config (\<lambda>_. kAll) (\<lambda>_. True) (\<lambda>_. None) [] demo_config s = Inr C"
    by (metis rbind_Inr sum.collapse(2))
  from registered_streams_resolve [OF this] sC show ?thesis by (simp add: demo_parsed_def)
qed

section \<open>Addresses and options\<close>

text \<open>
  The embedded TURN server listens on what follows the credentials of its URL, or on the whole
  URL when there are none.
\<close>

theorem turn_addr_after_credentials:
  assumes "CHR ''@'' \<notin> set user" and "CHR ''@'' \<notin> set addr" and "addr \<noteq> []"
  shows "turn_addr (user @ ''@'' @ addr) old = addr \<and> turn_addr addr old = addr"
  using assms getline_delim [of "CHR ''@''" user addr old] getline_last [of "CHR ''@''" addr]
  by (auto simp: turn_addr_def istringstream_def getline_not_good)

theorem turn_addr_after_credentials_witness:
  "turn_addr (''turn:turn'' @ ''@'' @ ''0.0.0.0:3478'') [] = ''0.0.0.0:3478'' \<and> turn_addr ''0.0.0.0:3478'' [] = ''0.0.0.0:3478''"
  by (rule turn_addr_after_credentials) simp_all

fun pair_up :: "'a list \<Rightarrow> ('a \<times> 'a) list" where
  "pair_up (k # v # xs) = (k, v) # pair_up xs"
| "pair_up _ = []"

lemma pair_up_append: "even (length xs) \<Longrightarrow> pair_up (xs @ ys) = pair_up xs @ pair_up ys"
  by (induction xs rule: pair_up.induct) auto

lemma pair_up_opt:
  "pair_up (if c then [k, v] else []) = (if c then [(k, v)] else [])"
  "even (length (if c then [k, v] else []))"
  "map_of (if c then [(k, w)] else []) k' = (if c \<and> k' = k then Some w else None)"
  by simp_all

text \<open>
  The HTTP server is given complete pairs of a name and a value; it listens on the chosen
  address, never lists directories, and forbids framing by other sites unless that was
  disabled.
\<close>

theorem http_options_pairs:
  "even (length (http_options linux s)) \<and>
   map_of (pair_up (http_options linux s)) ''listening_ports'' = Some (httpAddress s) \<and>
   map_of (pair_up (http_options linux s)) ''enable_directory_listing'' = Some ''no'' \<and>
   map_of (pair_up (http_options linux s)) ''additional_header''
     = (if disableXframeOptions s then None else Some ''X-Frame-Options: SAMEORIGIN'')"
  unfolding http_options_def
  by (simp only: pair_up_append pair_up_opt map_of_append length_append even_add)
    (simp add: pair_up_append pair_up_opt map_add_def)

text \<open>
  A configuration file that cannot be read ends the program with an exception that nothing
  catches, while a bad option exits with 1.
\<close>

theorem bad_config_file_uncaught:
  assumes "count r ''help'' = 0" and "count r ''version'' = 0" and "0 < count r ''config''"
    and "read_json_file P (as_text r ''config'') = None"
  shows "parse_command_line P (Some r) = Inl JsonRuntimeError"
  using assms by (simp add: parse_command_line_def apply_options_def config_options_def Let_def)

theorem bad_config_file_uncaught_witness:
  "parse_command_line demo_process (Some (demo_parsed\<lparr>count := (\<lambda>k. if k = ''config'' then 1 else 0)\<rparr>)) = Inl JsonRuntimeError"
  by (rule bad_config_file_uncaught) (simp_all add: demo_process_def)

end
