(* ===== verification/Process_Life.thy ===== *)
theory Process_Life
  imports Startup
begin

text \<open>
  The process around the servers (\<open>src/main.cpp\<close>): the table of options that \<open>cxxopts\<close> is
  given, the hooks and sockets of the embedded TURN server, and what happens to the manager and
  the HTTP server from the start of the main loop to the end of the process, with requests that
  arrive at any time. Sockets, \<open>realpath\<close>, \<open>dirname\<close> and the hash of STUN credentials are
  parameters.
\<close>

section \<open>The table of options\<close>

datatype option_type = Flag | Text | TextOr string | Number | Texts

text \<open>\<open>TextOr v\<close> is a text with the implicit value \<open>v\<close>.\<close>

definition option_table :: "(string \<times> string \<times> option_type) list" where
  "option_table =
     [(''h'', ''help'', Flag), (''V'', ''version'', Flag), (''v'', ''verbose'', Flag), (''C'', ''config'', Text),
      (''n'', ''name'', Text), (''u'', ''video'', Text), (''U'', ''audio'', Text), ([], ''urls'', Texts),
      (''H'', ''http'', Text), (''w'', ''webroot'', Text), (''c'', ''cert'', Text), (''N'', ''threads'', Text),
      (''A'', ''passwd'', Text), (''D'', ''domain'', Text), (''X'', ''disable-xframe'', Flag),
      (''B'', ''base-path'', Text),
      (''m'', ''maxpc'', Number), (''I'', ''ice-transport'', Number),
      (''T'', ''turn-server'', TextOr ''turn:turn@0.0.0.0:3478''), (''t'', ''turn'', Text),
      (''S'', ''stun-server'', TextOr ''0.0.0.0:3478''), (''s'', ''stun'', TextOr ''0.0.0.0:3478''),
      (''R'', ''udp-range'', Text), (''e'', ''extra-host'', Text), (''W'', ''trials'', Text),
      (''a'', ''audio-layer'', TextOr []), (''q'', ''publish-filter'', Text), (''o'', ''null-codec'', Flag),
      (''b'', ''plan-b'', Flag)]"

definition type_of_option :: "string \<Rightarrow> option_type option" where
  "type_of_option k = map_of (map snd option_table) k"

definition is_text :: "string \<Rightarrow> bool" where
  "is_text k = (case type_of_option k of Some Text \<Rightarrow> True | Some (TextOr _) \<Rightarrow> True | _ \<Rightarrow> False)"

text \<open>Two results of parsing that agree on the declared options, each read at its type.\<close>

definition same_declared :: "parsed \<Rightarrow> parsed \<Rightarrow> bool" where
  "same_declared r r' \<longleftrightarrow>
     (\<forall>k. type_of_option k \<noteq> None \<longrightarrow> count r k = count r' k) \<and>
     (\<forall>k. is_text k \<longrightarrow> as_text r k = as_text r' k) \<and>
     (\<forall>k. type_of_option k = Some Number \<longrightarrow> as_number r k = as_number r' k) \<and>
     (\<forall>k. type_of_option k = Some Texts \<longrightarrow> as_texts r k = as_texts r' k)"

lemma declared_names:
  "list_all (\<lambda>k. type_of_option k \<noteq> None) [''help'', ''version'', ''verbose'', ''config'', ''name'', ''video'',
     ''audio'', ''urls'', ''http'', ''webroot'', ''cert'', ''threads'', ''passwd'', ''domain'', ''disable-xframe'',
     ''base-path'', ''maxpc'', ''ice-transport'', ''turn-server'', ''turn'', ''stun-server'', ''stun'', ''udp-range'',
     ''extra-host'', ''trials'', ''audio-layer'', ''publish-filter'', ''null-codec'', ''plan-b'']"
  "list_all is_text [''config'', ''name'', ''video'', ''audio'', ''http'', ''webroot'', ''cert'', ''threads'', ''passwd'',
     ''domain'', ''base-path'', ''turn-server'', ''turn'', ''stun-server'', ''stun'', ''udp-range'', ''extra-host'',
     ''trials'', ''audio-layer'', ''publish-filter'']"
  "list_all (\<lambda>k. type_of_option k = Some Number) [''maxpc'', ''ice-transport'']"
  "type_of_option ''urls'' = Some Texts"
  by code_simp+

text \<open>
  C21. The program reads only options that it has declared, and each with the type of its
  declaration: what it does with a command line depends on nothing else of the result of
  parsing, so that no read of an option can throw.
\<close>

theorem options_read_as_declared:
  assumes "same_declared r r'"
  shows "parse_command_line P (Some r) = parse_command_line P (Some r')"
proof -
  have "list_all (\<lambda>k. count r k = count r' k) [''help'', ''version'', ''verbose'', ''config'', ''name'', ''video'',
     ''audio'', ''urls'', ''http'', ''webroot'', ''cert'', ''threads'', ''passwd'', ''domain'', ''disable-xframe'',
     ''base-path'', ''maxpc'', ''ice-transport'', ''turn-server'', ''turn'', ''stun-server'', ''stun'', ''udp-range'',
     ''extra-host'', ''trials'', ''audio-layer'', ''publish-filter'', ''null-codec'', ''plan-b'']"
    by (rule list.pred_mono_strong [OF declared_names(1)]) (use assms in \<open>simp add: same_declared_def\<close>)
  moreover have "list_all (\<lambda>k. as_text r k = as_text r' k) [''config'', ''name'', ''video'', ''audio'', ''http'', ''webroot'',
     ''cert'', ''threads'', ''passwd'', ''domain'', ''base-path'', ''turn-server'', ''turn'', ''stun-server'', ''stun'',
     ''udp-range'', ''extra-host'', ''trials'', ''audio-layer'', ''publish-filter'']"
    by (rule list.pred_mono_strong [OF declared_names(2)]) (use assms in \<open>simp add: same_declared_def\<close>)
  moreover have "as_number r ''maxpc'' = as_number r' ''maxpc''" "as_number r ''ice-transport'' = as_number r' ''ice-transport''"
    using declared_names(3) assms by (simp_all add: same_declared_def)
  moreover have "as_texts r ''urls'' = as_texts r' ''urls''"
    using declared_names(4) assms unfolding same_declared_def by blast
  ultimately show ?thesis
    by (simp add: parse_command_line_def apply_options_def config_options_def audio_option_def opt_text_def Let_def
        cong: if_cong)
qed

definition unread :: parsed where
  "unread = demo_parsed\<lparr>as_number := (\<lambda>k. if k = ''name'' then 5 else 0), as_text := (\<lambda>k. if k = ''maxpc'' then ''3'' else as_text demo_parsed k)\<rparr>"

theorem options_read_as_declared_witness:
  "parse_command_line demo_process (Some demo_parsed) = parse_command_line demo_process (Some unread)"
proof (rule options_read_as_declared)
  have "type_of_option ''maxpc'' = Some Number" "type_of_option ''name'' = Some Text" by code_simp+
  then show "same_declared demo_parsed unread"
    by (auto simp: same_declared_def unread_def is_text_def demo_parsed_def)
qed

section \<open>The executable and the TURN hooks\<close>

definition GetExeDir :: "(string \<Rightarrow> string option) \<Rightarrow> (string \<Rightarrow> string) \<Rightarrow> string \<Rightarrow> string" where
  "GetExeDir realpath dirname argv0 =
     (case realpath argv0 of None \<Rightarrow> [] | Some resolvedPath \<Rightarrow> dirname resolvedPath @ ''/'')"

text \<open>\<open>H user realm password\<close> is \<open>ComputeStunCredentialHash\<close>, \<open>None\<close> a hash that fails.\<close>

definition GetKey :: "(string \<Rightarrow> string \<Rightarrow> string \<Rightarrow> string option) \<Rightarrow> string \<Rightarrow> string \<Rightarrow> string option" where
  "GetKey H user realm = H user realm user"

definition ShouldRedirect :: "string \<Rightarrow> bool" where
  "ShouldRedirect from = True"

text \<open>
  The credentials that a client is given for the embedded TURN server authenticate there only
  when the password is the user name: the server derives its key from the user name alone.
\<close>

theorem turn_password_must_be_user:
  assumes "apply_options P r = Inr s" and "0 < count r ''turn-server''" and "count r ''turn'' = 0"
    and "as_text r ''turn-server'' = user @ '':'' @ pw @ ''@'' @ host"
    and "CHR '':'' \<notin> set user" and "CHR ''@'' \<notin> set host"
    and "\<And>p q. H user realm p = H user realm q \<Longrightarrow> p = q"
  shows "(''turn:'' @ user @ '':'' @ pw @ ''@'' @ host) \<in> set (iceServerList s) \<and>
    username (getIceServerFromUrl N (''turn:'' @ user @ '':'' @ pw @ ''@'' @ host) []) = user \<and>
    (H user realm (password (getIceServerFromUrl N (''turn:'' @ user @ '':'' @ pw @ ''@'' @ host) []))
       = GetKey H user realm \<longleftrightarrow> pw = user)"
proof -
  have "turnurl s = user @ '':'' @ pw @ ''@'' @ host"
    using assms(1-4) by (auto simp: apply_options_def opt_text_def Let_def)
  moreover have "split_credentials (user @ CHR '':'' # pw @ CHR ''@'' # host) = (user @ CHR '':'' # pw, host)"
    using split_credentials_at [OF assms(6), of "user @ CHR '':'' # pw"] by simp
  then have "getIceServerFromUrl N (''turn:'' @ user @ '':'' @ pw @ ''@'' @ host) []
      = \<lparr>uri = ''turn:'' @ host, username = user, password = pw\<rparr>"
    using find_colon [of "''turn''" "user @ CHR '':'' # pw @ CHR ''@'' # host"] find_colon [OF assms(5), of pw]
    by (simp add: getIceServerFromUrl_def client_uri_def)
  ultimately show ?thesis using assms(7) by (auto simp: iceServerList_def GetKey_def)
qed

theorem turn_password_must_be_user_witness:
  "\<exists>s. apply_options demo_process demo_parsed = Inr s \<and>
    ''turn:turn:turn@0.0.0.0:3478'' \<in> set (iceServerList s) \<and>
    username (getIceServerFromUrl no_net ''turn:turn:turn@0.0.0.0:3478'' []) = ''turn'' \<and>
    ((\<lambda>u r p. Some (u @ r @ p)) ''turn'' ''realm'' (password (getIceServerFromUrl no_net ''turn:turn:turn@0.0.0.0:3478'' []))
       = GetKey (\<lambda>u r p. Some (u @ r @ p)) ''turn'' ''realm'' \<longleftrightarrow> ''turn'' = ''turn'')"
proof -
  have "\<not> isl (apply_options demo_process demo_parsed)" by code_simp
  then obtain s where s: "apply_options demo_process demo_parsed = Inr s" by (metis sum.collapse(2))
  from turn_password_must_be_user [OF s, of "''turn''" "''turn''" "''0.0.0.0:3478''" "\<lambda>u r p. Some (u @ r @ p)" "''realm''" no_net]
  show ?thesis using s by (simp add: demo_parsed_def)
qed

section \<open>The embedded servers\<close>

text \<open>
  \<open>AsyncUDPSocket::Create\<close> gives null for an address that is in use; \<open>used\<close> lists these. The
  STUN server is built on the socket without a test.
\<close>

record embedded_sockets =
  stun_on :: "(string \<times> bool) option" \<comment> \<open>address, and whether the socket is not null\<close>
  turn_internal :: "(string \<times> string) list" \<comment> \<open>protocol and address\<close>
  turn_outside :: "string option"

definition start_embedded :: "bool \<Rightarrow> string list \<Rightarrow> settings \<Rightarrow> embedded_sockets" where
  "start_embedded tcp_socket used s =
     (let e = embedded_servers s;
          used1 = (case stun_listen e of None \<Rightarrow> used | Some a \<Rightarrow> a # used)
      in \<lparr>stun_on = map_option (\<lambda>a. (a, a \<notin> set used)) (stun_listen e),
          turn_internal = (case turn_listen e of
              None \<Rightarrow> []
            | Some a \<Rightarrow> (if tcp_socket then [(''tcp'', a)] else []) @ (if a \<notin> set used1 then [(''udp'', a)] else [])),
          turn_outside = turn_external e\<rparr>)"

text \<open>
  The default addresses of the two servers are the same: started together without an address,
  the TURN server has no UDP socket.
\<close>

theorem default_servers_clash:
  assumes "apply_options P r = Inr s" and "0 < count r ''stun-server''" and "0 < count r ''turn-server''"
    and "type_of_option ''stun-server'' = Some (TextOr (as_text r ''stun-server''))"
    and "type_of_option ''turn-server'' = Some (TextOr (as_text r ''turn-server''))"
  shows "\<forall>a. (''udp'', a) \<notin> set (turn_internal (start_embedded tcp used s))"
proof -
  have types: "type_of_option ''stun-server'' = Some (TextOr ''0.0.0.0:3478'')"
    "type_of_option ''turn-server'' = Some (TextOr ''turn:turn@0.0.0.0:3478'')"
    by code_simp+
  have "turn_addr ''turn:turn@0.0.0.0:3478'' [] = ''0.0.0.0:3478''" by code_simp
  with assms types have "stun_listen (embedded_servers s) = Some ''0.0.0.0:3478''"
    "turn_listen (embedded_servers s) = Some ''0.0.0.0:3478''"
    by (auto simp: apply_options_def opt_text_def embedded_servers_def Let_def)
  then show ?thesis by (simp add: start_embedded_def Let_def)
qed

definition both_servers :: parsed where
  "both_servers = demo_parsed\<lparr>count := (\<lambda>k. if k = ''stun-server'' \<or> k = ''turn-server'' then 1 else 0),
     as_text := (\<lambda>k. if k = ''stun-server'' then ''0.0.0.0:3478'' else ''turn:turn@0.0.0.0:3478'')\<rparr>"

theorem default_servers_clash_witness:
  "\<exists>s. apply_options demo_process both_servers = Inr s \<and>
     (\<forall>a. (''udp'', a) \<notin> set (turn_internal (start_embedded True [] s)))"
proof -
  have "\<not> isl (apply_options demo_process both_servers)" by code_simp
  then obtain s where s: "apply_options demo_process both_servers = Inr s" by (metis sum.collapse(2))
  have "type_of_option ''stun-server'' = Some (TextOr (as_text both_servers ''stun-server''))"
    "type_of_option ''turn-server'' = Some (TextOr (as_text both_servers ''turn-server''))"
    by code_simp+
  then show ?thesis using default_servers_clash [OF s] s by (simp add: both_servers_def)
qed

section \<open>From the main loop to the exit\<close>

text \<open>
  The process from its start to its end: the server with its manager, whether the manager is
  deleted (\<open>delete webRtcServer\<close> in \<open>sighandler\<close>), whether the main loop is told to quit, whether
  the handlers of the HTTP server exist (its destructor deletes them before the base class stops
  the threads of the server), and whether civetweb accepts requests.
\<close>

record 'pc process =
  serving :: "'pc server"
  webRtcServer :: bool \<comment> \<open>not yet deleted\<close>
  quitting :: bool
  handlers :: bool
  civet_open :: bool

definition start_process :: "config \<Rightarrow> 'pc process option" where
  "start_process C =
     (if InitializePeerConnection C
      then Some \<lparr>serving = init_server, webRtcServer = True, quitting = False, handlers = True, civet_open = True\<rparr>
      else None)"

definition sighandler :: "'pc process \<Rightarrow> 'pc process" where
  "sighandler p = p\<lparr>webRtcServer := False, quitting := True\<rparr>"

text \<open>The methods for which \<open>RequestHandler\<close> overrides the handler of civetweb.\<close>

definition handled_methods :: "string list" where
  "handled_methods = [''GET'', ''POST'', ''PATCH'', ''DELETE'']"

text \<open>The functions of the API that capture \<open>this\<close>: all but \<open>version\<close> and \<open>log\<close>.\<close>

definition uses_manager :: "api_op \<Rightarrow> bool" where
  "uses_manager f \<longleftrightarrow> f \<noteq> ApiVersion \<and> f \<noteq> ApiLog"

definition proc_request ::
  "('pc, 'sd, 'cand) server_env \<Rightarrow> moment \<Rightarrow> string \<times> api_op \<Rightarrow> request_info \<Rightarrow> string \<Rightarrow> 'pc process
     \<Rightarrow> (string option \<times> 'pc process) res" where
  "proc_request E M h req body p =
     (if \<not> civet_open p then Inr (None, p)
      else if \<not> handlers p then Inl UseAfterFree
      else if request_method req \<notin> set handled_methods then Inr (None, p)
      else if \<not> webRtcServer p \<and> uses_manager (snd h) then Inl UseAfterFree
      else rbind (handle E M h req body (serving p)) (\<lambda>(resp, sv').
             Inr (Some resp, p\<lparr>serving := sv'\<rparr>)))"

inductive proc_step :: "('pc, 'sd, 'cand) server_env \<Rightarrow> 'pc process \<Rightarrow> 'pc process \<Rightarrow> bool" for E where
  request: "h \<in> set (api_table (env_base E)) \<Longrightarrow> proc_request E M h req body p = Inr (r, p') \<Longrightarrow> proc_step E p p'"
| webrtc: "webRtcServer p \<Longrightarrow> server_step E (serving p) sv' \<Longrightarrow> proc_step E p (p\<lparr>serving := sv'\<rparr>)"
| sigint: "handlers p \<Longrightarrow> proc_step E p (sighandler p)"
| delete_handlers: "quitting p \<Longrightarrow> proc_step E p (p\<lparr>handlers := False\<rparr>)"
| close: "\<not> handlers p \<Longrightarrow> proc_step E p (p\<lparr>civet_open := False\<rparr>)"

definition proc_ok :: "('pc, 'sd, 'cand) server_env \<Rightarrow> 'pc process \<Rightarrow> bool" where
  "proc_ok E p \<longleftrightarrow> served E (serving p) \<and> (quitting p \<longleftrightarrow> \<not> webRtcServer p) \<and>
     (\<not> quitting p \<longrightarrow> handlers p \<and> civet_open p)"

lemma served_step: "served E sv \<Longrightarrow> server_step E sv sv' \<Longrightarrow> served E sv'"
  unfolding served_def by (rule rtranclp.rtrancl_into_rtrancl)

interpretation proc: step_invariant "proc_step E" "proc_ok E"
  for E :: "('pc, 'sd, 'cand) server_env"
proof
  fix p p' :: "'pc process"
  assume ok: "proc_ok E p" and "proc_step E p p'"
  from this(2) show "proc_ok E p'"
  proof cases
    case (request h M req body r)
    then show ?thesis
      using ok served_step [OF _ server_step.http [OF request(1)]]
      by (fastforce simp: proc_ok_def proc_request_def split: if_splits option.splits)
  next
    case (webrtc sv')
    then show ?thesis
      using ok by (auto simp: proc_ok_def intro: served_step)
  qed (use ok in \<open>auto simp: proc_ok_def sighandler_def\<close>)
qed

definition process_run :: "('pc, 'sd, 'cand) server_env \<Rightarrow> 'pc process \<Rightarrow> bool" where
  "process_run E p \<longleftrightarrow> (\<exists>p0. start_process (env_config E) = Some p0 \<and> (proc_step E)\<^sup>*\<^sup>* p0 p)"

lemma process_run_ok: "process_run E p \<Longrightarrow> proc_ok E p"
  unfolding process_run_def using proc.steps_inv [of E]
  by (auto simp: start_process_def proc_ok_def served_def split: if_splits)

lemma handle_session_op:
  assumes "served E sv" and "f \<in> set session_ops"
  shows "\<exists>resp sv'. handle E M (path, f) req body sv = Inr (resp, sv')"
proof -
  let ?sv = "sv\<lparr>requests := (requests sv)(path := Suc (requests sv path))\<rparr>"
  have "mgr_ok (mgr ?sv)" using reachable_ok [OF served_reachable [OF assms(1)]] by simp
  from run_session_op [OF this assms(2)] obtain j sv' where
    "run_api E M f req (getInputMessage (env_civet E) req body) ?sv = Inr ((200, [], j), sv')" by blast
  moreover obtain code answer where "fill_out (env_civet E) 200 j = Inr (code, answer)"
    by (cases j) (auto simp: fill_out_def json_defs)
  ultimately show ?thesis by (simp add: handle_def)
qed

text \<open>
  C20. Over the whole life of the process, a request about a session that the HTTP server accepts is
  answered as long as no SIGINT has arrived. From the SIGINT until the server is closed, it is run
  on a deleted manager, if its function uses the manager, or by a deleted handler.
\<close>

theorem requests_answered_until_sigint:
  assumes "process_run E p" and "civet_open p" and "f \<in> set session_ops"
    and "request_method req \<in> set handled_methods"
  shows "if quitting p \<and> (uses_manager f \<or> \<not> handlers p) then proc_request E M (path, f) req body p = Inl UseAfterFree
         else \<exists>resp p'. proc_request E M (path, f) req body p = Inr (Some resp, p')"
proof (cases "quitting p \<and> (uses_manager f \<or> \<not> handlers p)")
  case True
  then show ?thesis using process_run_ok [OF assms(1)] assms by (auto simp: proc_ok_def proc_request_def)
next
  case False
  have ok: "served E (serving p)" "quitting p \<longleftrightarrow> \<not> webRtcServer p" "\<not> quitting p \<longrightarrow> handlers p"
    using process_run_ok [OF assms(1)] by (auto simp: proc_ok_def)
  obtain resp sv' where "handle E M (path, f) req body (serving p) = Inr (resp, sv')"
    using handle_session_op [OF ok(1) assms(3)] by blast
  with ok(2,3) False show ?thesis using assms by (auto simp: proc_request_def)
qed

text \<open>The process that has served an offer, before and after SIGINT.\<close>

definition demo_process_state :: "bool \<Rightarrow> sender list process" where
  "demo_process_state stopped =
     (let p = \<lparr>serving = demo_server, webRtcServer = True, quitting = False, handlers = True, civet_open = True\<rparr>
      in if stopped then sighandler p else p)"

lemma demo_process_run: "process_run demo_server_env (demo_process_state b)"
proof -
  let ?p0 = "\<lparr>serving = init_server, webRtcServer = True, quitting = False, handlers = True, civet_open = True\<rparr> :: sender list process"
  have start: "start_process (env_config demo_server_env) = Some ?p0"
    by (simp add: start_process_def InitializePeerConnection_def demo_server_env_def demo_config_def)
  have "(proc_step demo_server_env)\<^sup>*\<^sup>* ?p0 (?p0\<lparr>serving := sv\<rparr>)" if "(server_step demo_server_env)\<^sup>*\<^sup>* init_server sv" for sv
    using that
  proof (induction rule: rtranclp_induct)
    case (step sv sv')
    then show ?case
      using proc_step.webrtc [of "?p0\<lparr>serving := sv\<rparr>" demo_server_env sv']
      by (simp add: rtranclp.rtrancl_into_rtrancl)
  qed simp
  then have run: "(proc_step demo_server_env)\<^sup>*\<^sup>* ?p0 (demo_process_state False)"
    using demo_server_served by (simp add: served_def demo_process_state_def)
  moreover have "proc_step demo_server_env (demo_process_state False) (demo_process_state True)"
    using proc_step.sigint [of "demo_process_state False"] by (simp add: demo_process_state_def)
  ultimately have "(proc_step demo_server_env)\<^sup>*\<^sup>* ?p0 (demo_process_state b)"
    by (cases b) (auto intro: rtranclp.rtrancl_into_rtrancl)
  with start show ?thesis by (auto simp: process_run_def)
qed

theorem requests_answered_until_sigint_witness:
  "(\<exists>resp p'. proc_request demo_server_env demo_moment (''/api/hangup'', ApiHangup)
       (demo_request ''/api/hangup'' (Some ''peerid=p'')) [] (demo_process_state False) = Inr (Some resp, p')) \<and>
   proc_request demo_server_env demo_moment (''/api/hangup'', ApiHangup)
     (demo_request ''/api/hangup'' (Some ''peerid=p'')) [] (demo_process_state True) = Inl UseAfterFree"
  using requests_answered_until_sigint [OF demo_process_run, of False ApiHangup "demo_request ''/api/hangup'' (Some ''peerid=p'')"
      demo_moment "''/api/hangup''" "[]"]
    requests_answered_until_sigint [OF demo_process_run, of True ApiHangup "demo_request ''/api/hangup'' (Some ''peerid=p'')"
      demo_moment "''/api/hangup''" "[]"]
  by (simp add: demo_process_state_def sighandler_def session_ops_def handled_methods_def demo_request_def uses_manager_def)

end
