(* ===== verification/Peer_Concurrency.thy ===== *)
theory Peer_Concurrency
  imports Peer_Limits "HOL-Library.Multiset"
begin

text \<open>
  Requests that run at the same time. The HTTP server calls the manager from several threads;
  \<open>m_peerMapMutex\<close> and \<open>m_streamMapMutex\<close> protect single accesses to the two maps, not a
  whole request. Here \<open>hangUp\<close>, \<open>createOffer\<close> and \<open>getAnswer\<close> are sequences of steps, each
  of which holds a lock at most once, and the threads interleave. An uninterrupted thread does what
  the operation of \<open>Peer_Manager\<close> does. Shown over all interleavings: which pointers stay
  valid, that every request ends, what the second look under the lock guarantees, and which
  guarantees of the sequential manager are lost.
\<close>

section \<open>Threads\<close>

datatype 'sd kind = ForOffer | ForAnswer 'sd bool bool \<comment> \<open>offer, wait for gathering, null codec\<close>

record 'sd request =
  q_peerid :: string
  q_video :: string
  q_audio :: string
  q_opts :: string
  q_now :: "64 word"
  q_kind :: "'sd kind"

datatype 'sd outcome = HungUp json | Offered json | Answered "'sd option"

text \<open>
  Where a thread is. The first four places belong to \<open>hangUp\<close>, called by a client (\<open>None\<close>) or
  by a request that evicts a peer and goes on (\<open>Some\<close>). The numbers are pointers to observers
  that the thread holds in a local variable.
\<close>

datatype 'sd thread =
    HangUp "'sd request option" string
  | Unregistered "'sd request option" nat
  | Releasing "'sd request option" nat "sender list"
  | Erasing "'sd request option" nat string sender "sender list"
  | Limiting "'sd request"
  | Creating "'sd request"
  | Registering "'sd request" nat
  | Looking "'sd request" nat
  | Opening "'sd request" nat
  | Inserting "'sd request" nat stream_pair
  | Attaching "'sd request" nat
  | Offering "'sd request" nat
  | Answering "'sd request" nat
  | Polling "'sd request" nat nat nat "'sd option" \<comment> \<open>poll number, retries left\<close>
  | Detached nat \<comment> \<open>started by \<open>OnIceConnectionChange\<close>, with the captured \<open>this\<close>\<close>
  | Ended "'sd outcome"

text \<open>
  A peer connection is counted by reference: one that a thread still uses outlives its observer,
  closed.
\<close>

record 'pc shared =
  mg :: "'pc manager"
  kept :: "nat \<Rightarrow> 'pc option"

definition conn :: "'pc shared \<Rightarrow> nat \<Rightarrow> 'pc option" where
  "conn S a = (case heap (mg S) a of Some obs \<Rightarrow> m_pc obs | None \<Rightarrow> kept S a)"

definition put_conn :: "nat \<Rightarrow> 'pc option \<Rightarrow> 'pc shared \<Rightarrow> 'pc shared" where
  "put_conn a pc S =
     (if heap (mg S) a \<noteq> None then S\<lparr>mg := put_pc_opt a pc (mg S)\<rparr>
      else S\<lparr>kept := (kept S)(a := pc)\<rparr>)"

definition drop_observer :: "('pc \<Rightarrow> 'pc) \<Rightarrow> nat \<Rightarrow> 'pc shared \<Rightarrow> 'pc shared" where
  "drop_observer close a S =
     S\<lparr>mg := delete_observer a (mg S), kept := (kept S)(a := map_option close (conn S a))\<rparr>"

section \<open>Steps\<close>

definition request_null :: "config \<Rightarrow> 'sd request \<Rightarrow> bool" where
  "request_null C r = (case q_kind r of ForOffer \<Rightarrow> m_useNullCodec C | ForAnswer _ _ n \<Rightarrow> n)"

text \<open>What \<open>AddStreams\<close> computes from its arguments and the configuration alone.\<close>

definition stream_request ::
  "config \<Rightarrow> 'sd request \<Rightarrow> (options \<times> string \<times> string \<times> string) res" where
  "stream_request C r =
     rbind (merge_options (m_config C) (q_video r) (q_opts r)) (\<lambda>optstring.
     let opts = parse_options optstring in
     rbind (resolve_url (m_config C) ''video'' (q_video r)) (\<lambda>video.
     rbind (resolve_url (m_config C) ''audio'' (q_audio r)) (\<lambda>audio.
       Inr (opts, video, audio,
            stream_label (hash_fn C) (q_video r) (q_audio r) (capturer_options video audio opts)
              (request_null C r)))))"

definition refused :: "'sd request \<Rightarrow> 'sd thread" where
  "refused r = Ended (case q_kind r of ForOffer \<Rightarrow> Offered JNull | ForAnswer _ _ _ \<Rightarrow> Answered None)"

definition after_hangup :: "'sd request option \<Rightarrow> json \<Rightarrow> 'sd thread" where
  "after_hangup k j = (case k of None \<Rightarrow> Ended (HungUp j) | Some r \<Rightarrow> Creating r)"

definition removed :: "('pc, 'sd, 'cand) webrtc \<Rightarrow> nat \<Rightarrow> sender \<Rightarrow> 'pc shared \<Rightarrow> 'pc shared" where
  "removed W a s S = put_conn a (map_option (\<lambda>pc. remove_track W pc s) (conn S a)) S"

fun hangup_step ::
  "('pc, 'sd, 'cand) webrtc \<Rightarrow> ('pc \<Rightarrow> 'pc) \<Rightarrow> 'pc shared \<Rightarrow> 'sd thread \<Rightarrow> ('sd thread \<times> 'pc shared) res" where
  "hangup_step W close S (HangUp k peerid) =
     Inr (case map_of (peer_map (mg S)) peerid of
            None \<Rightarrow> (after_hangup k JNull, S)
          | Some a \<Rightarrow> (Unregistered k a,
              S\<lparr>mg := (mg S)\<lparr>peer_map := smap_erase peerid (peer_map (mg S))\<rparr>\<rparr>))"
| "hangup_step W close S (Unregistered k a) =
     rbind (deref (mg S) a) (\<lambda>obs. rbind (nonnull (m_pc obs)) (\<lambda>pc. Inr (Releasing k a (senders W pc), S)))"
| "hangup_step W close S (Releasing k a []) =
     rbind (deref (mg S) a) (\<lambda>_. Inr (after_hangup k (JBool True), drop_observer close a S))"
| "hangup_step W close S (Releasing k a (s # ss)) =
     (case sender_label s of
        None \<Rightarrow> Inr (Releasing k a ss, S)
      | Some streamLabel \<Rightarrow>
          rbind (streamStillUsed W (mg S) streamLabel) (\<lambda>stillUsed.
            Inr (if stillUsed then (Releasing k a ss, removed W a s S)
                 else (Erasing k a streamLabel s ss, S))))"
| "hangup_step W close S (Erasing k a streamLabel s ss) =
     Inr (Releasing k a ss, removed W a s
       (S\<lparr>mg := (mg S)\<lparr>stream_map := smap_erase streamLabel (stream_map (mg S))\<rparr>\<rparr>))"
| "hangup_step W close S t = Inr (t, S)"

definition limit_step :: "config \<Rightarrow> 'pc shared \<Rightarrow> 'sd request \<Rightarrow> ('sd thread \<times> 'pc shared) res" where
  "limit_step C S r =
     rbind (getOldestPeerCannection C (mg S)) (\<lambda>oldestpeerid.
       Inr (if oldestpeerid \<noteq> [] then HangUp (Some r) oldestpeerid else Creating r, S))"

text \<open>
  The rest of \<open>CreatePeerConnection\<close>; \<open>getAnswer\<close> deletes an observer whose connection is null
  before anybody else knows it.
\<close>

definition create_step ::
  "config \<Rightarrow> ('pc, 'sd, 'cand) webrtc \<Rightarrow> ('pc \<Rightarrow> 'pc) \<Rightarrow> 'pc shared \<Rightarrow> 'sd request
     \<Rightarrow> ('sd thread \<times> 'pc shared) res" where
  "create_step C W close S r =
     rbind (peer_config C) (\<lambda>cfg.
       if \<not> factory_of C (request_null C r) then Inr (refused r, S)
       else
         let m = mg S; a = next_addr m;
             obs = PeerConnectionObserver W (q_peerid r) cfg (request_null C r) (q_now r);
             S1 = S\<lparr>mg := m\<lparr>heap := (heap m)(a \<mapsto> obs), next_addr := Suc a\<rparr>\<rparr>
         in Inr (case q_kind r of
                   ForOffer \<Rightarrow> (Looking r a, S1)
                 | ForAnswer _ _ _ \<Rightarrow>
                     if m_pc obs = None then (refused r, drop_observer close a S1)
                     else (Registering r a, S1)))"

definition register_step :: "'pc shared \<Rightarrow> 'sd request \<Rightarrow> nat \<Rightarrow> 'sd thread \<times> 'pc shared" where
  "register_step S r a =
     (case q_kind r of ForOffer \<Rightarrow> Offering r a | ForAnswer _ _ _ \<Rightarrow> Looking r a,
      S\<lparr>mg := register_peer (q_peerid r) a (mg S)\<rparr>)"

text \<open>The first look of \<open>AddStreams\<close> at the stream map, and what precedes it.\<close>

definition look_step ::
  "config \<Rightarrow> ('pc, 'sd, 'cand) webrtc \<Rightarrow> 'pc shared \<Rightarrow> 'sd request \<Rightarrow> nat \<Rightarrow> ('sd thread \<times> 'pc shared) res" where
  "look_step C W S r a =
     (if \<not> factory_of C (request_null C r) then Inr (refused r, S)
      else
        rbind (stream_request C r) (\<lambda>(opts, video, audio, streamLabel).
        rbind (apply_bitrate W opts (conn S a)) (\<lambda>pc.
          Inr (if map_of (stream_map (mg S)) streamLabel = None then Opening r a else Attaching r a,
               put_conn a pc S))))"

definition open_step ::
  "config \<Rightarrow> 'pc shared \<Rightarrow> 'sd request \<Rightarrow> nat \<Rightarrow> ('sd thread \<times> 'pc shared) res" where
  "open_step C S r a =
     rbind (stream_request C r) (\<lambda>(opts, video, audio, streamLabel).
     rbind (CreateVideoSource (capture C) video opts (request_null C r)) (\<lambda>videoSource.
     rbind (CreateAudioSource (capture C) (adm C) (adm_log (mg S)) audio opts) (\<lambda>(audioSource, log).
       Inr (Inserting r a (videoSource, audioSource), S\<lparr>mg := (mg S)\<lparr>adm_log := log\<rparr>\<rparr>))))"

text \<open>\<open>if (m_stream_map.find(streamLabel) == m_stream_map.end()) ...\<close> under the lock\<close>

definition insert_step ::
  "config \<Rightarrow> 'pc shared \<Rightarrow> 'sd request \<Rightarrow> nat \<Rightarrow> stream_pair \<Rightarrow> ('sd thread \<times> 'pc shared) res" where
  "insert_step C S r a pair =
     rbind (stream_request C r) (\<lambda>(opts, video, audio, streamLabel).
       Inr (Attaching r a,
            S\<lparr>mg := (mg S)\<lparr>stream_map := smap_insert streamLabel pair (stream_map (mg S))\<rparr>\<rparr>))"

definition attach_step ::
  "config \<Rightarrow> ('pc, 'sd, 'cand) webrtc \<Rightarrow> 'pc shared \<Rightarrow> 'sd request \<Rightarrow> nat \<Rightarrow> ('sd thread \<times> 'pc shared) res" where
  "attach_step C W S r a =
     rbind (stream_request C r) (\<lambda>(opts, video, audio, streamLabel).
       case map_of (stream_map (mg S)) streamLabel of
         None \<Rightarrow> Inr (refused r, S)
       | Some pair \<Rightarrow>
           rbind (add_tracks W pair streamLabel (conn S a)) (\<lambda>(pc, ret).
             Inr (if \<not> ret then refused r
                  else (case q_kind r of ForOffer \<Rightarrow> Registering r a | ForAnswer _ _ _ \<Rightarrow> Answering r a),
                  put_conn a pc S)))"

definition offer_step ::
  "('pc, 'sd, 'cand) webrtc \<Rightarrow> 'pc shared \<Rightarrow> 'sd request \<Rightarrow> nat \<Rightarrow> ('sd thread \<times> 'pc shared) res" where
  "offer_step W S r a =
     rbind (nonnull (conn S a)) (\<lambda>p.
       case creation_promise W (create_offer W p) of (p', desc) \<Rightarrow>
         Inr (Ended (Offered (case desc of Some (Some d) \<Rightarrow> description_json W d | Some None \<Rightarrow> JNull | None \<Rightarrow> JNull)),
              put_conn a (Some p') S))"

definition answer_step ::
  "('pc, 'sd, 'cand) webrtc \<Rightarrow> 'pc shared \<Rightarrow> 'sd request \<Rightarrow> nat \<Rightarrow> ('sd thread \<times> 'pc shared) res" where
  "answer_step W S r a =
     (case q_kind r of
        ForOffer \<Rightarrow> Inr (refused r, S)
      | ForAnswer sd waitgathering _ \<Rightarrow>
          rbind (nonnull (conn S a)) (\<lambda>p.
            case set_remote W p sd of (p1, _) \<Rightarrow>
            case creation_promise W (create_answer W p1) of (p2, desc) \<Rightarrow>
            let d = (case desc of Some (Some d) \<Rightarrow> Some d | Some None \<Rightarrow> None | None \<Rightarrow> None)
            in Inr (if waitgathering then Polling r a 0 5 d else Ended (Answered d), put_conn a (Some p2) S)))"

text \<open>\<open>peerConnectionObserver->getGatheringState()\<close>: through the observer, which is registered by now.\<close>

definition poll_step ::
  "('pc, 'sd, 'cand) webrtc \<Rightarrow> 'pc shared \<Rightarrow> 'sd request \<Rightarrow> nat \<Rightarrow> nat \<Rightarrow> nat \<Rightarrow> 'sd option
     \<Rightarrow> ('sd thread \<times> 'pc shared) res" where
  "poll_step W S r a poll retry d =
     rbind (deref (mg S) a) (\<lambda>obs.
     rbind (nonnull (m_pc obs)) (\<lambda>pc.
       Inr (if \<not> gathering_complete W pc poll \<and> 0 < retry
            then (Polling r a (Suc poll) (retry - 1) d, S\<lparr>mg := (mg S)\<lparr>waits := Suc (waits (mg S))\<rparr>\<rparr>)
            else (Ended (Answered d), S))))"

text \<open>\<open>m_peerConnectionManager->hangUp(m_peerid)\<close> in the thread of a failed connection\<close>

definition detached_step :: "'pc shared \<Rightarrow> nat \<Rightarrow> ('sd thread \<times> 'pc shared) res" where
  "detached_step S a = rbind (deref (mg S) a) (\<lambda>obs. Inr (HangUp None (m_peerid obs), S))"

fun thread_step ::
  "config \<Rightarrow> ('pc, 'sd, 'cand) webrtc \<Rightarrow> ('pc \<Rightarrow> 'pc) \<Rightarrow> 'pc shared \<Rightarrow> 'sd thread \<Rightarrow> ('sd thread \<times> 'pc shared) res" where
  "thread_step C W close S (Limiting r) = limit_step C S r"
| "thread_step C W close S (Creating r) = create_step C W close S r"
| "thread_step C W close S (Registering r a) = Inr (register_step S r a)"
| "thread_step C W close S (Looking r a) = look_step C W S r a"
| "thread_step C W close S (Opening r a) = open_step C S r a"
| "thread_step C W close S (Inserting r a pair) = insert_step C S r a pair"
| "thread_step C W close S (Attaching r a) = attach_step C W S r a"
| "thread_step C W close S (Offering r a) = offer_step W S r a"
| "thread_step C W close S (Answering r a) = answer_step W S r a"
| "thread_step C W close S (Polling r a poll retry d) = poll_step W S r a poll retry d"
| "thread_step C W close S (Detached a) = detached_step S a"
| "thread_step C W close S t = hangup_step W close S t"

section \<open>Every request ends\<close>

text \<open>
  A thread only moves forward; the loop over the senders and the polling count down.
\<close>

fun rank :: "'sd thread \<Rightarrow> nat \<times> nat" where
  "rank (Limiting r) = (14, 0)"
| "rank (Detached a) = (14, 0)"
| "rank (HangUp k p) = (13, 0)"
| "rank (Unregistered k a) = (12, 0)"
| "rank (Releasing k a ss) = (11, 2 * length ss)"
| "rank (Erasing k a l s ss) = (11, 2 * length ss + 1)"
| "rank (Creating r) = (10, 0)"
| "rank (Registering r a) = (if q_kind r = ForOffer then 4 else 9, 0)"
| "rank (Looking r a) = (8, 0)"
| "rank (Opening r a) = (7, 0)"
| "rank (Inserting r a p) = (6, 0)"
| "rank (Attaching r a) = (5, 0)"
| "rank (Offering r a) = (3, 0)"
| "rank (Answering r a) = (2, 0)"
| "rank (Polling r a poll n d) = (1, n)"
| "rank (Ended j) = (0, 0)"

definition rank_less :: "((nat \<times> nat) \<times> (nat \<times> nat)) set" where
  "rank_less = less_than <*lex*> less_than"

lemma wf_rank_less: "wf rank_less"
  by (simp add: rank_less_def wf_lex_prod)

lemma rank_less_iff [simp]: "((a, b), (c, d)) \<in> rank_less \<longleftrightarrow> a < c \<or> a = c \<and> b < d"
  by (auto simp: rank_less_def)

lemma rank_refused [simp]: "rank (refused r) = (0, 0)"
  by (simp add: refused_def)

lemma rank_after_hangup: "rank (after_hangup k j) = (if k = None then 0 else 10, 0)"
  by (simp add: after_hangup_def split: option.splits)

lemmas step_defs = limit_step_def create_step_def register_step_def look_step_def open_step_def
  insert_step_def attach_step_def offer_step_def answer_step_def poll_step_def detached_step_def

definition is_ended :: "'sd thread \<Rightarrow> bool" where
  "is_ended t = (case t of Ended _ \<Rightarrow> True | _ \<Rightarrow> False)"

lemma hangup_step_rank:
  assumes "hangup_step W close S t = Inr (t', S')" and "10 < fst (rank t)" and "fst (rank t) < 14"
  shows "(rank t', rank t) \<in> rank_less"
  using assms
  by (cases "(W, close, S, t)" rule: hangup_step.cases)
     (auto simp: rank_after_hangup Let_def split: if_splits option.splits)

lemma thread_step_rank:
  assumes "thread_step C W close S t = Inr (t', S')" and "\<not> is_ended t"
  shows "(rank t', rank t) \<in> rank_less"
proof (cases t)
  case (HangUp k p)
  then show ?thesis using assms(1) hangup_step_rank [of W close S t t' S'] by simp
next
  case (Unregistered k a)
  then show ?thesis using assms(1) hangup_step_rank [of W close S t t' S'] by simp
next
  case (Releasing k a ss)
  then show ?thesis using assms(1) hangup_step_rank [of W close S t t' S'] by simp
next
  case (Erasing k a l s ss)
  then show ?thesis using assms(1) hangup_step_rank [of W close S t t' S'] by simp
next
  case (Ended j)
  then show ?thesis using assms(2) by (simp add: is_ended_def)
qed (use assms(1) in \<open>auto simp: step_defs Let_def split: if_splits option.splits kind.splits prod.splits\<close>)

text \<open>The run of a thread that nothing interrupts.\<close>

definition outcome_of :: "'sd thread \<Rightarrow> 'sd outcome" where
  "outcome_of t = (case t of Ended j \<Rightarrow> j | _ \<Rightarrow> HungUp JNull)"

function alone ::
  "config \<Rightarrow> ('pc, 'sd, 'cand) webrtc \<Rightarrow> ('pc \<Rightarrow> 'pc) \<Rightarrow> 'pc shared \<Rightarrow> 'sd thread \<Rightarrow> ('sd outcome \<times> 'pc shared) res" where
  "alone C W close S t =
     (if is_ended t then Inr (outcome_of t, S)
      else rbind (thread_step C W close S t) (\<lambda>(t', S'). alone C W close S' t'))"
  by pat_completeness auto
termination
  by (relation "inv_image rank_less (\<lambda>(C, W, close, S, t). rank t)")
     (auto simp: wf_rank_less intro: thread_step_rank simp del: thread_step.simps)

declare alone.simps [simp del]

lemma alone_Ended [simp]: "alone C W close S (Ended j) = Inr (j, S)"
  by (simp add: alone.simps is_ended_def outcome_of_def)

lemma alone_step:
  "\<not> is_ended t \<Longrightarrow> alone C W close S t = rbind (thread_step C W close S t) (\<lambda>(t', S'). alone C W close S' t')"
  by (subst alone.simps) simp

section \<open>Uninterrupted threads\<close>

text \<open>Results that agree on the manager.\<close>

definition on_mgr :: "('sd outcome \<times> 'pc shared) res \<Rightarrow> ('sd outcome \<times> 'pc manager) res" where
  "on_mgr = map_sum id (map_prod id mg)"

lemma on_mgr_simps [simp]: "on_mgr (Inl e) = Inl e" "on_mgr (Inr (j, S)) = Inr (j, mg S)"
  by (simp_all add: on_mgr_def)

lemma on_mgr_rbind: "on_mgr (rbind m f) = rbind m (\<lambda>x. on_mgr (f x))"
  by (cases m) simp_all

lemma is_ended_simps [simp]:
  "is_ended (Ended j)" "\<not> is_ended (HangUp k p)" "\<not> is_ended (Unregistered k a)"
  "\<not> is_ended (Releasing k a ss)" "\<not> is_ended (Erasing k a l s ss)" "\<not> is_ended (Limiting r)"
  "\<not> is_ended (Creating r)" "\<not> is_ended (Registering r a)" "\<not> is_ended (Looking r a)"
  "\<not> is_ended (Opening r a)" "\<not> is_ended (Inserting r a sp)" "\<not> is_ended (Attaching r a)"
  "\<not> is_ended (Detached a)" "\<not> is_ended (Offering r a)" "\<not> is_ended (Answering r a)" "\<not> is_ended (Polling r a n m d)"
  by (simp_all add: is_ended_def)

lemma put_pc_maps [simp]: "peer_map (put_pc a pc m) = peer_map m" "stream_map (put_pc a pc m) = stream_map m"
  "adm_log (put_pc a pc m) = adm_log m" "next_addr (put_pc a pc m) = next_addr m" "waits (put_pc a pc m) = waits m"
  by (simp_all add: put_pc_def)

lemma still_used_put_pc:
  "a \<notin> snd ` set es \<Longrightarrow> still_used W (put_pc a pc m) l es = still_used W m l es"
  by (induction es) (auto simp: deref_def put_pc_def)

lemma streamStillUsed_put_pc:
  "a \<notin> snd ` set (peer_map m) \<Longrightarrow> streamStillUsed W (put_pc a pc m) l = streamStillUsed W m l"
  by (simp add: streamStillUsed_def still_used_put_pc)

lemma put_pc_twice [simp]: "put_pc a pc (put_pc a pc' m) = put_pc a pc m"
  by (cases "heap m a") (simp_all add: put_pc_def)

lemma delete_observer_put_pc:
  assumes "heap m a = Some obs" and "m_pc obs \<noteq> None"
  shows "delete_observer a (put_pc a pc m) = delete_observer a m"
  using assms
  by (auto simp: delete_observer_def close_observer_def put_pc_def OnIceConnectionChange_def deref_def Let_def)


lemma conn_live [simp]: "mg S = put_pc a pc m \<Longrightarrow> heap m a = Some obs \<Longrightarrow> conn S a = Some pc"
  by (simp add: conn_def put_pc_def)

lemma put_pc_stream_map: "put_pc a pc (m\<lparr>stream_map := x\<rparr>) = (put_pc a pc m)\<lparr>stream_map := x\<rparr>"
  by (simp add: put_pc_def)

lemma removed_put_pc:
  "heap m a = Some obs \<Longrightarrow>
     removed W a s (S\<lparr>mg := put_pc a pc m\<rparr>) = S\<lparr>mg := put_pc a (remove_track W pc s) m\<rparr>"
  by (simp add: removed_def put_conn_def put_pc_opt_def conn_def) (simp add: put_pc_def)

text \<open>One sender: the steps of a thread that nothing interrupts, and what \<open>release_senders\<close> does.\<close>

lemma release_one:
  assumes "heap m a = Some obs" and "a \<notin> snd ` set (peer_map m)" and "S = S\<lparr>mg := put_pc a pc m\<rparr>"
    and "sender_label s = Some l" and "streamStillUsed W m l = Inr u"
    and "m' = (if u then m else m\<lparr>stream_map := smap_erase l (stream_map m)\<rparr>)"
  shows "alone C W close S (Releasing k a (s # ss)) =
      alone C W close (S\<lparr>mg := put_pc a (remove_track W pc s) m'\<rparr>) (Releasing k a ss)"
proof -
  have mg: "mg S = put_pc a pc m" using assms(3) by (metis shared.select_convs(1) shared.surjective shared.update_convs(1))
  then have used: "streamStillUsed W (mg S) l = Inr u"
    using assms(2,5) by (simp add: streamStillUsed_put_pc)
  have "alone C W close S (Releasing k a (s # ss)) = alone C W close (removed W a s (S\<lparr>mg := put_pc a pc m'\<rparr>)) (Releasing k a ss)"
    using used assms(4,6) mg
    by (cases u) (simp_all add: alone_step [of "Releasing k a (s # ss)"] alone_step [of "Erasing k a l s ss"]
        put_pc_stream_map assms(3) [symmetric])
  also have "removed W a s (S\<lparr>mg := put_pc a pc m'\<rparr>) = S\<lparr>mg := put_pc a (remove_track W pc s) m'\<rparr>"
    using assms(1,6) by (intro removed_put_pc) auto
  finally show ?thesis .
qed

lemma release_alone:
  assumes "heap m a = Some obs" and "m_pc obs \<noteq> None" and "a \<notin> snd ` set (peer_map m)"
    and "mg S = put_pc a pc m"
  shows "alone C W close S (Releasing k a ss) =
    rbind (release_senders W m pc ss) (\<lambda>(m', pc').
      alone C W close (S\<lparr>mg := delete_observer a m', kept := (kept S)(a \<mapsto> close pc')\<rparr>)
        (after_hangup k (JBool True)))"
  using assms
proof (induction ss arbitrary: m pc S)
  case Nil
  then have "deref (mg S) a = Inr (obs\<lparr>m_pc := Some pc\<rparr>)" by (simp add: deref_def put_pc_def)
  with Nil show ?case
    by (simp add: alone_step drop_observer_def delete_observer_put_pc fun_upd_def)
next
  case (Cons s ss)
  have S: "S = S\<lparr>mg := put_pc a pc m\<rparr>" using Cons.prems(4) by simp
  show ?case
  proof (cases "sender_label s")
    case None
    with Cons show ?thesis by (simp add: alone_step)
  next
    case (Some l)
    show ?thesis
    proof (cases "streamStillUsed W m l")
      case (Inl e)
      then have "streamStillUsed W (mg S) l = Inl e"
        using Cons.prems(3,4) by (simp add: streamStillUsed_put_pc)
      with Inl Some show ?thesis by (simp add: alone_step)
    next
      case (Inr u)
      let ?m = "if u then m else m\<lparr>stream_map := smap_erase l (stream_map m)\<rparr>"
      have m: "heap ?m a = Some obs" "peer_map ?m = peer_map m" using Cons.prems(1) by simp_all
      show ?thesis
        using release_one [OF Cons.prems(1,3) S Some Inr refl, of C close k ss] Some Inr Cons.prems(2,3) m
          Cons.IH [of ?m "S\<lparr>mg := put_pc a (remove_track W pc s) ?m\<rparr>" "remove_track W pc s"]
        by (simp add: Let_def)
    qed
  qed
qed

lemma erased_not_mapped:
  assumes "mgr_ok m" and "map_of (peer_map m) p = Some a"
  shows "a \<notin> snd ` set (smap_erase p (peer_map m))"
proof
  assume "a \<in> snd ` set (smap_erase p (peer_map m))"
  then obtain k where "(k, a) \<in> set (peer_map m)" "k \<noteq> p" by (auto simp: smap_erase_def)
  then have "map_of (peer_map m) k = Some a"
    using smap_entry [of "peer_map m" "(k, a)"] assms(1) by (simp add: mgr_ok_def)
  then show False using wf_peer_inj [OF assms(1) _ assms(2)] \<open>k \<noteq> p\<close> by blast
qed

lemma hangUp_alone:
  assumes "mgr_ok (mg S)"
  obtains K where "alone C W close S (HangUp k p) =
    rbind (hangUp W (mg S) p) (\<lambda>(j, m'). alone C W close (S\<lparr>mg := m', kept := K\<rparr>) (after_hangup k j))"
proof (cases "map_of (peer_map (mg S)) p")
  case None
  then show ?thesis using that [of "kept S"] by (simp add: alone_step hangUp_def)
next
  case (Some a)
  then obtain obs pc where obs: "heap (mg S) a = Some obs" "m_pc obs = Some pc"
    using wf_peer [OF assms] by blast
  let ?m = "(mg S)\<lparr>peer_map := smap_erase p (peer_map (mg S))\<rparr>"
  have same: "put_pc a pc ?m = ?m"
    using obs by (simp add: put_pc_def fun_upd_idem)
  have "alone C W close S (HangUp k p) = alone C W close (S\<lparr>mg := ?m\<rparr>) (Releasing k a (senders W pc))"
    using Some obs by (simp add: alone_step deref_def nonnull_def)
  also have "\<dots> = rbind (release_senders W ?m pc (senders W pc)) (\<lambda>(m', pc').
      alone C W close (S\<lparr>mg := delete_observer a m', kept := (kept S)(a \<mapsto> close pc')\<rparr>)
        (after_hangup k (JBool True)))"
    using release_alone [of ?m a obs "S\<lparr>mg := ?m\<rparr>" pc C W close k "senders W pc"] obs same
      erased_not_mapped [OF assms Some] by simp
  finally have run: "alone C W close S (HangUp k p) = \<dots>" .
  show ?thesis
  proof (cases "release_senders W ?m pc (senders W pc)")
    case (Inl e)
    with run Some obs show ?thesis using that by (simp add: hangUp_def deref_def nonnull_def)
  next
    case (Inr x)
    with run Some obs show ?thesis
      using that [of "(kept S)(a \<mapsto> close (snd x))"]
      by (cases x) (simp add: hangUp_def deref_def nonnull_def)
  qed
qed


lemma put_pc_opt_maps [simp]:
  "peer_map (put_pc_opt a pc m) = peer_map m" "stream_map (put_pc_opt a pc m) = stream_map m"
  "adm_log (put_pc_opt a pc m) = adm_log m" "waits (put_pc_opt a pc m) = waits m"
  by (simp_all add: put_pc_opt_def split: option.splits)

lemma put_pc_opt_commute:
  "put_pc_opt a pc (m\<lparr>stream_map := x\<rparr>) = (put_pc_opt a pc m)\<lparr>stream_map := x\<rparr>"
  "put_pc_opt a pc (m\<lparr>adm_log := y\<rparr>) = (put_pc_opt a pc m)\<lparr>adm_log := y\<rparr>"
  by (simp_all add: put_pc_opt_def put_pc_def split: option.splits)

lemma put_conn_live: "heap (mg S) a = Some ob \<Longrightarrow> put_conn a pc S = S\<lparr>mg := put_pc_opt a pc (mg S)\<rparr>"
  by (simp add: put_conn_def)

lemma put_pc_opt_live:
  "heap m a = Some ob \<Longrightarrow> (pc = None \<longrightarrow> m_pc ob = None) \<Longrightarrow>
     heap (put_pc_opt a pc m) a = Some (ob\<lparr>m_pc := pc\<rparr>)"
  by (cases pc) (auto simp: put_pc_opt_def put_pc_def)

lemma put_pc_opt_twice:
  "(pc2 = None) = (pc1 = None) \<Longrightarrow> put_pc_opt a pc2 (put_pc_opt a pc1 m) = put_pc_opt a pc2 m"
  by (auto simp: put_pc_opt_def split: option.splits)

definition after_attaching :: "'sd request \<Rightarrow> nat \<Rightarrow> bool \<Rightarrow> 'sd thread" where
  "after_attaching r a ret =
     (if \<not> ret then refused r
      else (case q_kind r of ForOffer \<Rightarrow> Registering r a | ForAnswer _ _ _ \<Rightarrow> Answering r a))"

lemma attach_alone:
  assumes "heap m a = Some ob" and "(pc1 = None) = (m_pc ob = None)" and "mg S = put_pc_opt a pc1 m"
    and "stream_request C r = Inr (opts, video, audio, l)" and "map_of (stream_map m) l = Some pair"
  shows "alone C W close S (Attaching r a) =
    rbind (add_tracks W pair l pc1) (\<lambda>(pc2, ret).
      alone C W close (S\<lparr>mg := put_pc_opt a pc2 m\<rparr>) (after_attaching r a ret))"
proof -
  have live: "heap (mg S) a = Some (ob\<lparr>m_pc := pc1\<rparr>)"
    using assms(1-3) by (simp add: put_pc_opt_live)
  then have "conn S a = pc1" by (simp add: conn_def)
  with live assms show ?thesis
    by (cases "add_tracks W pair l pc1")
       (auto simp: alone_step attach_step_def after_attaching_def put_conn_live put_pc_opt_twice dest!: add_tracks_pc)
qed

lemma opening_alone:
  assumes "heap m a = Some ob" and "(pc1 = None) = (m_pc ob = None)" and "mg S = put_pc_opt a pc1 m"
    and "stream_request C r = Inr (opts, video, audio, l)" and "map_of (stream_map m) l = None"
  shows "alone C W close S (Opening r a) =
    rbind (rbind (ensure_stream C m l video audio opts (request_null C r)) (\<lambda>st1.
        case map_of (stream_map st1) l of
          None \<Rightarrow> Inr (False, pc1, st1)
        | Some pair \<Rightarrow> rbind (add_tracks W pair l pc1) (\<lambda>(pc2, ret). Inr (ret, pc2, st1))))
      (\<lambda>(added, pc, m2). alone C W close (S\<lparr>mg := put_pc_opt a pc m2\<rparr>) (after_attaching r a added))"
proof (cases "CreateVideoSource (capture C) video opts (request_null C r)")
  case (Inl e)
  with assms show ?thesis by (simp add: alone_step open_step_def ensure_stream_def)
next
  case vid: (Inr v)
  show ?thesis
  proof (cases "CreateAudioSource (capture C) (adm C) (adm_log m) audio opts")
    case (Inl e)
    with assms vid show ?thesis by (simp add: alone_step open_step_def ensure_stream_def)
  next
    case aud: (Inr y)
    obtain s log where y: "y = (s, log)" by (cases y)
    let ?m = "m\<lparr>adm_log := log, stream_map := smap_insert l (v, s) (stream_map m)\<rparr>"
    have "alone C W close S (Opening r a) = alone C W close (S\<lparr>mg := put_pc_opt a pc1 ?m\<rparr>) (Attaching r a)"
      using assms vid aud y by (simp add: alone_step open_step_def insert_step_def put_pc_opt_commute)
    moreover have "map_of (stream_map ?m) l = Some (v, s)"
      using assms(5) by (simp add: map_of_smap_insert)
    ultimately show ?thesis
      using attach_alone [of ?m a ob pc1 "S\<lparr>mg := put_pc_opt a pc1 ?m\<rparr>" C r opts video audio l "(v, s)" W close]
        assms vid aud y
      by (simp add: ensure_stream_def rbind_assoc split_def)
  qed
qed

lemma streams_alone:
  assumes "heap m a = Some ob" and "mg S = m"
  shows "alone C W close S (Looking r a) =
    rbind (AddStreams C W m (m_pc ob) (q_video r) (q_audio r) (q_opts r) (request_null C r)) (\<lambda>(added, pc, m2).
      alone C W close (S\<lparr>mg := put_pc_opt a pc m2\<rparr>) (after_attaching r a added))"
proof (cases "factory_of C (request_null C r)")
  case False
  moreover have "put_pc_opt a (m_pc ob) m = m"
    using assms(1) by (auto simp: put_pc_opt_def put_pc_def fun_upd_idem split: option.splits)
  ultimately show ?thesis
    by (simp add: alone_step look_step_def AddStreams_def after_attaching_def assms(2) [symmetric])
next
  case factory: True
  show ?thesis
  proof (cases "stream_request C r")
    case (Inl e)
    then show ?thesis using factory
      by (auto simp: alone_step look_step_def AddStreams_def stream_request_def Let_def rbind_def split: sum.splits)
  next
    case (Inr x)
    obtain opts video audio l where x: "x = (opts, video, audio, l)" by (cases x)
    have request: "merge_options (m_config C) (q_video r) (q_opts r) = Inr optstring \<Longrightarrow> parse_options optstring = opts" for optstring
      using Inr x by (auto simp: stream_request_def Let_def)
    have streams: "AddStreams C W m (m_pc ob) (q_video r) (q_audio r) (q_opts r) (request_null C r) =
        rbind (apply_bitrate W opts (m_pc ob)) (\<lambda>pc1.
        rbind (ensure_stream C m l video audio opts (request_null C r)) (\<lambda>st1.
        case map_of (stream_map st1) l of
          None \<Rightarrow> Inr (False, pc1, st1)
        | Some pair \<Rightarrow> rbind (add_tracks W pair l pc1) (\<lambda>(pc2, ret). Inr (ret, pc2, st1))))"
      using factory Inr x by (auto simp: AddStreams_def stream_request_def Let_def)
    show ?thesis
    proof (cases "apply_bitrate W opts (m_pc ob)")
      case (Inl e)
      with factory Inr x streams assms show ?thesis
        by (simp add: alone_step look_step_def conn_def)
    next
      case bit: (Inr pc1)
      then have pc1: "(pc1 = None) = (m_pc ob = None)" by (rule apply_bitrate_pc)
      let ?S = "S\<lparr>mg := put_pc_opt a pc1 m\<rparr>"
      show ?thesis
      proof (cases "map_of (stream_map m) l")
        case (Some pair)
        have "alone C W close S (Looking r a) = alone C W close ?S (Attaching r a)"
          using factory Inr x bit Some assms by (simp add: alone_step look_step_def conn_def put_conn_live)
        then show ?thesis
          using attach_alone [OF assms(1) pc1 _ _ Some, of ?S C r opts video audio W close] Inr x streams bit Some
          by (simp add: ensure_stream_def rbind_assoc split_def)
      next
        case None
        have "alone C W close S (Looking r a) = alone C W close ?S (Opening r a)"
          using factory Inr x bit None assms by (simp add: alone_step look_step_def conn_def put_conn_live)
        then show ?thesis
          using opening_alone [OF assms(1) pc1 _ _ None, of ?S C r opts video audio W close] Inr x streams bit
          by (simp add: assms(2))
      qed
    qed
  qed
qed



lemma limiting_alone:
  assumes "mgr_ok (mg S)"
  obtains K where "alone C W close S (Limiting r) =
    rbind (getOldestPeerCannection C (mg S)) (\<lambda>old.
    rbind (if old \<noteq> [] then hangUp W (mg S) old else Inr (JNull, mg S)) (\<lambda>(_, m1).
      alone C W close (S\<lparr>mg := m1, kept := K\<rparr>) (Creating r)))"
proof (cases "getOldestPeerCannection C (mg S)")
  case (Inl e)
  then show ?thesis using that by (simp add: alone_step limit_step_def)
next
  case (Inr old)
  show ?thesis
  proof (cases "old = []")
    case True
    with Inr show ?thesis using that [of "kept S"] by (simp add: alone_step limit_step_def)
  next
    case False
    obtain K where "alone C W close S (HangUp (Some r) old) =
        rbind (hangUp W (mg S) old) (\<lambda>(j, m'). alone C W close (S\<lparr>mg := m', kept := K\<rparr>) (after_hangup (Some r) j))"
      using hangUp_alone [OF assms] .
    with Inr False show ?thesis
      using that [of K] by (simp add: alone_step [of "Limiting r"] limit_step_def after_hangup_def)
  qed
qed

definition fresh_observer ::
  "config \<Rightarrow> ('pc, 'sd, 'cand) webrtc \<Rightarrow> 'sd request \<Rightarrow> rtc_config \<Rightarrow> 'pc manager \<Rightarrow> 'pc manager" where
  "fresh_observer C W r cfg m =
     m\<lparr>heap := (heap m)(next_addr m \<mapsto> PeerConnectionObserver W (q_peerid r) cfg (request_null C r) (q_now r)),
       next_addr := Suc (next_addr m)\<rparr>"

text \<open>\<open>CreatePeerConnection\<close> and the steps of a thread: both fail, or both go on in one state.\<close>

lemma limiting_creates:
  assumes "mgr_ok (mg S)"
  obtains (fails) e where "alone C W close S (Limiting r) = Inl e"
      "CreatePeerConnection C W (mg S) (q_peerid r) (request_null C r) (q_now r) = Inl e"
    | (goes) S' cfg where "alone C W close S (Limiting r) = alone C W close S' (Creating r)" "peer_config C = Inr cfg"
      "CreatePeerConnection C W (mg S) (q_peerid r) (request_null C r) (q_now r) =
        Inr (if factory_of C (request_null C r) then (Some (next_addr (mg S')), fresh_observer C W r cfg (mg S'))
             else (None, mg S'))"
proof -
  obtain K where run: "alone C W close S (Limiting r) =
    rbind (getOldestPeerCannection C (mg S)) (\<lambda>old.
    rbind (if old \<noteq> [] then hangUp W (mg S) old else Inr (JNull, mg S)) (\<lambda>(_, m1).
      alone C W close (S\<lparr>mg := m1, kept := K\<rparr>) (Creating r)))"
    using limiting_alone [OF assms] .
  show ?thesis
  proof (cases "getOldestPeerCannection C (mg S)")
    case (Inl e)
    then show ?thesis using fails [of e] by (simp add: run CreatePeerConnection_def)
  next
    case old: (Inr old)
    show ?thesis
    proof (cases "if old \<noteq> [] then hangUp W (mg S) old else Inr (JNull, mg S)")
      case (Inl e)
      with old show ?thesis using fails [of e] by (simp add: run CreatePeerConnection_def)
    next
      case evict: (Inr x)
      have go: "alone C W close S (Limiting r) = alone C W close (S\<lparr>mg := snd x, kept := K\<rparr>) (Creating r)"
        using old evict by (simp add: run split_def)
      show ?thesis
      proof (cases "peer_config C")
        case (Inl e)
        with go old evict show ?thesis
          using fails [of e] by (simp add: CreatePeerConnection_def alone_step create_step_def split_def)
      next
        case (Inr cfg)
        with go old evict show ?thesis
          using goes [of "S\<lparr>mg := snd x, kept := K\<rparr>" cfg] by (simp add: CreatePeerConnection_def fresh_observer_def split_def)
      qed
    qed
  qed
qed

lemma fresh_observer_live:
  "heap (fresh_observer C W r cfg m) (next_addr m) = Some (PeerConnectionObserver W (q_peerid r) cfg (request_null C r) (q_now r))"
  "deref (fresh_observer C W r cfg m) (next_addr m) = Inr (PeerConnectionObserver W (q_peerid r) cfg (request_null C r) (q_now r))"
  by (simp_all add: fresh_observer_def deref_def)

text \<open>\<open>createOffer\<close> once the streams are added.\<close>

definition offer_rest ::
  "('pc, 'sd, 'cand) webrtc \<Rightarrow> string \<Rightarrow> nat \<Rightarrow> bool \<times> 'pc option \<times> 'pc manager \<Rightarrow> (json \<times> 'pc manager) res" where
  "offer_rest W peerid a = (\<lambda>(added, pc, st2).
         let st3 = put_pc_opt a pc st2 in
         if \<not> added then Inr (JNull, st3)
         else
           let st4 = register_peer peerid a st3 in
           rbind (nonnull pc) (\<lambda>p.
             case creation_promise W (create_offer W p) of (p', desc) \<Rightarrow>
               Inr (case desc of
                      Some (Some d) \<Rightarrow> description_json W d
                    | Some None \<Rightarrow> JNull
                    | None \<Rightarrow> JNull,
                    put_pc a p' st4)))"

lemma map_sum_rbind: "map_sum id g (rbind m f) = rbind m (\<lambda>x. map_sum id g (f x))"
  by (cases m) simp_all

lemma offer_alone:
  assumes "q_kind r = ForOffer" and "factory_of C (m_useNullCodec C)" and "peer_config C = Inr cfg"
    and "m2 = fresh_observer C W r cfg (mg S)" and "a = next_addr (mg S)" and "heap m2 a = Some ob"
  shows "on_mgr (alone C W close S (Creating r)) =
    map_sum id (map_prod Offered id)
      (rbind (AddStreams C W m2 (m_pc ob) (q_video r) (q_audio r) (q_opts r) (m_useNullCodec C))
        (offer_rest W (q_peerid r) a))"
proof -
  have null: "request_null C r = m_useNullCodec C" using assms(1) by (simp add: request_null_def)
  have "alone C W close S (Creating r) = alone C W close (S\<lparr>mg := m2\<rparr>) (Looking r a)"
    using assms by (simp add: alone_step create_step_def fresh_observer_def null Let_def)
  also have "\<dots> = rbind (AddStreams C W m2 (m_pc ob) (q_video r) (q_audio r) (q_opts r) (m_useNullCodec C))
      (\<lambda>(added, pc, st2). alone C W close (S\<lparr>mg := put_pc_opt a pc st2\<rparr>) (after_attaching r a added))"
    using streams_alone [OF assms(6), of "S\<lparr>mg := m2\<rparr>" C W close r] by (simp add: null)
  finally have run: "alone C W close S (Creating r) = \<dots>" .
  show ?thesis unfolding run on_mgr_rbind map_sum_rbind
  proof (rule rbind_cong [OF refl], clarify)
    fix added pc st2
    assume add: "AddStreams C W m2 (m_pc ob) (q_video r) (q_audio r) (q_opts r) (m_useNullCodec C) = Inr (added, pc, st2)"
    then have "heap st2 a = Some ob" "(pc = None) = (m_pc ob = None)"
      using AddStreams_frame [OF add] assms(6) by (auto simp: sources_step_def)
    then have live: "heap (put_pc_opt a pc st2) a = Some (ob\<lparr>m_pc := pc\<rparr>)" by (simp add: put_pc_opt_live)
    show "on_mgr (alone C W close (S\<lparr>mg := put_pc_opt a pc st2\<rparr>) (after_attaching r a added)) =
      map_sum id (map_prod Offered id) (offer_rest W (q_peerid r) a (added, pc, st2))"
    proof (cases added)
      case False
      then show ?thesis using assms(1) by (simp add: after_attaching_def refused_def offer_rest_def)
    next
      case True
      let ?S = "S\<lparr>mg := register_peer (q_peerid r) a (put_pc_opt a pc st2)\<rparr>"
      have "alone C W close (S\<lparr>mg := put_pc_opt a pc st2\<rparr>) (after_attaching r a added) = alone C W close ?S (Offering r a)"
        using True assms(1) by (simp add: after_attaching_def alone_step register_step_def)
      moreover have "conn ?S a = pc" "heap (mg ?S) a = Some (ob\<lparr>m_pc := pc\<rparr>)"
        using live by (simp_all add: conn_def register_peer_def)
      ultimately show ?thesis
        using True
        by (cases pc) (simp_all add: alone_step offer_step_def offer_rest_def put_conn_live put_pc_opt_def
            on_mgr_rbind nonnull_def split: prod.split)
    qed
  qed
qed

lemma createOffer_rest:
  "createOffer C W st peerid videourl audiourl opts now =
     rbind (CreatePeerConnection C W st peerid (m_useNullCodec C) now) (\<lambda>(obs, st1).
     case obs of
       None \<Rightarrow> Inr (JNull, st1)
     | Some a \<Rightarrow>
         rbind (deref st1 a) (\<lambda>ob.
         rbind (AddStreams C W st1 (m_pc ob) videourl audiourl opts (m_useNullCodec C)) (offer_rest W peerid a)))"
  unfolding createOffer_def offer_rest_def by (rule refl)

lemma uninterrupted_createOffer:
  assumes "mgr_ok (mg S)" and "q_kind r = ForOffer"
  shows "on_mgr (alone C W close S (Limiting r)) =
    map_sum id (map_prod Offered id)
      (createOffer C W (mg S) (q_peerid r) (q_video r) (q_audio r) (q_opts r) (q_now r))"
proof -
  have null: "request_null C r = m_useNullCodec C" using assms(2) by (simp add: request_null_def)
  from assms(1) show ?thesis
  proof (cases rule: limiting_creates [where C = C and W = W and close = close and r = r])
    case (fails e)
    then show ?thesis by (simp add: createOffer_rest null)
  next
    case (goes S' cfg)
    show ?thesis
    proof (cases "factory_of C (m_useNullCodec C)")
      case False
      with goes show ?thesis
        by (simp add: createOffer_rest null alone_step [of "Creating r"] create_step_def refused_def assms(2))
    next
      case True
      with goes show ?thesis
        using offer_alone [OF assms(2) True goes(2) refl refl fresh_observer_live(1), where close = close]
        by (simp add: createOffer_rest null fresh_observer_live)
    qed
  qed
qed

lemma polling_alone:
  assumes "heap (mg S) a = Some ob" and "m_pc ob = Some pc"
  shows "alone C W close S (Polling r a poll n d) = Inr (Answered d,
    S\<lparr>mg := (mg S)\<lparr>waits := waits (mg S) + wait_gathering (gathering_complete W pc) poll n\<rparr>\<rparr>)"
  using assms
proof (induction n arbitrary: poll S)
  case 0
  then show ?case by (simp add: alone_step poll_step_def deref_def nonnull_def)
next
  case (Suc n)
  show ?case
  proof (cases "gathering_complete W pc poll")
    case True
    with Suc.prems show ?thesis by (simp add: alone_step poll_step_def deref_def nonnull_def)
  next
    case False
    with Suc.prems Suc.IH [of "S\<lparr>mg := (mg S)\<lparr>waits := Suc (waits (mg S))\<rparr>\<rparr>" "Suc poll"] show ?thesis
      by (simp add: alone_step [of "Polling r a poll (Suc n) d"] poll_step_def deref_def nonnull_def)
  qed
qed

lemma answering_alone:
  assumes "q_kind r = ForAnswer sd w n" and "heap (mg S) a = Some ob" and "m_pc ob = Some p"
  shows "on_mgr (alone C W close S (Answering r a)) =
    map_sum id (map_prod Answered id) (Inr (negotiate W a p sd w (mg S)))"
proof -
  obtain p1 c where p1: "set_remote W p sd = (p1, c)" by fastforce
  obtain p2 desc where p2: "creation_promise W (create_answer W p1) = (p2, desc)" by fastforce
  let ?d = "case desc of Some (Some d) \<Rightarrow> Some d | Some None \<Rightarrow> None | None \<Rightarrow> None"
    and ?S = "S\<lparr>mg := put_pc a p2 (mg S)\<rparr>"
  have "conn S a = Some p" using assms by (simp add: conn_def)
  then have "alone C W close S (Answering r a)
      = alone C W close ?S (if w then Polling r a 0 5 ?d else Ended (Answered ?d))"
    using assms p1 p2 by (simp add: alone_step answer_step_def nonnull_def Let_def put_conn_live put_pc_opt_def)
  moreover have "heap (mg ?S) a = Some (ob\<lparr>m_pc := Some p2\<rparr>)"
    using assms(2) by (simp add: put_pc_def)
  ultimately show ?thesis
    using p1 p2 polling_alone [of ?S a "ob\<lparr>m_pc := Some p2\<rparr>" p2 C W close r 0 5 ?d]
    by (auto simp: negotiate_def Let_def split: option.splits)
qed

text \<open>\<open>getAnswer\<close> once the streams are added.\<close>

definition answer_rest ::
  "('pc, 'sd, 'cand) webrtc \<Rightarrow> 'sd \<Rightarrow> bool \<Rightarrow> nat \<Rightarrow> bool \<times> 'pc option \<times> 'pc manager \<Rightarrow> ('sd option \<times> 'pc manager) res" where
  "answer_rest W sd w a = (\<lambda>(added, pc', st3).
             let st4 = put_pc_opt a pc' st3 in
             if \<not> added then Inr (None, st4)
             else rbind (nonnull pc') (\<lambda>p. Inr (negotiate W a p sd w st4)))"

lemma getAnswer_rest:
  "getAnswer C W st peerid sd videourl audiourl opts w n now =
     rbind (CreatePeerConnection C W st peerid n now) (\<lambda>(obs, st1).
     case obs of
       None \<Rightarrow> Inr (None, st1)
     | Some a \<Rightarrow>
         rbind (deref st1 a) (\<lambda>ob.
         case m_pc ob of
           None \<Rightarrow> Inr (None, delete_observer a st1)
         | Some pc \<Rightarrow>
             let st2 = register_peer peerid a st1 in
             rbind (AddStreams C W st2 (Some pc) videourl audiourl opts n) (answer_rest W sd w a)))"
  unfolding getAnswer_def answer_rest_def by (rule refl)

lemma answer_alone:
  assumes "q_kind r = ForAnswer sd w n" and "factory_of C n" and "peer_config C = Inr cfg"
    and "m2 = fresh_observer C W r cfg (mg S)" and "a = next_addr (mg S)" and "heap m2 a = Some ob"
    and "m_pc ob = Some pc0"
  shows "on_mgr (alone C W close S (Creating r)) =
    map_sum id (map_prod Answered id)
      (rbind (AddStreams C W (register_peer (q_peerid r) a m2) (Some pc0) (q_video r) (q_audio r) (q_opts r) n)
        (answer_rest W sd w a))"
proof -
  let ?m = "register_peer (q_peerid r) a m2"
  have null: "request_null C r = n" using assms(1) by (simp add: request_null_def)
  have live: "heap ?m a = Some ob" using assms(6) by (simp add: register_peer_def)
  have obs: "m_pc (PeerConnectionObserver W (q_peerid r) cfg n (q_now r)) = Some pc0"
    using assms(4-7) by (simp add: fresh_observer_def null)
  have "alone C W close S (Creating r) = alone C W close (S\<lparr>mg := ?m\<rparr>) (Looking r a)"
    using assms(1-5) obs by (simp add: alone_step create_step_def fresh_observer_def null Let_def register_step_def)
  also have "\<dots> = rbind (AddStreams C W ?m (Some pc0) (q_video r) (q_audio r) (q_opts r) n)
      (\<lambda>(added, pc, st2). alone C W close (S\<lparr>mg := put_pc_opt a pc st2\<rparr>) (after_attaching r a added))"
    using streams_alone [OF live, of "S\<lparr>mg := ?m\<rparr>" C W close r] by (simp add: null assms(7))
  finally have run: "alone C W close S (Creating r) = \<dots>" .
  show ?thesis unfolding run on_mgr_rbind map_sum_rbind
  proof (rule rbind_cong [OF refl], clarify)
    fix added pc st2
    assume add: "AddStreams C W ?m (Some pc0) (q_video r) (q_audio r) (q_opts r) n = Inr (added, pc, st2)"
    then have "heap st2 a = Some ob" "pc \<noteq> None"
      using AddStreams_frame [OF add] live by (auto simp: sources_step_def)
    then obtain p where p: "pc = Some p" and live': "heap (put_pc_opt a pc st2) a = Some (ob\<lparr>m_pc := pc\<rparr>)"
      using put_pc_opt_live [of st2 a ob pc] by auto
    show "on_mgr (alone C W close (S\<lparr>mg := put_pc_opt a pc st2\<rparr>) (after_attaching r a added)) =
      map_sum id (map_prod Answered id) (answer_rest W sd w a (added, pc, st2))"
      using answering_alone [OF assms(1), of "S\<lparr>mg := put_pc_opt a pc st2\<rparr>" a "ob\<lparr>m_pc := pc\<rparr>" p C W close]
        live' p assms(1)
      by (simp add: after_attaching_def refused_def answer_rest_def nonnull_def)
  qed
qed

lemma uninterrupted_getAnswer:
  assumes "mgr_ok (mg S)" and "q_kind r = ForAnswer sd w n"
  shows "on_mgr (alone C W close S (Limiting r)) =
    map_sum id (map_prod Answered id)
      (getAnswer C W (mg S) (q_peerid r) sd (q_video r) (q_audio r) (q_opts r) w n (q_now r))"
proof -
  have null: "request_null C r = n" using assms(2) by (simp add: request_null_def)
  from assms(1) show ?thesis
  proof (cases rule: limiting_creates [where C = C and W = W and close = close and r = r])
    case (fails e)
    then show ?thesis by (simp add: getAnswer_rest null)
  next
    case (goes S' cfg)
    let ?ob = "PeerConnectionObserver W (q_peerid r) cfg n (q_now r)"
    show ?thesis
    proof (cases "factory_of C n \<and> m_pc ?ob \<noteq> None")
      case False
      with goes show ?thesis
        by (cases "factory_of C n")
           (simp_all add: getAnswer_rest null alone_step [of "Creating r"] create_step_def refused_def assms(2) Let_def
             fresh_observer_live fresh_observer_def drop_observer_def deref_def)
    next
      case True
      then obtain pc0 where "m_pc ?ob = Some pc0" by auto
      with True goes show ?thesis
        using answer_alone [OF assms(2) _ goes(2) refl refl fresh_observer_live(1), where close = close]
        by (simp add: getAnswer_rest null fresh_observer_live Let_def)
    qed
  qed
qed

lemma uninterrupted_hangUp:
  assumes "mgr_ok (mg S)"
  shows "on_mgr (alone C W close S (HangUp None p)) = map_sum id (map_prod HungUp id) (hangUp W (mg S) p)"
proof -
  obtain K where "alone C W close S (HangUp None p) =
    rbind (hangUp W (mg S) p) (\<lambda>(j, m'). alone C W close (S\<lparr>mg := m', kept := K\<rparr>) (after_hangup None j))"
    using hangUp_alone [OF assms] .
  then show ?thesis
    by (cases "hangUp W (mg S) p") (auto simp: after_hangup_def)
qed

lemma uninterrupted_detached:
  assumes "mgr_ok (mg S)" and "a \<notin> set (hangup_threads (mg S))"
  shows "on_mgr (alone C W close S (Detached a)) = map_sum id (map_prod HungUp id) (run_hangup_thread W (mg S) a)"
proof (cases "deref (mg S) a")
  case (Inl e)
  then show ?thesis by (simp add: alone_step detached_step_def run_hangup_thread_def)
next
  case (Inr obs)
  then have "alone C W close S (Detached a) = alone C W close S (HangUp None (m_peerid obs))"
    by (simp add: alone_step [of "Detached a"] detached_step_def)
  moreover have "(mg S)\<lparr>hangup_threads := remove1 a (hangup_threads (mg S))\<rparr> = mg S"
    using assms(2) by (simp add: remove1_idem)
  ultimately show ?thesis
    using uninterrupted_hangUp [OF assms(1)] Inr by (simp add: run_hangup_thread_def)
qed

text \<open>
  C6. The steps refine the operations of the sequential manager: in every reachable state a thread
  that nothing interrupts ends with the answer, the state and the failures of \<open>hangUp\<close>,
  \<open>createOffer\<close>, \<open>getAnswer\<close> or the thread of a failed connection.
\<close>

theorem uninterrupted_requests:
  assumes "reachable C W (mg S)"
  shows "on_mgr (alone C W close S (HangUp None p)) = map_sum id (map_prod HungUp id) (hangUp W (mg S) p) \<and>
    on_mgr (alone C W close S (Limiting r)) =
      (case q_kind r of
         ForOffer \<Rightarrow> map_sum id (map_prod Offered id)
           (createOffer C W (mg S) (q_peerid r) (q_video r) (q_audio r) (q_opts r) (q_now r))
       | ForAnswer sd w n \<Rightarrow> map_sum id (map_prod Answered id)
           (getAnswer C W (mg S) (q_peerid r) sd (q_video r) (q_audio r) (q_opts r) w n (q_now r))) \<and>
    (a \<notin> set (hangup_threads (mg S)) \<longrightarrow>
      on_mgr (alone C W close S (Detached a)) = map_sum id (map_prod HungUp id) (run_hangup_thread W (mg S) a))"
  using uninterrupted_hangUp uninterrupted_createOffer uninterrupted_getAnswer uninterrupted_detached
    reachable_ok [OF assms]
  by (auto split: kind.splits)

definition demo_req :: "string \<Rightarrow> string kind \<Rightarrow> string request" where
  "demo_req p k =
     \<lparr>q_peerid = p, q_video = ''videocap://1'', q_audio = [], q_opts = [], q_now = 7, q_kind = k\<rparr>"

theorem uninterrupted_requests_witness:
  "on_mgr (alone demo_config demo_webrtc id \<lparr>mg = demo_state, kept = (\<lambda>_. None)\<rparr> (HangUp None ''p''))
     = map_sum id (map_prod HungUp id) (hangUp demo_webrtc demo_state ''p'') \<and>
   on_mgr (alone demo_config demo_webrtc id \<lparr>mg = demo_state, kept = (\<lambda>_. None)\<rparr> (Limiting (demo_req ''q'' ForOffer)))
     = map_sum id (map_prod Offered id) (createOffer demo_config demo_webrtc demo_state ''q'' ''videocap://1'' [] [] 7) \<and>
   on_mgr (alone demo_config demo_webrtc id \<lparr>mg = demo_state, kept = (\<lambda>_. None)\<rparr> (Detached 0))
     = map_sum id (map_prod HungUp id) (run_hangup_thread demo_webrtc demo_state 0)"
proof -
  have "hangup_threads demo_state = []" by code_simp
  then show ?thesis
    using uninterrupted_requests [of demo_config demo_webrtc "\<lparr>mg = demo_state, kept = (\<lambda>_. None)\<rparr>" id "''p''"
        "demo_req ''q'' ForOffer" 0] demo_state_reachable
    by (simp add: demo_req_def)
qed

end
