(* ===== verification/Peer_Races.thy ===== *)
theory Peer_Races
  imports Peer_Concurrency Peer_Stats
begin

text \<open>
  The manager under all interleavings of its requests. The first sections show what holds:
  every pointer that a thread or the map uses is valid and owned once, requests end, and a source
  that is in the stream map is not replaced. The last section has the schedules on which a
  guarantee of the sequential manager is lost.
\<close>

section \<open>Interleavings\<close>

type_synonym ('pc, 'sd) system = "'sd thread list \<times> 'pc shared"

text \<open>
  A request arrives, a thread makes a step, a client sets an answer or adds a candidate, a
  connection reports a candidate or a new state, which can start a thread that hangs it up, or
  changes on its own.
\<close>

inductive conc_step ::
  "config \<Rightarrow> ('pc, 'sd, 'cand) webrtc \<Rightarrow> ('pc \<Rightarrow> 'pc) \<Rightarrow> ('pc, 'sd) system \<Rightarrow> ('pc, 'sd) system \<Rightarrow> bool"
  for C W close where
  hangup: "conc_step C W close (ts, S) (ts @ [HangUp None p], S)"
| request: "conc_step C W close (ts, S) (ts @ [Limiting r], S)"
| run: "i < length ts \<Longrightarrow> \<not> is_ended (ts ! i) \<Longrightarrow> thread_step C W close S (ts ! i) = Inr (t', S')
    \<Longrightarrow> conc_step C W close (ts, S) (ts[i := t'], S')"
| answer: "setAnswer W (mg S) p msg = Inr (j, m') \<Longrightarrow> conc_step C W close (ts, S) (ts, S\<lparr>mg := m'\<rparr>)"
| candidate: "addIceCandidate W (mg S) p msg = Inr (j, m') \<Longrightarrow> conc_step C W close (ts, S) (ts, S\<lparr>mg := m'\<rparr>)"
| local_candidate: "observer_candidate C (mg S) a c = Inr m' \<Longrightarrow> conc_step C W close (ts, S) (ts, S\<lparr>mg := m'\<rparr>)"
| ice_state: "OnIceConnectionChange (mg S) a state = Inr m'
    \<Longrightarrow> conc_step C W close (ts, S) (ts @ map Detached (hangup_threads m'), S\<lparr>mg := m'\<lparr>hangup_threads := []\<rparr>\<rparr>)"
| background: "conc_step C W close (ts, S) (ts, S\<lparr>mg := put_pc a pc' (mg S)\<rparr>)"

definition init_system :: "('pc, 'sd) system" where
  "init_system = ([], \<lparr>mg = init_manager, kept = (\<lambda>_. None)\<rparr>)"

definition concurrent ::
  "config \<Rightarrow> ('pc, 'sd, 'cand) webrtc \<Rightarrow> ('pc \<Rightarrow> 'pc) \<Rightarrow> ('pc, 'sd) system \<Rightarrow> bool" where
  "concurrent C W close s \<longleftrightarrow> (conc_step C W close)\<^sup>*\<^sup>* init_system s"

section \<open>Pointers\<close>

text \<open>
  The observers that a thread owns: one that it has taken from the map, or has created and not
  yet registered. After the registration only the connection is used, except by the wait for
  candidates.
\<close>

fun owned :: "'sd thread \<Rightarrow> nat list" where
  "owned (Unregistered k a) = [a]"
| "owned (Releasing k a ss) = [a]"
| "owned (Erasing k a l s ss) = [a]"
| "owned (Registering r a) = [a]"
| "owned (Looking r a) = (if q_kind r = ForOffer then [a] else [])"
| "owned (Opening r a) = (if q_kind r = ForOffer then [a] else [])"
| "owned (Inserting r a pair) = (if q_kind r = ForOffer then [a] else [])"
| "owned (Attaching r a) = (if q_kind r = ForOffer then [a] else [])"
| "owned _ = []"

lemma owned_refused [simp]: "owned (refused r) = []"
  by (simp add: refused_def)

lemma owned_after_hangup [simp]: "owned (after_hangup k j) = []"
  by (simp add: after_hangup_def split: option.splits)

definition mapped :: "'pc shared \<Rightarrow> nat \<Rightarrow> nat" where
  "mapped S a = count_list (map snd (peer_map (mg S))) a"

definition refs :: "('pc, 'sd) system \<Rightarrow> nat \<Rightarrow> nat" where
  "refs s a = mapped (snd s) a + (\<Sum>t\<leftarrow>fst s. count_list (owned t) a)"

text \<open>Every observer has one owner at most, and an address that has an owner is alive.\<close>

definition pointers_ok :: "('pc, 'sd) system \<Rightarrow> bool" where
  "pointers_ok s \<longleftrightarrow> (let m = mg (snd s) in
     smap_ok (peer_map m) \<and> (\<forall>a. refs s a \<le> (if heap m a = None then 0 else 1)) \<and>
     (\<forall>a. heap m a \<noteq> None \<longrightarrow> a < next_addr m))"

lemma count_erase:
  assumes "smap_ok m" and "map_of m p = Some a"
  shows "count_list (map snd (smap_erase p m)) b + (if b = a then 1 else 0) = count_list (map snd m) b"
  using assms
proof (induction m)
  case Nil
  then show ?case by simp
next
  case (Cons e m)
  show ?case
  proof (cases "fst e = p")
    case True
    then have "filter (\<lambda>e. fst e \<noteq> p) m = m"
      using Cons.prems(1) by (auto simp: smap_ok_Cons smap_keys_def filter_id_conv)
    with True Cons.prems show ?thesis by (auto simp: smap_erase_def)
  next
    case False
    with Cons show ?thesis by (auto simp: smap_erase_def smap_ok_Cons)
  qed
qed

lemma count_insert:
  "count_list (map snd (smap_insert p a m)) b \<le> count_list (map snd m) b + (if b = a then 1 else 0)"
proof -
  have "count_list (map snd (smap_assign p a m)) b \<le> count_list (map snd m) b + (if b = a then 1 else 0)"
    by (induction m) auto
  then show ?thesis by (cases "b = a") (simp_all add: smap_insert_def)
qed

text \<open>
  What a step does to an address: it stays alive or dead and gets no further owner, or it is a
  new observer, or the thread that owned it has deleted it.
\<close>

definition address_step :: "'pc shared \<Rightarrow> 'sd thread \<Rightarrow> 'pc shared \<Rightarrow> 'sd thread \<Rightarrow> nat \<Rightarrow> bool" where
  "address_step S t S' t' a \<longleftrightarrow>
     (let before = mapped S a + count_list (owned t) a; after = mapped S' a + count_list (owned t') a in
      (heap (mg S') a = None) = (heap (mg S) a = None) \<and> after \<le> before \<or>
      a = next_addr (mg S) \<and> heap (mg S') a \<noteq> None \<and> after \<le> Suc before \<or>
      heap (mg S') a = None \<and> Suc after \<le> before)"

definition frame_step :: "'pc shared \<Rightarrow> 'sd thread \<Rightarrow> 'pc shared \<Rightarrow> 'sd thread \<Rightarrow> bool" where
  "frame_step S t S' t' \<longleftrightarrow>
     smap_ok (peer_map (mg S')) \<and> next_addr (mg S) \<le> next_addr (mg S') \<and>
     (\<forall>a. heap (mg S') a \<noteq> None \<longrightarrow> a < next_addr (mg S')) \<and> (\<forall>a. address_step S t S' t' a)"

definition same_pointers :: "'pc shared \<Rightarrow> 'pc shared \<Rightarrow> bool" where
  "same_pointers S S' \<longleftrightarrow> peer_map (mg S') = peer_map (mg S) \<and> next_addr (mg S') = next_addr (mg S) \<and>
     (\<forall>a. (heap (mg S') a = None) = (heap (mg S) a = None))"

lemma same_pointers_refl [simp]: "same_pointers S S"
  by (simp add: same_pointers_def)

lemma same_pointers_trans: "same_pointers S1 S2 \<Longrightarrow> same_pointers S2 S3 \<Longrightarrow> same_pointers S1 S3"
  by (simp add: same_pointers_def)

lemma same_pointers_put_pc [simp]: "same_pointers S (S\<lparr>mg := put_pc a pc (mg S)\<rparr>)"
  by (simp add: same_pointers_def) (simp add: put_pc_def)

lemma same_pointers_put_conn [simp]: "same_pointers S (put_conn a pc S)"
proof (cases "heap (mg S) a = None \<or> pc = None")
  case True
  then show ?thesis by (auto simp: put_conn_def put_pc_opt_def same_pointers_def)
next
  case False
  then show ?thesis by (auto simp: put_conn_def put_pc_opt_def)
qed

lemma same_pointers_maps [simp]:
  "same_pointers S (S\<lparr>mg := (mg S)\<lparr>stream_map := x\<rparr>\<rparr>)"
  "same_pointers S (S\<lparr>mg := (mg S)\<lparr>adm_log := y\<rparr>\<rparr>)"
  "same_pointers S (S\<lparr>mg := (mg S)\<lparr>waits := n\<rparr>\<rparr>)"
  by (simp_all add: same_pointers_def)

lemma same_pointers_removed [simp]: "same_pointers S (removed W a s S)"
  by (simp add: removed_def)

definition ptr_inv :: "'pc shared \<Rightarrow> bool" where
  "ptr_inv S \<longleftrightarrow> smap_ok (peer_map (mg S)) \<and> (\<forall>a. heap (mg S) a \<noteq> None \<longrightarrow> a < next_addr (mg S))"

lemma harmless_step:
  assumes "ptr_inv S" and "same_pointers S S'" and "\<And>a. count_list (owned t') a \<le> count_list (owned t) a"
  shows "frame_step S t S' t'"
  using assms by (auto simp: frame_step_def address_step_def ptr_inv_def same_pointers_def mapped_def Let_def)

lemma hangup_frame:
  assumes "ptr_inv S" and "thread_step C W close S (HangUp k p) = Inr (t', S')"
  shows "frame_step S (HangUp k p) S' t'"
proof (cases "map_of (peer_map (mg S)) p")
  case None
  with assms show ?thesis by (auto intro: harmless_step)
next
  case (Some a)
  with assms have "t' = Unregistered k a"
    and S': "S' = S\<lparr>mg := (mg S)\<lparr>peer_map := smap_erase p (peer_map (mg S))\<rparr>\<rparr>" by simp_all
  moreover have count: "mapped S' b + (if b = a then 1 else 0) = mapped S b" for b
    using count_erase [of "peer_map (mg S)" p a b] Some assms(1) by (simp add: mapped_def S' ptr_inv_def)
  moreover have "address_step S (HangUp k p) S' (Unregistered k a) b" for b
    using count [of b] by (cases "b = a") (auto simp: address_step_def S' Let_def)
  ultimately show ?thesis using assms(1) by (auto simp: frame_step_def ptr_inv_def)
qed

lemma delete_frame:
  assumes "ptr_inv S" and "thread_step C W close S (Releasing k a []) = Inr (t', S')"
  shows "frame_step S (Releasing k a []) S' t'"
proof -
  from assms(2) have "t' = after_hangup k (JBool True)" and "S' = drop_observer close a S"
    by auto
  with assms(1) show ?thesis
    by (auto simp: frame_step_def address_step_def ptr_inv_def drop_observer_def delete_observer_heap mapped_def Let_def)
qed

lemma releasing_frame:
  assumes "ptr_inv S" and "thread_step C W close S (Releasing k a (s # ss)) = Inr (t', S')"
  shows "frame_step S (Releasing k a (s # ss)) S' t'"
  using assms by (auto intro!: harmless_step split: option.splits if_splits)

lemma erasing_frame:
  assumes "ptr_inv S" and "thread_step C W close S (Erasing k a l s ss) = Inr (t', S')"
  shows "frame_step S (Erasing k a l s ss) S' t'"
  using assms by (auto intro!: harmless_step intro: same_pointers_trans [OF same_pointers_maps(1) same_pointers_removed])

lemma creating_frame:
  assumes "ptr_inv S" and "thread_step C W close S (Creating r) = Inr (t', S')"
  shows "frame_step S (Creating r) S' t'"
proof -
  have "heap (mg S) (next_addr (mg S)) = None" using assms(1) by (auto simp: ptr_inv_def)
  with assms show ?thesis
    by (auto simp: create_step_def Let_def frame_step_def address_step_def ptr_inv_def drop_observer_def
        delete_observer_heap mapped_def less_Suc_eq split: if_splits kind.splits)
qed

lemma registering_frame:
  assumes "ptr_inv S" and "thread_step C W close S (Registering r a) = Inr (t', S')"
  shows "frame_step S (Registering r a) S' t'"
proof -
  have S': "S' = S\<lparr>mg := register_peer (q_peerid r) a (mg S)\<rparr>" and o': "owned t' = []"
    using assms(2) by (auto simp: register_step_def split: kind.splits)
  have count: "mapped S' b \<le> mapped S b + (if b = a then 1 else 0)" for b
    using count_insert [of "q_peerid r" a "peer_map (mg S)" b] by (simp add: S' register_peer_def mapped_def)
  have "address_step S (Registering r a) S' t' b" for b
    using count [of b] by (cases "b = a") (auto simp: address_step_def S' o' register_peer_def Let_def)
  then show ?thesis using assms(1) by (auto simp: frame_step_def ptr_inv_def S' register_peer_def)
qed

lemma thread_frame:
  assumes "ptr_inv S" and "thread_step C W close S t = Inr (t', S')"
  shows "frame_step S t S' t'"
proof (cases t)
  case (HangUp k p)
  with assms show ?thesis using hangup_frame by blast
next
  case (Unregistered k a)
  with assms show ?thesis by (auto intro: harmless_step)
next
  case (Releasing k a ss)
  with assms show ?thesis using delete_frame releasing_frame by (cases ss) blast+
next
  case (Erasing k a l s ss)
  with assms show ?thesis using erasing_frame by blast
next
  case (Creating r)
  with assms show ?thesis using creating_frame by blast
next
  case (Registering r a)
  with assms show ?thesis using registering_frame by blast
qed (use assms in \<open>auto simp: step_defs Let_def intro!: harmless_step split: if_splits option.splits kind.splits prod.splits\<close>)

lemma refs_run:
  assumes "i < length ts" and "t = ts ! i"
  shows "refs (ts[i := t'], S') a + (mapped S a + count_list (owned t) a)
       = refs (ts, S) a + (mapped S' a + count_list (owned t') a)"
proof -
  let ?f = "\<lambda>t. count_list (owned t) a"
  have "map ?f (ts[i := t']) = (map ?f ts)[i := ?f t']" by (simp add: map_update)
  moreover have "?f (ts ! i) \<le> sum_list (map ?f ts)"
    using assms(1) by (metis elem_le_sum_list length_map nth_map)
  ultimately show ?thesis
    using assms sum_list_update [of i "map ?f ts" "?f t'"] by (simp add: refs_def)
qed

lemma pointers_ok_run:
  assumes "pointers_ok (ts, S)" and "i < length ts" and "thread_step C W close S (ts ! i) = Inr (t', S')"
  shows "pointers_ok (ts[i := t'], S')"
proof -
  have inv: "ptr_inv S" and le: "refs (ts, S) a \<le> (if heap (mg S) a = None then 0 else 1)" for a
    using assms(1) by (simp_all add: pointers_ok_def ptr_inv_def Let_def)
  have frame: "frame_step S (ts ! i) S' t'" using thread_frame [OF inv assms(3)] .
  have "refs (ts[i := t'], S') a \<le> (if heap (mg S') a = None then 0 else 1)" for a
  proof -
    have "address_step S (ts ! i) S' t' a" using frame by (simp add: frame_step_def)
    moreover have "heap (mg S) (next_addr (mg S)) = None" using inv by (auto simp: ptr_inv_def)
    ultimately show ?thesis
      using le [of a] refs_run [OF assms(2) refl, of t' S' a S]
      by (auto simp: address_step_def Let_def split: if_splits)
  qed
  with frame show ?thesis by (auto simp: pointers_ok_def frame_step_def Let_def)
qed

lemma refs_same:
  assumes "pointers_ok (ts, S)" and "same_pointers S S'"
  shows "pointers_ok (ts, S')"
  using assms by (simp add: pointers_ok_def same_pointers_def refs_def mapped_def Let_def del: not_None_eq)

lemma refs_arrival:
  assumes "pointers_ok (ts, S)" and "\<forall>t \<in> set us. owned t = []"
  shows "pointers_ok (ts @ us, S)"
proof -
  have "(\<Sum>t\<leftarrow>us. count_list (owned t) a) = 0" for a using assms(2) by (induction us) simp_all
  then have "refs (ts @ us, S) a = refs (ts, S) a" for a by (simp only: refs_def fst_conv snd_conv map_append sum_list_append add_0_right)
  with assms(1) show ?thesis by (simp add: pointers_ok_def)
qed

text \<open>Steps outside the threads change neither the maps nor the id of an observer.\<close>

definition bystander :: "'pc manager \<Rightarrow> 'pc manager \<Rightarrow> bool" where
  "bystander m m' \<longleftrightarrow> peer_map m' = peer_map m \<and> stream_map m' = stream_map m \<and> next_addr m' = next_addr m \<and>
     (\<forall>a. map_option m_peerid (heap m' a) = map_option m_peerid (heap m a))"

lemma bystander_refl [simp]: "bystander m m"
  by (simp add: bystander_def)

lemma bystander_put_pc [simp]: "bystander m (put_pc a pc m)"
  by (simp add: bystander_def) (simp add: put_pc_def option.map_comp o_def)

lemma bystander_pointers: "bystander (mg S) m' \<Longrightarrow> same_pointers S (S\<lparr>mg := m'\<rparr>)"
  unfolding bystander_def same_pointers_def by (metis option.map_disc_iff shared.select_convs(1) shared.surjective shared.update_convs(1))

lemma outside_bystander:
  "setAnswer W m p msg = Inr (j, m') \<Longrightarrow> bystander m m'"
  "addIceCandidate W m p msg = Inr (j, m') \<Longrightarrow> bystander m m'"
  "observer_candidate C m a c = Inr m' \<Longrightarrow> bystander m m'"
  "OnIceConnectionChange m a state = Inr m' \<Longrightarrow> bystander m (m'\<lparr>hangup_threads := []\<rparr>)"
  by (auto simp: setAnswer_def addIceCandidate_def apply_candidate_def split: option.splits prod.splits)
     (auto simp: observer_candidate_def OnIceConnectionChange_def deref_def bystander_def Let_def split: option.splits if_splits)

text \<open>Threads that begin, and the steps of the system by what they do to the maps.\<close>

definition arriving :: "'sd thread \<Rightarrow> bool" where
  "arriving t \<longleftrightarrow> (case t of HangUp None _ \<Rightarrow> True | Limiting _ \<Rightarrow> True | Detached _ \<Rightarrow> True | _ \<Rightarrow> False)"

lemma arriving_cases:
  assumes "arriving t"
  obtains (hangup) p where "t = HangUp None p" | (request) r where "t = Limiting r" | (failed) a where "t = Detached a"
  using assms by (auto simp: arriving_def split: thread.splits option.splits)

lemma conc_step_cases:
  assumes "conc_step C W close s s'"
  obtains (outside) us m' where "s' = (fst s @ us, (snd s)\<lparr>mg := m'\<rparr>)" "list_all arriving us" "bystander (mg (snd s)) m'"
    | (runs) i t' S' where "i < length (fst s)" "thread_step C W close (snd s) (fst s ! i) = Inr (t', S')"
        "\<not> is_ended (fst s ! i)" "s' = ((fst s)[i := t'], S')"
  using assms
proof cases
  case (hangup ts S p)
  then show ?thesis by (intro outside [of "[HangUp None p]" "mg S"]) (simp_all add: arriving_def)
next
  case (request ts S r)
  then show ?thesis by (intro outside [of "[Limiting r]" "mg S"]) (simp_all add: arriving_def)
next
  case (run i ts S t' S')
  then show ?thesis by (intro runs [of i t' S']) simp_all
next
  case (answer S p msg j m' ts)
  then show ?thesis by (intro outside [of "[]" m']) (simp_all add: outside_bystander)
next
  case (candidate S p msg j m' ts)
  then show ?thesis by (intro outside [of "[]" m']) (simp_all add: outside_bystander)
next
  case (local_candidate S a c m' ts)
  then show ?thesis by (intro outside [of "[]" m']) (simp_all add: outside_bystander)
next
  case (ice_state S a state m' ts)
  then show ?thesis
    by (intro outside [of "map Detached (hangup_threads m')" "m'\<lparr>hangup_threads := []\<rparr>"])
       (simp_all add: outside_bystander arriving_def list_all_iff)
next
  case (background ts S a pc')
  then show ?thesis by (intro outside [of "[]" "put_pc a pc' (mg S)"]) simp_all
qed

interpretation ptr_run: step_invariant "conc_step C W close" pointers_ok
  for C and W :: "('pc, 'sd, 'cand) webrtc" and close
proof
  fix s s' :: "('pc, 'sd) system"
  assume ok: "pointers_ok s" and "conc_step C W close s s'"
  from this(2) show "pointers_ok s'"
  proof (cases rule: conc_step_cases)
    case (runs i t' S')
    with ok show ?thesis using pointers_ok_run [of "fst s" "snd s" i] by simp
  next
    case (outside us m')
    have "\<forall>t \<in> set us. owned t = []"
      using outside(2) by (auto simp: list_all_iff elim!: arriving_cases)
    moreover have "pointers_ok (fst s, (snd s)\<lparr>mg := m'\<rparr>)"
      using refs_same [OF _ bystander_pointers [OF outside(3)], of "fst s"] ok by simp
    ultimately show ?thesis unfolding outside(1) using refs_arrival by blast
  qed
qed

lemma concurrent_pointers: "concurrent C W close s \<Longrightarrow> pointers_ok s"
proof -
  have "pointers_ok (init_system :: ('a, 'b) system)"
    by (simp add: pointers_ok_def init_system_def init_manager_def refs_def mapped_def)
  then show "concurrent C W close s \<Longrightarrow> pointers_ok s"
    unfolding concurrent_def using ptr_run.steps_inv by blast
qed

lemma mapped_live:
  assumes "pointers_ok (ts, S)" and "e \<in> set (peer_map (mg S))"
  shows "heap (mg S) (snd e) \<noteq> None"
proof
  assume "heap (mg S) (snd e) = None"
  with assms(1) have "refs (ts, S) (snd e) = 0" by (auto simp: pointers_ok_def Let_def dest: spec [of _ "snd e"])
  then have "snd e \<notin> set (map snd (peer_map (mg S)))" by (simp add: refs_def mapped_def count_list_0_iff)
  with assms(2) show False by simp
qed

lemma owned_live:
  assumes "pointers_ok (ts, S)" and "i < length ts" and "a \<in> set (owned (ts ! i))"
  shows "heap (mg S) a \<noteq> None"
proof
  assume "heap (mg S) a = None"
  with assms(1) have "refs (ts, S) a = 0" by (auto simp: pointers_ok_def Let_def dest: spec [of _ a])
  then have "count_list (owned (ts ! i)) a = 0" using assms(2) by (simp add: refs_def)
  with assms(3) show False by (simp add: count_list_0_iff)
qed

text \<open>Everything but an access through a deleted observer.\<close>

definition no_uaf :: "'a res \<Rightarrow> bool" where
  "no_uaf r \<longleftrightarrow> r \<noteq> Inl UseAfterFree"

lemma no_uaf_simps [simp]: "no_uaf (Inr x)" "no_uaf (Inl e) \<longleftrightarrow> e \<noteq> UseAfterFree"
  by (simp_all add: no_uaf_def)

lemma no_uaf_rbind [intro!]: "no_uaf m \<Longrightarrow> (\<And>x. no_uaf (f x)) \<Longrightarrow> no_uaf (rbind m f)"
  by (cases m) simp_all

lemma no_uaf_cpp [simp]: "no_uaf (stoi s)" "no_uaf (atoi s)" "no_uaf (cint i)" "no_uaf (cdiv i j)"
  "no_uaf (substr_from s n)" "no_uaf (nonnull p)"
  by (auto simp: stoi_def atoi_def cint_def cdiv_def substr_from_def nonnull_def split: option.splits)

lemma no_uaf_json [simp]: "no_uaf (is_member j k)" "no_uaf (member j k)" "no_uaf (as_string j)"
  by (auto simp: is_member_def member_def as_string_def split: json.splits)

lemma no_uaf_opt_int [simp]: "no_uaf (opt_int opts k n)"
  by (auto simp: opt_int_def split: option.splits)

lemma no_uaf_request [simp]: "no_uaf (stream_request C r)"
  by (auto simp: stream_request_def merge_options_def resolve_url_def Let_def)

lemma no_uaf_bitrate [simp]: "no_uaf (apply_bitrate W opts pc)"
  by (auto simp: apply_bitrate_def bitrate_settings_def split: option.splits)

lemma no_uaf_peer_config [simp]: "no_uaf (peer_config C)"
  by (auto simp: peer_config_def parse_port_range_def split: prod.splits)

lemma no_uaf_attach [simp]: "no_uaf (attach W m tid l x)"
  by (auto simp: attach_def split: prod.splits option.splits)

lemma no_uaf_add_tracks [simp]: "no_uaf (add_tracks W pair l pc)"
  by (auto simp: add_tracks_def)

lemma no_uaf_scaler [simp]: "no_uaf (VideoScaler opts)"
  by (auto simp: VideoScaler_def Let_def)

lemma no_uaf_select [simp]: "no_uaf (select_screen screen srcs)"
  by (induction srcs) auto

lemma no_uaf_capturers [simp]:
  "no_uaf (RTSPVideoCapturer_Create url opts n)" "no_uaf (FileVideoCapturer_Create url opts n)"
  "no_uaf (RTPVideoCapturer_Create url opts n)" "no_uaf (RtmpVideoSource_Create url opts n)"
  "no_uaf (V4l2Capturer_Create E url opts)" "no_uaf (VcmCapturer_Create E url opts)"
  "no_uaf (DesktopCapturer_init opts)" "no_uaf (DesktopCapturer_Start b d)"
  by (auto simp: capturer_creates DesktopCapturer_init_def DesktopCapturer_Start_def Let_def)

lemma no_uaf_desktop [simp]:
  "no_uaf (ScreenCapturer_Create E url opts)" "no_uaf (WindowCapturer_Create E url opts)"
  by (auto simp: ScreenCapturer_Create_def WindowCapturer_Create_def Let_def split: option.splits)

lemma no_uaf_video [simp]: "no_uaf (CreateVideoSource E url opts n)"
  by (simp add: CreateVideoSource_def)

lemma no_uaf_audio [simp]: "no_uaf (CreateAudioSource E A lg url opts)"
  by (auto simp: CreateAudioSource_def Let_def)


text \<open>Reading through the map, and through an owned pointer.\<close>

lemma deref_live: "heap m a \<noteq> None \<Longrightarrow> no_uaf (deref m a)"
  by (auto simp: deref_def)

lemma oldest_live: "\<forall>e \<in> set es. heap m (snd e) \<noteq> None \<Longrightarrow> no_uaf (oldest m es t k)"
  by (induction es arbitrary: t k) (auto simp: deref_def)

lemma still_used_live: "\<forall>e \<in> set es. heap m (snd e) \<noteq> None \<Longrightarrow> no_uaf (still_used W m l es)"
  by (induction es) (auto simp: deref_def)

text \<open>
  The wait for candidates and the thread of a failed connection follow an observer that they do
  not own.
\<close>

definition borrows :: "'sd thread \<Rightarrow> bool" where
  "borrows t = (case t of Polling _ _ _ _ _ \<Rightarrow> True | Detached _ \<Rightarrow> True | _ \<Rightarrow> False)"

lemma hangup_step_live:
  assumes "\<forall>e \<in> set (peer_map (mg S)). heap (mg S) (snd e) \<noteq> None"
    and "\<forall>a \<in> set (owned t). heap (mg S) a \<noteq> None"
  shows "no_uaf (hangup_step W close S t)"
proof -
  have used: "no_uaf (streamStillUsed W (mg S) l)" for l
    using still_used_live [OF assms(1)] by (simp add: streamStillUsed_def)
  from assms(2) show ?thesis
    by (cases "(W, close, S, t)" rule: hangup_step.cases)
       (auto simp: used deref_def split: option.splits)
qed

lemma thread_step_live:
  assumes "\<forall>e \<in> set (peer_map (mg S)). heap (mg S) (snd e) \<noteq> None"
    and "\<forall>a \<in> set (owned t). heap (mg S) a \<noteq> None" and "\<not> borrows t"
  shows "no_uaf (thread_step C W close S t)"
proof -
  have hang: "no_uaf (hangup_step W close S t)" using hangup_step_live [OF assms(1,2)] .
  show ?thesis
  proof (cases t)
    case (Limiting r)
    then show ?thesis using oldest_live [OF assms(1)] by (auto simp: limit_step_def getOldestPeerCannection_def)
  next
    case (Polling r a poll n d)
    with assms(3) show ?thesis by (simp add: borrows_def)
  next
    case (Detached a)
    with assms(3) show ?thesis by (simp add: borrows_def)
  qed (use hang in \<open>auto simp: create_step_def look_step_def open_step_def insert_step_def attach_step_def
        offer_step_def answer_step_def Let_def simp del: hangup_step.simps split: option.splits kind.splits prod.splits\<close>)
qed

text \<open>The operations that read the map of peers under one lock.\<close>

lemma no_uaf_list_senders [simp]: "no_uaf (list_senders ss j)"
  by (induction ss arbitrary: j)
     (auto simp: add_stream_def set_member_def is_member_def member_def split: option.splits list.splits json.splits)

lemma list_peers_live: "\<forall>e \<in> set es. heap m (snd e) \<noteq> None \<Longrightarrow> no_uaf (list_peers W G coll now m es)"
  by (induction es) (auto simp: deref_def peer_json_def split: option.splits)

lemma locked_operation_live:
  assumes "\<forall>e \<in> set (peer_map m). heap m (snd e) \<noteq> None"
  shows "\<exists>r. getIceCandidateList m p = Inr r" and "\<exists>r. setAnswer W m p msg = Inr r"
    and "\<exists>r. addIceCandidate W m p msg = Inr r" and "no_uaf (getPeerConnectionList W G coll now m)"
proof -
  have d: "map_of (peer_map m) p = Some a \<Longrightarrow> \<exists>obs. deref m a = Inr obs" for a
    using assms map_of_SomeD [of "peer_map m" p a] by (fastforce simp: deref_def)
  then show "\<exists>r. getIceCandidateList m p = Inr r" "\<exists>r. setAnswer W m p msg = Inr r"
    by (force simp: getIceCandidateList_def setAnswer_def split: option.splits prod.splits)+
  have "\<exists>r. apply_candidate W m p cand = Inr r" for cand
    using d by (force simp: apply_candidate_def split: option.splits prod.splits)
  then obtain f where "\<And>cand. apply_candidate W m p cand = Inr (f cand)" by metis
  then show "\<exists>r. addIceCandidate W m p msg = Inr r"
    by (simp add: addIceCandidate_def split: option.splits prod.splits)
  show "no_uaf (getPeerConnectionList W G coll now m)"
    using list_peers_live [OF assms] by (auto simp: getPeerConnectionList_def)
qed

text \<open>
  C7. Whatever requests arrive, whichever connections fail and however the threads interleave, no
  thread follows or deletes an observer that is already deleted, up to the two kinds of threads
  that use an observer without owning it, the wait for candidates and the thread of a failed
  connection. Of the operations that look at the registered peers under one lock,
  \<open>getIceCandidateList\<close>, \<open>setAnswer\<close> and \<open>addIceCandidate\<close> complete in every state between, and
  \<open>getPeerConnectionList\<close> meets no deleted observer.
\<close>

theorem interleaved_requests_never_dangle:
  assumes "concurrent C W close (ts, S)"
  shows "(\<forall>i < length ts. \<not> borrows (ts ! i) \<longrightarrow> thread_step C W close S (ts ! i) \<noteq> Inl UseAfterFree) \<and>
    (\<exists>r. getIceCandidateList (mg S) p = Inr r) \<and> (\<exists>r. setAnswer W (mg S) p msg = Inr r) \<and>
    (\<exists>r. addIceCandidate W (mg S) p msg = Inr r) \<and>
    getPeerConnectionList W G coll now (mg S) \<noteq> Inl UseAfterFree"
proof -
  have ok: "pointers_ok (ts, S)" using concurrent_pointers [OF assms] .
  have step: "no_uaf (thread_step C W close S (ts ! i))" if "i < length ts" "\<not> borrows (ts ! i)" for i
    using mapped_live [OF ok] owned_live [OF ok that(1)] that(2) by (intro thread_step_live) blast+
  have live: "\<forall>e \<in> set (peer_map (mg S)). heap (mg S) (snd e) \<noteq> None"
    using mapped_live [OF ok] by blast
  show ?thesis
    unfolding no_uaf_def [symmetric] by (intro conjI allI impI locked_operation_live live step)
qed

section \<open>Ending\<close>

lemma wf_eventually_constant:
  assumes "wf r" and "\<And>n. x (Suc n) = x n \<or> (x (Suc n), x n) \<in> r"
  shows "\<exists>N. \<forall>n\<ge>N. x n = x N"
proof -
  obtain N where min: "\<And>y. (y, x N) \<in> r \<Longrightarrow> y \<notin> range x"
    using wfE_min [OF assms(1), of "x 0" "range x"] by blast
  have "x n = x N" if "N \<le> n" for n
    using that
  proof (induction n rule: dec_induct)
    case base
    show ?case by simp
  next
    case (step n)
    then show ?case using assms(2) [of n] min [of "x (Suc n)"] by auto
  qed
  then show ?thesis by blast
qed

text \<open>The places of all threads, as a multiset of ranks.\<close>

definition progress :: "('sd thread list \<times> 'sd thread list) set" where
  "progress = inv_image (mult rank_less) (\<lambda>ts. image_mset rank (mset ts))"

lemma wf_progress: "wf progress"
  by (simp add: progress_def wf_inv_image wf_mult wf_rank_less)

lemma progress_update:
  assumes "i < length ts" and "(rank t', rank (ts ! i)) \<in> rank_less"
  shows "(ts[i := t'], ts) \<in> progress"
proof -
  let ?I = "image_mset rank (mset ts - {#ts ! i#})"
  have "mset ts = add_mset (ts ! i) (mset ts - {#ts ! i#})" using assms(1) by simp
  then have "image_mset rank (mset ts) = ?I + {#rank (ts ! i)#}"
    by (metis add_mset_add_single image_mset_add_mset)
  moreover have "image_mset rank (mset (ts[i := t'])) = ?I + {#rank t'#}"
    using assms(1) by (simp add: mset_update)
  moreover have "(?I + {#rank t'#}, ?I + {#rank (ts ! i)#}) \<in> mult rank_less"
    using assms(2) by (intro one_step_implies_mult) auto
  ultimately show ?thesis by (simp add: progress_def)
qed

lemma conc_step_length: "conc_step C W close s s' \<Longrightarrow> length (fst s) \<le> length (fst s')"
  by (cases rule: conc_step_cases) auto

lemma bounded_incseq_constant:
  assumes "incseq (x :: nat \<Rightarrow> nat)" and "\<And>n. x n \<le> k"
  shows "\<exists>M. \<forall>n\<ge>M. x n = x M"
proof -
  have "finite (range x)" using assms(2) by (auto intro: finite_subset [of _ "{..k}"])
  then have "Max (range x) \<in> range x" by (intro Max_in) auto
  then obtain M where M: "x M = Max (range x)" by force
  have "x n = x M" if "M \<le> n" for n
    using incseqD [OF assms(1) that] Max_ge [OF \<open>finite (range x)\<close>, of "x n"] M by simp
  then show ?thesis by blast
qed

lemma conc_step_progress:
  assumes "conc_step C W close s s'" and "length (fst s') = length (fst s)"
  shows "fst s' = fst s \<or> (fst s', fst s) \<in> progress"
  using assms by (cases rule: conc_step_cases) (auto intro: progress_update thread_step_rank)

text \<open>
  C24. No request runs forever: when only finitely many requests arrive and finitely many
  connections fail, so that the number of threads is bounded, all threads stop after finitely
  many steps, whatever answers, candidates and other callbacks come in the meantime.
\<close>

theorem interleaved_requests_end:
  assumes "\<And>n. conc_step C W close (f n) (f (Suc n))" and "\<And>n. length (fst (f n)) \<le> k"
  shows "\<exists>N. \<forall>n\<ge>N. fst (f n) = fst (f N)"
proof -
  have "incseq (\<lambda>n. length (fst (f n)))"
    using conc_step_length [OF assms(1)] by (auto intro: incseq_SucI)
  then obtain M where M: "\<And>n. M \<le> n \<Longrightarrow> length (fst (f n)) = length (fst (f M))"
    using bounded_incseq_constant assms(2) by blast
  have "\<exists>N. \<forall>n\<ge>N. fst (f (M + n)) = fst (f (M + N))"
  proof (rule wf_eventually_constant [OF wf_progress])
    show "fst (f (M + Suc n)) = fst (f (M + n)) \<or> (fst (f (M + Suc n)), fst (f (M + n))) \<in> progress" for n
      using conc_step_progress [OF assms(1) [of "M + n"]] M [of "M + n"] M [of "M + Suc n"] by simp
  qed
  then obtain N where N: "\<And>n. N \<le> n \<Longrightarrow> fst (f (M + n)) = fst (f (M + N))" by blast
  have "fst (f n) = fst (f (M + N))" if "M + N \<le> n" for n
    using N [of "n - M"] that by simp
  then show ?thesis by blast
qed

section \<open>Shared sources\<close>

definition source_of :: "string \<Rightarrow> ('pc, 'sd) system \<Rightarrow> stream_pair option" where
  "source_of l s = map_of (stream_map (mg (snd s))) l"

lemma put_conn_streams [simp]: "stream_map (mg (put_conn a pc S)) = stream_map (mg S)"
  by (simp add: put_conn_def)

lemma drop_observer_streams [simp]: "stream_map (mg (drop_observer close a S)) = stream_map (mg S)"
  by (simp add: drop_observer_def delete_observer_heap)

lemma hangup_step_streams:
  assumes "hangup_step W close S t = Inr (t', S')"
  shows "stream_map (mg S') = stream_map (mg S) \<or> (\<exists>l. stream_map (mg S') = smap_erase l (stream_map (mg S)))"
  using assms
  by (cases "(W, close, S, t)" rule: hangup_step.cases)
     (auto simp: removed_def split: option.splits if_splits)

lemma request_step_streams:
  "limit_step C S r = Inr (t', S') \<Longrightarrow> stream_map (mg S') = stream_map (mg S)"
  "create_step C W close S r = Inr (t', S') \<Longrightarrow> stream_map (mg S') = stream_map (mg S)"
  "register_step S r a = (t', S') \<Longrightarrow> stream_map (mg S') = stream_map (mg S)"
  "look_step C W S r a = Inr (t', S') \<Longrightarrow> stream_map (mg S') = stream_map (mg S)"
  "open_step C S r a = Inr (t', S') \<Longrightarrow> stream_map (mg S') = stream_map (mg S)"
  "insert_step C S r a p = Inr (t', S') \<Longrightarrow> \<exists>l. stream_map (mg S') = smap_insert l p (stream_map (mg S))"
  "attach_step C W S r a = Inr (t', S') \<Longrightarrow> stream_map (mg S') = stream_map (mg S)"
  "offer_step W S r a = Inr (t', S') \<Longrightarrow> stream_map (mg S') = stream_map (mg S)"
  "answer_step W S r a = Inr (t', S') \<Longrightarrow> stream_map (mg S') = stream_map (mg S)"
  "poll_step W S r a n m d = Inr (t', S') \<Longrightarrow> stream_map (mg S') = stream_map (mg S)"
  "detached_step S a = Inr (t', S') \<Longrightarrow> stream_map (mg S') = stream_map (mg S)"
  by (auto simp: step_defs Let_def register_peer_def split: option.splits if_splits kind.splits prod.splits)

lemma thread_step_streams:
  assumes "thread_step C W close S t = Inr (t', S')" and "map_of (stream_map (mg S)) l = Some p"
  shows "map_of (stream_map (mg S')) l \<in> {Some p, None}"
proof -
  consider "stream_map (mg S') = stream_map (mg S)"
    | l' where "stream_map (mg S') = smap_erase l' (stream_map (mg S))"
    | l' p' where "stream_map (mg S') = smap_insert l' p' (stream_map (mg S))"
    using assms(1) by (cases t) (auto dest: hangup_step_streams request_step_streams simp del: hangup_step.simps)
  then show ?thesis using assms(2) by cases (auto simp: map_of_smap_insert)
qed

lemma conc_step_source:
  assumes "conc_step C W close s s'" and "source_of l s = Some p"
  shows "source_of l s' \<in> {Some p, None}"
  using assms(1)
proof (cases rule: conc_step_cases)
  case (runs i t' S')
  with assms(2) thread_step_streams [OF runs(2), of l p] show ?thesis by (simp add: source_of_def)
qed (use assms(2) in \<open>simp add: source_of_def bystander_def\<close>)

text \<open>
  C25. The second look under the lock: while a label is in the stream map, no request that was
  opening sources for it at the same time replaces its source, so that all requests for the
  label send the same one.
\<close>

theorem racing_requests_share_source:
  assumes "(\<lambda>x y. conc_step C W close x y \<and> source_of l y \<noteq> None)\<^sup>*\<^sup>* s s'" and "source_of l s = Some p"
  shows "source_of l s' = Some p"
  using assms(1)
proof (induction rule: rtranclp_induct)
  case base
  show ?case by (rule assms(2))
next
  case (step y z)
  then show ?case using conc_step_source [of C W close y z l p] by auto
qed

section \<open>Schedules\<close>

text \<open>A run in which the threads move in the given order.\<close>

fun schedule ::
  "config \<Rightarrow> ('pc, 'sd, 'cand) webrtc \<Rightarrow> ('pc \<Rightarrow> 'pc) \<Rightarrow> nat list \<Rightarrow> ('pc, 'sd) system \<Rightarrow> ('pc, 'sd) system res" where
  "schedule C W close [] s = Inr s"
| "schedule C W close (i # is') s =
     (if i < length (fst s) \<and> \<not> is_ended (fst s ! i) then
        rbind (thread_step C W close (snd s) (fst s ! i)) (\<lambda>(t', S').
          schedule C W close is' ((fst s)[i := t'], S'))
      else schedule C W close is' s)"

lemma schedule_runs:
  assumes "schedule C W close is' s = Inr s'"
  shows "(conc_step C W close)\<^sup>*\<^sup>* s s'"
  using assms
proof (induction is' arbitrary: s)
  case Nil
  then show ?case by simp
next
  case (Cons i is')
  show ?case
  proof (cases "i < length (fst s) \<and> \<not> is_ended (fst s ! i)")
    case True
    with Cons.prems obtain t' S' where step: "thread_step C W close (snd s) (fst s ! i) = Inr (t', S')"
      and rest: "schedule C W close is' ((fst s)[i := t'], S') = Inr s'" by auto
    have "conc_step C W close s ((fst s)[i := t'], S')"
      using conc_step.run [of i "fst s" C W close "snd s" t' S'] True step by simp
    with Cons.IH [OF rest] show ?thesis by (rule converse_rtranclp_into_rtranclp [rotated])
  next
    case False
    with Cons show ?thesis by simp
  qed
qed

definition arrivals :: "'sd thread list \<Rightarrow> bool" where
  "arrivals ts \<longleftrightarrow> list_all (\<lambda>t. case t of HangUp None _ \<Rightarrow> True | Limiting _ \<Rightarrow> True | _ \<Rightarrow> False) ts"

lemma arrivals_run:
  assumes "arrivals ts"
  shows "(conc_step C W close)\<^sup>*\<^sup>* (us, S) (us @ ts, S)"
  using assms
proof (induction ts rule: rev_induct)
  case Nil
  then show ?case by simp
next
  case (snoc t ts)
  then consider k where "t = HangUp None k" | r where "t = Limiting r"
    by (auto simp: arrivals_def split: thread.splits option.splits)
  then have "conc_step C W close (us @ ts, S) ((us @ ts) @ [t], S)"
    by cases (auto simp only: intro: conc_step.hangup conc_step.request)
  with snoc show ?case by (simp add: arrivals_def)
qed

lemma schedule_concurrent:
  assumes "arrivals ts" and "schedule C W close is' (ts, \<lparr>mg = init_manager, kept = (\<lambda>_. None)\<rparr>) = Inr s'"
  shows "concurrent C W close s'"
  unfolding concurrent_def init_system_def
  using arrivals_run [OF assms(1), where us = "[]" and C = C and W = W and close = close]
    schedule_runs [OF assms(2)]
  by (metis (no_types, lifting) append_Nil rtranclp_trans)

definition after_schedule :: "config \<Rightarrow> string thread list \<Rightarrow> nat list \<Rightarrow> (sender list, string) system" where
  "after_schedule C ts is' = projr (schedule C demo_webrtc id is' (ts, \<lparr>mg = init_manager, kept = (\<lambda>_. None)\<rparr>))"

lemma after_schedule_concurrent:
  assumes "arrivals ts"
    and "\<not> isl (schedule C demo_webrtc id is' (ts, \<lparr>mg = init_manager, kept = (\<lambda>_. None)\<rparr>))"
  shows "concurrent C demo_webrtc id (after_schedule C ts is')"
  using schedule_concurrent [OF assms(1)] assms(2) by (metis after_schedule_def sum.collapse(2))

section \<open>What interleaving breaks\<close>

lemma alone_runs:
  assumes "alone C W close S t = Inr (j, S')" and "i < length ts" and "ts ! i = t"
  shows "(conc_step C W close)\<^sup>*\<^sup>* (ts, S) (ts[i := Ended j], S')"
  using assms
proof (induction C W close S t arbitrary: ts rule: alone.induct)
  case (1 C W close S t)
  show ?case
  proof (cases "is_ended t")
    case True
    with "1.prems" have "S' = S" "ts[i := Ended j] = ts"
      by (auto simp: is_ended_def list_update_same_conv split: thread.splits)
    then show ?thesis by simp
  next
    case False
    then obtain t1 S1 where step: "thread_step C W close S t = Inr (t1, S1)" and rest: "alone C W close S1 t1 = Inr (j, S')"
      using "1.prems"(1) by (auto simp: alone_step)
    have "conc_step C W close (ts, S) (ts[i := t1], S1)"
      using conc_step.run [of i ts] False step "1.prems" by blast
    moreover have "(conc_step C W close)\<^sup>*\<^sup>* (ts[i := t1], S1) (ts[i := t1, i := Ended j], S')"
      using "1.IH" [OF False step refl rest, of "ts[i := t1]"] "1.prems"(2) by simp
    ultimately show ?thesis by (simp add: converse_rtranclp_into_rtranclp)
  qed
qed

text \<open>Any number of requests under a limit of one peer.\<close>

definition one_peer :: config where
  "one_peer = demo_config\<lparr>m_maxpc := 1\<rparr>"

definition racer :: "nat \<Rightarrow> string request" where
  "racer k = demo_req (replicate (Suc k) (CHR ''p'')) ForOffer"

definition race_label :: string where
  "race_label = ''videocap1|||builtin''"

definition race_state :: "nat \<Rightarrow> sender list shared \<Rightarrow> bool" where
  "race_state k S \<longleftrightarrow> length (peer_map (mg S)) = k \<and>
     dom (map_of (peer_map (mg S))) = (\<lambda>j. replicate (Suc j) (CHR ''p'')) ` {..<k} \<and>
     (\<forall>p. map_of (stream_map (mg S)) race_label = Some p \<longrightarrow> fst p \<noteq> None)"

lemma racer_stream: "stream_request one_peer (racer k) = Inr ([], ''videocap://1'', [], race_label)"
proof -
  have "stream_request one_peer (demo_req [] ForOffer) = Inr ([], ''videocap://1'', [], race_label)"
    by code_simp
  then show ?thesis by (simp add: stream_request_def racer_def demo_req_def request_null_def)
qed

lemma length_smap_insert_new: "map_of m k = None \<Longrightarrow> length (smap_insert k v m) = Suc (length m)"
proof -
  have "map_of m k = None \<Longrightarrow> length (smap_assign k v m) = Suc (length m)" by (induction m) (auto split: if_splits)
  then show "map_of m k = None \<Longrightarrow> ?thesis" by (simp add: smap_insert_def)
qed

lemma racer_audio: "\<exists>x. CreateAudioSource (capture one_peer) (adm one_peer) lg [] [] = Inr x"
  by (auto simp: CreateAudioSource_def starts_with_def Let_def)

lemma racer_video: "CreateVideoSource (capture one_peer) ''videocap://1'' [] False = Inr (Some (VcmVideo ''cam1'' 800 600 0))"
  by code_simp

lemma demo_tracks:
  assumes "fst p \<noteq> None"
  shows "\<exists>pc'. add_tracks demo_webrtc p l (Some pc) = Inr (Some pc', True)"
  using assms
  by (cases "snd p") (auto simp: add_tracks_def attach_def demo_webrtc_def nonnull_def)

lemma racer_AddStreams:
  assumes "\<forall>p. map_of (stream_map m) race_label = Some p \<longrightarrow> fst p \<noteq> None"
  obtains pc' st2 where "AddStreams one_peer demo_webrtc m (Some pc) ''videocap://1'' [] [] False = Inr (True, Some pc', st2)"
    and "\<forall>p. map_of (stream_map st2) race_label = Some p \<longrightarrow> fst p \<noteq> None"
proof -
  have request: "stream_request one_peer (racer 0) = Inr ([], ''videocap://1'', [], race_label)"
    by (rule racer_stream)
  obtain a lg where audio: "CreateAudioSource (capture one_peer) (adm one_peer) (adm_log m) [] [] = Inr (a, lg)"
    using racer_audio by fastforce
  obtain st2 p where ensure: "ensure_stream one_peer m race_label ''videocap://1'' [] [] False = Inr st2"
    and p: "map_of (stream_map st2) race_label = Some p" "fst p \<noteq> None"
    using assms racer_video audio
    by (cases "map_of (stream_map m) race_label") (auto simp: ensure_stream_def map_of_smap_insert)
  obtain pc' where "add_tracks demo_webrtc p race_label (Some pc) = Inr (Some pc', True)"
    using demo_tracks [OF p(2)] by blast
  then have "AddStreams one_peer demo_webrtc m (Some pc) ''videocap://1'' [] [] False = Inr (True, Some pc', st2)"
    using request ensure p(1)
    by (auto simp: AddStreams_def stream_request_def racer_def demo_req_def request_null_def Let_def
        apply_bitrate_def one_peer_def demo_config_def factory_of_def)
  with p that show ?thesis by (metis option.inject)
qed

lemma racer_registers:
  assumes "race_state k S"
  shows "\<exists>j S'. alone one_peer demo_webrtc id S (Creating (racer k)) = Inr (j, S') \<and> race_state (Suc k) S'"
proof -
  have cfg: "peer_config one_peer = Inr \<lparr>plan_b = False, servers = [], transport = kAll, min_port = 0, max_port = 65535\<rparr>"
    (is "_ = Inr ?cfg") by code_simp
  let ?m = "fresh_observer one_peer demo_webrtc (racer k) ?cfg (mg S)" and ?a = "next_addr (mg S)"
    and ?name = "replicate (Suc k) (CHR ''p'')"
  obtain ob where ob: "heap ?m ?a = Some ob" "m_pc ob = Some []"
    by (simp add: fresh_observer_def PeerConnectionObserver_def demo_webrtc_def)
  obtain pc' st2 where add: "AddStreams one_peer demo_webrtc ?m (Some []) ''videocap://1'' [] [] False = Inr (True, Some pc', st2)"
    and good: "\<forall>p. map_of (stream_map st2) race_label = Some p \<longrightarrow> fst p \<noteq> None"
    using racer_AddStreams [of ?m "[]"] assms by (auto simp: race_state_def fresh_observer_def)
  have peers: "peer_map st2 = peer_map (mg S)"
    using AddStreams_peers [OF add] by (simp add: fresh_observer_def)
  obtain p' desc where "creation_promise demo_webrtc (create_offer demo_webrtc pc') = (p', desc)" by fastforce
  then obtain j m' where rest: "offer_rest demo_webrtc ?name ?a (True, Some pc', st2) = Inr (j, m')"
    and m': "peer_map m' = smap_insert ?name ?a (peer_map (mg S))" "stream_map m' = stream_map st2"
    by (auto simp: offer_rest_def nonnull_def put_pc_opt_def register_peer_def peers Let_def)
  have "on_mgr (alone one_peer demo_webrtc id S (Creating (racer k))) = Inr (Offered j, m')"
    using offer_alone [OF _ _ cfg refl refl ob(1), of id] add rest ob(2)
    by (simp add: racer_def demo_req_def one_peer_def demo_config_def factory_of_def)
  then obtain S' where run: "alone one_peer demo_webrtc id S (Creating (racer k)) = Inr (Offered j, S')" and S': "mg S' = m'"
    by (cases "alone one_peer demo_webrtc id S (Creating (racer k))") auto
  have new: "map_of (peer_map (mg S)) ?name = None"
  proof -
    have "?name \<notin> (\<lambda>j. replicate (Suc j) (CHR ''p'')) ` {..<k}" by (auto dest: arg_cong [where f = length])
    with assms show ?thesis unfolding race_state_def by (metis domIff)
  qed
  then have "length (smap_insert ?name ?a (peer_map (mg S))) = Suc (length (peer_map (mg S)))"
    by (rule length_smap_insert_new)
  with new assms good have "race_state (Suc k) S'"
    by (auto simp: race_state_def S' m' map_of_smap_insert lessThan_Suc)
  with run show ?thesis by blast
qed

definition race_threads :: "nat \<Rightarrow> nat \<Rightarrow> nat \<Rightarrow> (nat \<Rightarrow> string outcome) \<Rightarrow> string thread list" where
  "race_threads n k l js =
     map (\<lambda>i. if i < k then Ended (js i) else if i < l then Creating (racer i) else Limiting (racer i)) [0..<n]"

lemma race_threads_nth: "i < n \<Longrightarrow> race_threads n k l js ! i =
    (if i < k then Ended (js i) else if i < l then Creating (racer i) else Limiting (racer i))"
  and race_threads_length [simp]: "length (race_threads n k l js) = n"
  by (simp_all add: race_threads_def)

text \<open>All requests look at the number of peers before one of them registers its own.\<close>

lemma race_start:
  assumes "l \<le> n"
  shows "concurrent one_peer demo_webrtc id (race_threads n 0 l js, \<lparr>mg = init_manager, kept = (\<lambda>_. None)\<rparr>)"
  using assms
proof (induction l)
  case 0
  have "arrivals (race_threads n 0 0 js)" by (simp add: arrivals_def race_threads_def list_all_iff)
  then show ?case by (rule schedule_concurrent [where is' = "[]"]) simp
next
  case (Suc l)
  let ?S = "\<lparr>mg = init_manager, kept = (\<lambda>_. None)\<rparr> :: sender list shared"
  have "thread_step one_peer demo_webrtc id ?S (Limiting (racer l)) = Inr (Creating (racer l), ?S)"
    by (simp add: limit_step_def getOldestPeerCannection_def one_peer_def demo_config_def init_manager_def)
  moreover have "race_threads n 0 (Suc l) js = (race_threads n 0 l js)[l := Creating (racer l)]"
    by (rule nth_equalityI) (auto simp: race_threads_nth nth_list_update less_Suc_eq)
  ultimately have "conc_step one_peer demo_webrtc id (race_threads n 0 l js, ?S) (race_threads n 0 (Suc l) js, ?S)"
    using conc_step.run [of l "race_threads n 0 l js" one_peer demo_webrtc id ?S "Creating (racer l)" ?S] Suc.prems
    by (simp add: race_threads_nth)
  moreover have "(conc_step one_peer demo_webrtc id)\<^sup>*\<^sup>* init_system (race_threads n 0 l js, ?S)"
    using Suc by (simp only: concurrent_def Suc_leD)
  ultimately show ?case unfolding concurrent_def by (rule rtranclp.rtrancl_into_rtrancl [rotated])
qed

lemma race_result:
  assumes "k \<le> n"
  shows "\<exists>js S. concurrent one_peer demo_webrtc id (race_threads n k n js, S) \<and> race_state k S"
  using assms
proof (induction k)
  case 0
  have "race_state 0 \<lparr>mg = init_manager, kept = (\<lambda>_. None)\<rparr>" by (simp add: race_state_def init_manager_def)
  then show ?case using race_start [OF order_refl] by blast
next
  case (Suc k)
  then obtain js S where run: "concurrent one_peer demo_webrtc id (race_threads n k n js, S)" and k: "race_state k S"
    by (meson Suc_leD)
  obtain j S' where alone: "alone one_peer demo_webrtc id S (Creating (racer k)) = Inr (j, S')" and k': "race_state (Suc k) S'"
    using racer_registers [OF k] by blast
  have "(race_threads n k n js)[k := Ended j] = race_threads n (Suc k) n (js(k := j))"
    by (rule nth_equalityI) (auto simp: race_threads_nth nth_list_update less_Suc_eq)
  then have "(conc_step one_peer demo_webrtc id)\<^sup>*\<^sup>* (race_threads n k n js, S) (race_threads n (Suc k) n (js(k := j)), S')"
    using alone_runs [OF alone, of k "race_threads n k n js"] Suc.prems by (simp add: race_threads_nth)
  with run k' show ?case unfolding concurrent_def by (meson rtranclp_trans)
qed

text \<open>
  C30. The limit on the number of peers is not kept under interleaving: with a limit of one, requests
  that look at the number of peers before one of them has registered lead to any number of
  registered peers.
\<close>

theorem racing_offers_exceed_limit:
  "\<exists>ts S. concurrent one_peer demo_webrtc id (ts, S) \<and> m_maxpc one_peer = 1 \<and> length (peer_map (mg S)) = n"
proof -
  obtain js S where "concurrent one_peer demo_webrtc id (race_threads n n n js, S)" "race_state n S"
    using race_result by blast
  moreover have "m_maxpc one_peer = 1" by (simp add: one_peer_def)
  ultimately show ?thesis by (auto simp: race_state_def)
qed

definition lost_stream :: "(sender list, string) system \<Rightarrow> bool" where
  "lost_stream s \<longleftrightarrow> list_all is_ended (fst s) \<and> map_of (stream_map (mg (snd s))) race_label = None \<and>
     (case peer_pc (mg (snd s)) ''b'' of None \<Rightarrow> False
      | Some pc \<Rightarrow> list_ex (\<lambda>s. sender_label s = Some race_label) (senders demo_webrtc pc))"

text \<open>
  C31. A stream that a registered peer sends can be lost from the stream map: \<open>hangUp\<close> of its only
  other user looks for users between the moment in which \<open>createOffer\<close> adds the stream to the new
  connection and the moment in which it registers the peer.
\<close>

theorem racing_hangup_loses_stream:
  "\<exists>ts S pc. concurrent demo_config demo_webrtc id (ts, S) \<and> list_all is_ended ts \<and>
     peer_pc (mg S) ''b'' = Some pc \<and> race_label \<in> labels demo_webrtc pc \<and>
     map_of (stream_map (mg S)) race_label = None"
proof -
  let ?ts = "[Limiting (demo_req ''a'' ForOffer), Limiting (demo_req ''b'' ForOffer), HangUp None ''a'']"
    and ?is = "[0, 0, 0, 0, 0, 0, 0, 0, 1, 1, 1, 1, 2, 2, 2, 2, 2, 2, 2, 2, 1, 1, 1]"
  let ?s = "after_schedule demo_config ?ts ?is"
  have "concurrent demo_config demo_webrtc id ?s"
    by (rule after_schedule_concurrent) code_simp+
  moreover have "lost_stream ?s" by code_simp
  then have "list_all is_ended (fst ?s)" "map_of (stream_map (mg (snd ?s))) race_label = None"
    "case peer_pc (mg (snd ?s)) ''b'' of None \<Rightarrow> False
      | Some pc \<Rightarrow> list_ex (\<lambda>s. sender_label s = Some race_label) (senders demo_webrtc pc)"
    unfolding lost_stream_def by blast+
  ultimately show ?thesis
    by (intro exI [of _ "fst ?s"] exI [of _ "snd ?s"] exI [of _ "the (peer_pc (mg (snd ?s)) ''b'')"])
       (auto simp: labels_def list_ex_iff split: option.splits)
qed

text \<open>
  A WHEP request that waits for candidates follows a deleted observer when its peer is hung up
  in the meantime.
\<close>

theorem racing_hangup_dangles_whep:
  "\<exists>ts S. concurrent demo_config demo_webrtc id (ts, S) \<and> ts \<noteq> [] \<and> borrows (ts ! 0) \<and>
     thread_step demo_config demo_webrtc id S (ts ! 0) = Inl UseAfterFree"
proof -
  let ?ts = "[Limiting (demo_req ''a'' (ForAnswer ''v=0'' True False)), HangUp None ''a'']"
    and ?is = "[0, 0, 0, 0, 0, 0, 0, 0, 1, 1, 1, 1, 1, 1, 1, 1]"
  let ?s = "after_schedule demo_config ?ts ?is"
  have "concurrent demo_config demo_webrtc id ?s"
    by (rule after_schedule_concurrent) code_simp+
  moreover have "fst ?s \<noteq> []" "borrows (fst ?s ! 0)" by code_simp+
  moreover have "case thread_step demo_config demo_webrtc id (snd ?s) (fst ?s ! 0) of Inl e \<Rightarrow> e = UseAfterFree | Inr _ \<Rightarrow> False"
    by code_simp
  ultimately show ?thesis
    by (intro exI [of _ "fst ?s"] exI [of _ "snd ?s"]) (auto split: sum.splits)
qed

section \<open>Concrete runs\<close>

text \<open>Two requests for one stream, both past the first look; the first has inserted its source.\<close>

definition race_system :: "(sender list, string) system" where
  "race_system = after_schedule demo_config
     [Limiting (demo_req ''a'' ForOffer), Limiting (demo_req ''b'' ForOffer)] [0, 0, 0, 1, 1, 1, 0, 0, 1]"

lemma race_system_concurrent: "concurrent demo_config demo_webrtc id race_system"
  unfolding race_system_def by (rule after_schedule_concurrent) code_simp+

theorem interleaved_requests_never_dangle_witness:
  "thread_step demo_config demo_webrtc id (snd race_system) (fst race_system ! 1) \<noteq> Inl UseAfterFree \<and>
   (\<exists>r. getIceCandidateList (mg (snd race_system)) ''a'' = Inr r)"
proof -
  have "concurrent demo_config demo_webrtc id (fst race_system, snd race_system)"
    by (simp add: race_system_concurrent)
  moreover have "1 < length (fst race_system)" "\<not> borrows (fst race_system ! 1)" by code_simp+
  ultimately show ?thesis using interleaved_requests_never_dangle by blast
qed

theorem racing_requests_share_source_witness:
  "source_of race_label
     ((fst race_system)[1 := fst (projr (thread_step demo_config demo_webrtc id (snd race_system) (fst race_system ! 1)))],
      snd (projr (thread_step demo_config demo_webrtc id (snd race_system) (fst race_system ! 1))))
   = Some (Some (VcmVideo ''cam1'' 800 600 0), None)"
  (is "source_of _ ?y = _")
proof (rule racing_requests_share_source)
  show "source_of race_label race_system = Some (Some (VcmVideo ''cam1'' 800 600 0), None)" by code_simp
  have "\<not> isl (thread_step demo_config demo_webrtc id (snd race_system) (fst race_system ! 1))" by code_simp
  then have "thread_step demo_config demo_webrtc id (snd race_system) (fst race_system ! 1)
      = Inr (fst (projr (thread_step demo_config demo_webrtc id (snd race_system) (fst race_system ! 1))),
             snd (projr (thread_step demo_config demo_webrtc id (snd race_system) (fst race_system ! 1))))"
    by (simp add: sum.collapse(2))
  moreover have "1 < length (fst race_system)" "\<not> is_ended (fst race_system ! 1)" by code_simp+
  ultimately have "conc_step demo_config demo_webrtc id (fst race_system, snd race_system) ?y"
    by (intro conc_step.run)
  moreover have "source_of race_label ?y \<noteq> None" by code_simp
  ultimately show "(\<lambda>x y. conc_step demo_config demo_webrtc id x y \<and> source_of race_label y \<noteq> None)\<^sup>*\<^sup>* race_system ?y"
    by auto
qed

theorem interleaved_requests_end_witness:
  "\<exists>N::nat. \<forall>n\<ge>N. (if n = 0 then [HangUp None ''x''] else [Ended (HungUp JNull)] :: string thread list)
     = (if N = 0 then [HangUp None ''x''] else [Ended (HungUp JNull)])"
proof -
  let ?S = "\<lparr>mg = init_manager, kept = (\<lambda>_. None)\<rparr> :: sender list shared"
  let ?f = "\<lambda>n::nat. (if n = 0 then [HangUp None ''x''] else [Ended (HungUp JNull)] :: string thread list, ?S)"
  have "conc_step demo_config demo_webrtc id (?f 0) (?f 1)"
    using conc_step.run [of 0 "[HangUp None ''x'']" demo_config demo_webrtc id ?S "Ended (HungUp JNull)" ?S]
    by (simp add: init_manager_def after_hangup_def)
  moreover have "conc_step demo_config demo_webrtc id (?f (Suc n)) (?f (Suc (Suc n)))" for n
    using conc_step.background [of demo_config demo_webrtc id "[Ended (HungUp JNull)]" ?S 0 "[]"]
    by (simp add: put_pc_def init_manager_def fun_upd_idem)
  ultimately have "conc_step demo_config demo_webrtc id (?f n) (?f (Suc n))" for n
    by (cases n) simp_all
  then have "\<exists>N. \<forall>n\<ge>N. fst (?f n) = fst (?f N)"
    by (rule interleaved_requests_end [where k = 1]) simp
  then show ?thesis unfolding fst_conv .
qed

end
