(* ===== verification/Peer_Serial.thy ===== *)
theory Peer_Serial
  imports Peer_Races
begin

text \<open>
  The limit on the peers under interleaving. Every registered observer carries the id it is
  registered under, so that a request evicts a peer that was registered when it looked. When one
  request at a time is between its look at the number of peers and its registration, the limit
  holds, whatever else is interleaved; two at a time exceed it.
\<close>

section \<open>Observers carry their id\<close>

text \<open>The request and the observer that a thread is going to register.\<close>

fun registers :: "'sd thread \<Rightarrow> ('sd request \<times> nat) option" where
  "registers (Registering r a) = Some (r, a)"
| "registers (Looking r a) = (if q_kind r = ForOffer then Some (r, a) else None)"
| "registers (Opening r a) = (if q_kind r = ForOffer then Some (r, a) else None)"
| "registers (Inserting r a pair) = (if q_kind r = ForOffer then Some (r, a) else None)"
| "registers (Attaching r a) = (if q_kind r = ForOffer then Some (r, a) else None)"
| "registers _ = None"

lemma registers_owned: "registers t = Some (r, a) \<Longrightarrow> a \<in> set (owned t)"
  by (cases t) (auto split: if_splits)

lemma registers_simps [simp]: "registers (refused r) = None" "registers (after_hangup k j) = None"
  by (simp_all add: refused_def after_hangup_def split: option.splits)

definition has_id :: "'pc shared \<Rightarrow> nat \<Rightarrow> string \<Rightarrow> bool" where
  "has_id S a p \<longleftrightarrow> (\<forall>obs. heap (mg S) a = Some obs \<longrightarrow> m_peerid obs = p)"

definition ids_ok :: "('pc, 'sd) system \<Rightarrow> bool" where
  "ids_ok s \<longleftrightarrow> pointers_ok s \<and> (\<forall>e \<in> set (peer_map (mg (snd s))). has_id (snd s) (snd e) (fst e)) \<and>
     (\<forall>t \<in> set (fst s). \<forall>r a. registers t = Some (r, a) \<longrightarrow> has_id (snd s) a (q_peerid r))"

text \<open>Steps that keep the ids of all observers that are there.\<close>

definition names_kept :: "'pc shared \<Rightarrow> 'pc shared \<Rightarrow> bool" where
  "names_kept S S' \<longleftrightarrow> (\<forall>a p. has_id S a p \<longrightarrow> has_id S' a p)"

lemma names_kept_refl [simp]: "names_kept S S"
  by (simp add: names_kept_def)

lemma names_kept_trans: "names_kept S1 S2 \<Longrightarrow> names_kept S2 S3 \<Longrightarrow> names_kept S1 S3"
  by (simp add: names_kept_def)

lemma names_kept_heap: "heap (mg S') = heap (mg S) \<Longrightarrow> names_kept S S'"
  by (simp add: names_kept_def has_id_def)

lemma names_kept_maps [simp]:
  "names_kept S (S\<lparr>mg := (mg S)\<lparr>stream_map := x\<rparr>\<rparr>)"
  "names_kept S (S\<lparr>mg := (mg S)\<lparr>adm_log := y\<rparr>\<rparr>)"
  "names_kept S (S\<lparr>mg := (mg S)\<lparr>waits := n\<rparr>\<rparr>)"
  "names_kept S (S\<lparr>mg := (mg S)\<lparr>peer_map := z\<rparr>\<rparr>)"
  by (simp_all add: names_kept_heap)

lemma names_kept_put_pc [simp]: "names_kept S (S\<lparr>mg := put_pc a pc (mg S)\<rparr>)"
  by (auto simp: names_kept_def has_id_def put_pc_def)

lemma names_kept_put_conn [simp]: "names_kept S (put_conn a pc S)"
  by (cases "heap (mg S) a"; cases pc) (auto simp: put_conn_def put_pc_opt_def intro: names_kept_heap)

lemma names_kept_removed [simp]: "names_kept S (removed W a s S)"
  by (simp add: removed_def)

lemma names_kept_drop [simp]: "names_kept S (drop_observer close a S)"
  by (auto simp: names_kept_def has_id_def drop_observer_def delete_observer_heap)

lemma hangup_step_names:
  assumes "hangup_step W close S t = Inr (t', S')"
  shows "names_kept S S' \<and> registers t' = None \<or> t' = t \<and> S' = S"
  using assms
proof (cases "(W, close, S, t)" rule: hangup_step.cases)
  case (5 W' close' S0 k a l s ss)
  let ?S1 = "S\<lparr>mg := (mg S)\<lparr>stream_map := smap_erase l (stream_map (mg S))\<rparr>\<rparr>"
  have "names_kept S ?S1" by simp
  with 5 assms show ?thesis using names_kept_trans [OF _ names_kept_removed, of S ?S1 W a s] by auto
qed (auto split: option.splits if_splits)

text \<open>A thread that is going to register has kept its observer, or has just created it.\<close>

definition keeps :: "'pc shared \<Rightarrow> 'sd thread \<Rightarrow> 'pc shared \<Rightarrow> 'sd thread \<Rightarrow> bool" where
  "keeps S t S' t' \<longleftrightarrow> names_kept S S' \<and> (registers t' \<noteq> None \<longrightarrow> registers t' = registers t)"

lemma limit_step_keeps: "limit_step C S r = Inr (t', S') \<Longrightarrow> keeps S (Limiting r) S' t'"
  by (auto simp: keeps_def limit_step_def split: if_splits)

lemma register_step_keeps: "register_step S r a = (t', S') \<Longrightarrow> keeps S (Registering r a) S' t'"
  by (auto simp: keeps_def register_step_def register_peer_def split: kind.splits)

lemma look_step_keeps: "look_step C W S r a = Inr (t', S') \<Longrightarrow> keeps S (Looking r a) S' t'"
  by (auto simp: keeps_def look_step_def split: if_splits)

lemma open_step_keeps: "open_step C S r a = Inr (t', S') \<Longrightarrow> keeps S (Opening r a) S' t'"
  by (auto simp: keeps_def open_step_def split: if_splits)

lemma insert_step_keeps: "insert_step C S r a p = Inr (t', S') \<Longrightarrow> keeps S (Inserting r a p) S' t'"
  by (auto simp: keeps_def insert_step_def split: if_splits)

lemma add_step_keeps: "attach_step C W S r a = Inr (t', S') \<Longrightarrow> keeps S (Attaching r a) S' t'"
  by (auto simp: keeps_def attach_step_def split: if_splits option.splits kind.splits)

lemma offer_step_keeps: "offer_step W S r a = Inr (t', S') \<Longrightarrow> keeps S t S' t'"
  by (auto simp: keeps_def offer_step_def split: prod.splits)

lemma answer_step_keeps: "answer_step W S r a = Inr (t', S') \<Longrightarrow> keeps S t S' t'"
  by (auto simp: keeps_def answer_step_def Let_def split: prod.splits kind.splits if_splits)

lemma poll_step_keeps: "poll_step W S r a n m d = Inr (t', S') \<Longrightarrow> keeps S t S' t'"
  by (auto simp: keeps_def poll_step_def split: if_splits)

lemma detached_step_keeps: "detached_step S a = Inr (t', S') \<Longrightarrow> keeps S t S' t'"
  by (auto simp: keeps_def detached_step_def)

lemma hangup_step_keeps: "hangup_step W close S t = Inr (t', S') \<Longrightarrow> keeps S t S' t'"
  using hangup_step_names by (fastforce simp: keeps_def)

lemma thread_step_keeps:
  assumes "thread_step C W close S t = Inr (t', S')" and "\<And>r. t \<noteq> Creating r"
  shows "keeps S t S' t'"
  using assms
  by (cases t) (auto simp del: hangup_step.simps intro: limit_step_keeps register_step_keeps look_step_keeps
      open_step_keeps insert_step_keeps add_step_keeps offer_step_keeps answer_step_keeps poll_step_keeps detached_step_keeps hangup_step_keeps)

text \<open>A new observer has an address that nobody holds.\<close>

lemma create_step_names:
  assumes "create_step C W close S r = Inr (t', S')" and "b < next_addr (mg S)" and "has_id S b p"
  shows "has_id S' b p"
  using assms
  by (auto simp: create_step_def has_id_def drop_observer_def delete_observer_heap Let_def split: if_splits kind.splits)

lemma create_step_registers:
  assumes "create_step C W close S r = Inr (t', S')" and "registers t' = Some (r', a)"
  shows "has_id S' a (q_peerid r')"
  using assms
  by (auto simp: create_step_def has_id_def PeerConnectionObserver_def Let_def split: if_splits kind.splits)

lemma put_conn_peers [simp]: "peer_map (mg (put_conn a pc S)) = peer_map (mg S)"
  by (simp add: put_conn_def)

lemma drop_observer_peers [simp]: "peer_map (mg (drop_observer close a S)) = peer_map (mg S)"
  by (simp add: drop_observer_def delete_observer_heap)

lemma hangup_step_peers:
  assumes "hangup_step W close S t = Inr (t', S')"
  shows "peer_map (mg S') = peer_map (mg S) \<or>
    (\<exists>k p a. t = HangUp k p \<and> t' = Unregistered k a \<and> map_of (peer_map (mg S)) p = Some a \<and>
       peer_map (mg S') = smap_erase p (peer_map (mg S)))"
  using assms
  by (cases "(W, close, S, t)" rule: hangup_step.cases)
     (auto simp: removed_def split: option.splits if_splits)

lemma request_step_peers:
  "limit_step C S r = Inr (t', S') \<Longrightarrow> peer_map (mg S') = peer_map (mg S)"
  "create_step C W close S r = Inr (t', S') \<Longrightarrow> peer_map (mg S') = peer_map (mg S)"
  "register_step S r a = (t', S') \<Longrightarrow> peer_map (mg S') = smap_insert (q_peerid r) a (peer_map (mg S))"
  "look_step C W S r a = Inr (t', S') \<Longrightarrow> peer_map (mg S') = peer_map (mg S)"
  "open_step C S r a = Inr (t', S') \<Longrightarrow> peer_map (mg S') = peer_map (mg S)"
  "insert_step C S r a p = Inr (t', S') \<Longrightarrow> peer_map (mg S') = peer_map (mg S)"
  "attach_step C W S r a = Inr (t', S') \<Longrightarrow> peer_map (mg S') = peer_map (mg S)"
  "offer_step W S r a = Inr (t', S') \<Longrightarrow> peer_map (mg S') = peer_map (mg S)"
  "answer_step W S r a = Inr (t', S') \<Longrightarrow> peer_map (mg S') = peer_map (mg S)"
  "poll_step W S r a n m d = Inr (t', S') \<Longrightarrow> peer_map (mg S') = peer_map (mg S)"
  "detached_step S a = Inr (t', S') \<Longrightarrow> peer_map (mg S') = peer_map (mg S)"
  by (auto simp: step_defs Let_def register_peer_def split: option.splits if_splits kind.splits prod.splits)

lemma thread_step_peers:
  assumes "thread_step C W close S t = Inr (t', S')"
  obtains (same) "peer_map (mg S') = peer_map (mg S)"
    | (erased) k p a where "t = HangUp k p" "t' = Unregistered k a" "map_of (peer_map (mg S)) p = Some a"
        "peer_map (mg S') = smap_erase p (peer_map (mg S))"
    | (registered) r a where "t = Registering r a" "peer_map (mg S') = smap_insert (q_peerid r) a (peer_map (mg S))"
  using assms by (cases t) (auto dest: hangup_step_peers request_step_peers simp del: hangup_step.simps)

lemma smap_insert_entry: "e \<in> set (smap_insert k v m) \<Longrightarrow> e = (k, v) \<or> e \<in> set m"
proof -
  have "e \<in> set (smap_assign k v m) \<Longrightarrow> e = (k, v) \<or> e \<in> set m"
    by (induction m) (auto split: if_splits)
  then show "e \<in> set (smap_insert k v m) \<Longrightarrow> ?thesis" by (auto simp: smap_insert_def split: if_splits)
qed

lemma ids_ok_run:
  assumes ok: "ids_ok (ts, S)" and i: "i < length ts" and step: "thread_step C W close S (ts ! i) = Inr (t', S')"
  shows "ids_ok (ts[i := t'], S')"
proof -
  have ptr: "pointers_ok (ts, S)" using ok by (simp add: ids_ok_def)
  have live: "b < next_addr (mg S)" if "heap (mg S) b \<noteq> None" for b
    using ptr that by (simp add: pointers_ok_def Let_def)
  have names: "has_id S' b p" if "has_id S b p" "heap (mg S) b \<noteq> None" for b p
  proof (cases "\<exists>r. ts ! i = Creating r")
    case True
    then show ?thesis using create_step_names [of C W close S _ t' S' b p] live that step by auto
  next
    case False
    then show ?thesis using thread_step_keeps [OF step] that by (auto simp: keeps_def names_kept_def)
  qed
  have other: "has_id S' a (q_peerid r)" if "t \<in> set ts" "registers t = Some (r, a)" for t r a
  proof -
    from that obtain j where "j < length ts" "t = ts ! j" by (auto simp: in_set_conv_nth)
    then have "heap (mg S) a \<noteq> None" using owned_live [OF ptr] registers_owned [OF that(2)] by blast
    then show ?thesis using names ok that by (auto simp: ids_ok_def)
  qed
  have own: "has_id S' a (q_peerid r)" if "registers t' = Some (r, a)" for r a
  proof (cases "\<exists>r. ts ! i = Creating r")
    case True
    then show ?thesis using create_step_registers [of C W close S _ t' S' r a] step that by auto
  next
    case False
    then have "registers (ts ! i) = Some (r, a)" using thread_step_keeps [OF step] that by (auto simp: keeps_def)
    then show ?thesis using other [of "ts ! i"] i by simp
  qed
  have entry: "has_id S' (snd e) (fst e)" if "e \<in> set (peer_map (mg S))" for e
    using names ok that mapped_live [OF ptr that] by (auto simp: ids_ok_def)
  have "has_id S' (snd e) (fst e)" if "e \<in> set (peer_map (mg S'))" for e
    using step
  proof (cases rule: thread_step_peers)
    case (registered r a)
    have "fst e = q_peerid r \<and> snd e = a \<or> e \<in> set (peer_map (mg S))"
      using that registered(2) smap_insert_entry by fastforce
    moreover have "has_id S' a (q_peerid r)"
      using other [OF nth_mem [OF i], of r a] registered(1) by simp
    ultimately show ?thesis using entry by auto
  qed (use that entry in \<open>auto simp: smap_erase_def\<close>)
  then show ?thesis
    using pointers_ok_run [OF ptr i step] other own
    by (auto simp: ids_ok_def dest: set_update_subset_insert [THEN subsetD])
qed

lemma bystander_names:
  assumes "bystander (mg S) m'"
  shows "names_kept S (S\<lparr>mg := m'\<rparr>)"
  unfolding names_kept_def has_id_def
proof (intro allI impI)
  fix a p obs
  assume "\<forall>obs. heap (mg S) a = Some obs \<longrightarrow> m_peerid obs = p" and "heap (mg (S\<lparr>mg := m'\<rparr>)) a = Some obs"
  moreover have "map_option m_peerid (heap m' a) = map_option m_peerid (heap (mg S) a)"
    using assms by (simp add: bystander_def)
  ultimately show "m_peerid obs = p" by (cases "heap (mg S) a") auto
qed

lemma arriving_registers:
  assumes "arriving t"
  shows "registers t = None" and "owned t = []"
  using assms by (auto elim!: arriving_cases)

lemma ids_ok_outside:
  assumes "ids_ok (ts, S)" and "list_all arriving us" and "bystander (mg S) m'"
  shows "ids_ok (ts @ us, S\<lparr>mg := m'\<rparr>)"
proof -
  have "pointers_ok (ts @ us, S\<lparr>mg := m'\<rparr>)"
    using assms refs_same [OF _ bystander_pointers] refs_arrival arriving_registers(2)
    by (metis ids_ok_def list_all_iff)
  moreover have "\<forall>t \<in> set us. registers t = None"
    using assms(2) arriving_registers(1) by (auto simp: list_all_iff)
  ultimately show ?thesis
    using assms(1,3) bystander_names [OF assms(3)]
    by (auto simp: ids_ok_def names_kept_def bystander_def)
qed

interpretation ids: step_invariant "conc_step C W close" ids_ok
  for C and W :: "('pc, 'sd, 'cand) webrtc" and close
proof
  fix s s' :: "('pc, 'sd) system"
  assume ok: "ids_ok s" and "conc_step C W close s s'"
  from this(2) show "ids_ok s'"
  proof (cases rule: conc_step_cases)
    case (runs i t' S')
    with ok show ?thesis using ids_ok_run [of "fst s" "snd s" i] by simp
  next
    case (outside us m')
    with ok show ?thesis using ids_ok_outside [of "fst s" "snd s" us m'] by simp
  qed
qed

section \<open>One creation at a time\<close>

text \<open>A thread that has looked at the number of peers and has not yet registered its own.\<close>

fun looked :: "'sd thread \<Rightarrow> bool" where
  "looked (HangUp k p) \<longleftrightarrow> k \<noteq> None"
| "looked (Unregistered k a) \<longleftrightarrow> k \<noteq> None"
| "looked (Releasing k a ss) \<longleftrightarrow> k \<noteq> None"
| "looked (Erasing k a l s ss) \<longleftrightarrow> k \<noteq> None"
| "looked (Creating r) \<longleftrightarrow> True"
| "looked t \<longleftrightarrow> registers t \<noteq> None"

fun evicts :: "'sd thread \<Rightarrow> string option" where
  "evicts (HangUp (Some r) p) = Some p"
| "evicts t = None"

definition peers :: "'pc shared \<Rightarrow> int" where
  "peers S = int (length (peer_map (mg S)))"

definition room :: "config \<Rightarrow> 'pc shared \<Rightarrow> 'sd thread \<Rightarrow> bool" where
  "room C S t \<longleftrightarrow> (looked t \<longrightarrow>
     (case evicts t of
        None \<Rightarrow> peers S < m_maxpc C
      | Some p \<Rightarrow> peers S = m_maxpc C \<longrightarrow> map_of (peer_map (mg S)) p \<noteq> None))"

definition serial :: "('pc, 'sd) system \<Rightarrow> bool" where
  "serial s \<longleftrightarrow> length (filter looked (fst s)) \<le> 1 \<and> peers_named (mg (snd s))"

definition limit_ok :: "config \<Rightarrow> ('pc, 'sd) system \<Rightarrow> bool" where
  "limit_ok C s \<longleftrightarrow> ids_ok s \<and> 0 < m_maxpc C \<and> peers (snd s) \<le> m_maxpc C \<and> (\<forall>t \<in> set (fst s). room C (snd s) t)"

lemma looked_simps [simp]: "\<not> looked (refused r)" "looked (after_hangup k j) \<longleftrightarrow> k \<noteq> None" "evicts (after_hangup k j) = None"
  by (simp_all add: refused_def after_hangup_def split: option.splits)

lemma smap_erase_peers:
  assumes "map_of (m :: (string, nat) smap) p = Some a"
  shows "length (smap_erase p m) < length m"
  using length_smap_erase [OF map_of_SomeD [OF assms]] by simp

text \<open>The request that looks finds room, or a registered peer to evict.\<close>

lemma limit_step_room:
  assumes "ids_ok (ts, S)" and "peers_named (mg S)" and "0 < m_maxpc C" and "peers S \<le> m_maxpc C"
    and "limit_step C S r = Inr (t', S')"
  shows "room C S' t'"
proof -
  obtain x where x: "getOldestPeerCannection C (mg S) = Inr x"
    and t': "t' = (if x \<noteq> [] then HangUp (Some r) x else Creating r)" and S': "S' = S"
    using assms(5) by (auto simp: limit_step_def)
  show ?thesis
  proof (cases "peers S < m_maxpc C")
    case True
    then have "x = []" using x by (simp add: getOldestPeerCannection_def peers_def)
    with True t' S' show ?thesis by (simp add: room_def)
  next
    case False
    let ?m = "mg S"
    have old: "oldest ?m (peer_map ?m) (- 1) [] = Inr x"
      using x False assms(3) by (simp add: getOldestPeerCannection_def peers_def)
    have entries: "\<forall>e \<in> set (peer_map ?m). \<exists>obs. heap ?m (snd e) = Some obs \<and> m_peerid obs = fst e"
      using assms(1) mapped_live [of ts S] by (fastforce simp: ids_ok_def has_id_def)
    obtain e where e: "e \<in> set (peer_map ?m)" using False assms(3) by (cases "peer_map ?m") (auto simp: peers_def)
    then have "created ?m (snd e) < - 1" using assms(2) by (auto simp: peers_named_def below_max_word)
    then obtain e' where "e' \<in> set (peer_map ?m)" "x = fst e'"
      using oldest_result [OF entries old] e leD by blast
    then have "x \<noteq> []" and "map_of (peer_map ?m) x \<noteq> None"
      using assms(2) by (auto simp: peers_named_def map_of_eq_None_iff)
    then show ?thesis using t' S' by (simp add: room_def)
  qed
qed

lemma request_step_evicts:
  "create_step C W close S r = Inr (t', S') \<Longrightarrow> evicts t' = None"
  "register_step S r a = (t', S') \<Longrightarrow> evicts t' = None \<and> \<not> looked t'"
  "look_step C W S r a = Inr (t', S') \<Longrightarrow> evicts t' = None"
  "open_step C S r a = Inr (t', S') \<Longrightarrow> evicts t' = None"
  "insert_step C S r a p = Inr (t', S') \<Longrightarrow> evicts t' = None"
  "attach_step C W S r a = Inr (t', S') \<Longrightarrow> evicts t' = None"
  "offer_step W S r a = Inr (t', S') \<Longrightarrow> evicts t' = None"
  "answer_step W S r a = Inr (t', S') \<Longrightarrow> evicts t' = None"
  "poll_step W S r a n m d = Inr (t', S') \<Longrightarrow> evicts t' = None"
  by (auto simp: step_defs refused_def Let_def split: option.splits if_splits kind.splits prod.splits)

lemma request_step_looked:
  "look_step C W S r a = Inr (t', S') \<Longrightarrow> looked t' \<Longrightarrow> looked (Looking r a)"
  "open_step C S r a = Inr (t', S') \<Longrightarrow> looked t' \<Longrightarrow> looked (Opening r a)"
  "insert_step C S r a p = Inr (t', S') \<Longrightarrow> looked t' \<Longrightarrow> looked (Inserting r a p)"
  "attach_step C W S r a = Inr (t', S') \<Longrightarrow> looked t' \<Longrightarrow> looked (Attaching r a)"
  "offer_step W S r a = Inr (t', S') \<Longrightarrow> \<not> looked t'"
  "answer_step W S r a = Inr (t', S') \<Longrightarrow> \<not> looked t'"
  "poll_step W S r a n m d = Inr (t', S') \<Longrightarrow> \<not> looked t'"
  "detached_step S a = Inr (t', S') \<Longrightarrow> \<not> looked t'"
  by (auto simp: step_defs Let_def split: option.splits if_splits kind.splits prod.splits)

lemma hangup_step_looked:
  assumes "hangup_step W close S t = Inr (t', S')" and "looked t'" and "t' \<noteq> t"
  shows "looked t \<and> evicts t' = None"
  using assms
  by (cases "(W, close, S, t)" rule: hangup_step.cases) (auto split: option.splits if_splits)

lemma looked_step:
  assumes "thread_step C W close S t = Inr (t', S')" and "looked t'" and "\<And>r. t \<noteq> Limiting r"
  shows "looked t \<and> evicts t' = None"
proof -
  have "t' \<noteq> t"
    using assms thread_step_rank [OF assms(1)] by (cases "is_ended t") (auto simp: is_ended_def rank_less_def split: thread.splits)
  then show ?thesis
    using assms
    by (cases t) (auto dest: hangup_step_looked request_step_looked request_step_evicts simp del: hangup_step.simps looked.simps(6-))
qed

lemma room_cong: "peer_map (mg S') = peer_map (mg S) \<Longrightarrow> room C S' t = room C S t"
  by (auto simp: room_def peers_def split: option.splits)

lemma room_less: "peers S' < m_maxpc C \<Longrightarrow> room C S' t"
  by (auto simp: room_def split: option.splits)

lemma serial_others:
  assumes "length (filter P xs) \<le> 1" and "i < length xs" and "P (xs ! i)" and "j < length xs" and "j \<noteq> i"
  shows "\<not> P (xs ! j)"
proof
  assume "P (xs ! j)"
  with assms have "{i, j} \<subseteq> {k. k < length xs \<and> P (xs ! k)}" by auto
  then have "card {i, j} \<le> card {k. k < length xs \<and> P (xs ! k)}" by (rule card_mono [rotated]) simp
  with assms show False by (simp add: length_filter_conv_card)
qed

text \<open>A step that leaves the map as it is leaves its thread room.\<close>

lemma same_room:
  assumes "ids_ok (ts, S)" and "peers_named (mg S)" and "0 < m_maxpc C" and "peers S \<le> m_maxpc C" and "room C S t"
    and step: "thread_step C W close S t = Inr (t', S')" and same: "peer_map (mg S') = peer_map (mg S)"
  shows "room C S t'"
proof (cases "looked t' \<and> (\<forall>r. t \<noteq> Limiting r)")
  case True
  then have l: "looked t" "evicts t' = None" using looked_step [OF step] by auto
  have "peers S < m_maxpc C"
  proof (cases "evicts t")
    case None
    with l assms(5) show ?thesis by (simp add: room_def)
  next
    case (Some p)
    then obtain r where t: "t = HangUp (Some r) p" by (cases t rule: evicts.cases) auto
    have "map_of (peer_map (mg S)) p = None"
      using step same smap_erase_peers [of "peer_map (mg S)" p] unfolding t by (auto split: option.splits)
    with assms(4,5) t show ?thesis by (simp add: room_def)
  qed
  with l show ?thesis by (simp add: room_def)
next
  case False
  then consider "\<not> looked t'" | r where "t = Limiting r" by blast
  then show ?thesis
  proof cases
    case 1
    then show ?thesis by (simp add: room_def)
  next
    case 2
    then have "room C S' t'" using limit_step_room [OF assms(1-4), of r t' S'] step by simp
    then show ?thesis using room_cong [OF same] by blast
  qed
qed

lemma limit_ok_run:
  assumes ok: "limit_ok C (ts, S)" and ser: "serial (ts, S)" and i: "i < length ts"
    and step: "thread_step C W close S (ts ! i) = Inr (t', S')"
  shows "limit_ok C (ts[i := t'], S')"
proof -
  have ids: "ids_ok (ts, S)" and pos: "0 < m_maxpc C" and le: "peers S \<le> m_maxpc C" and named: "peers_named (mg S)"
    and rooms: "\<And>j. j < length ts \<Longrightarrow> room C S (ts ! j)"
    using ok ser by (auto simp: limit_ok_def serial_def)
  have "peers S' \<le> m_maxpc C \<and> room C S' t' \<and> (\<forall>j < length ts. j \<noteq> i \<longrightarrow> room C S' (ts ! j))"
    using step
  proof (cases rule: thread_step_peers)
    case same
    have "room C S t'" using same_room [OF ids named pos le rooms [OF i] step same] .
    with le rooms show ?thesis by (simp add: room_cong [OF same]) (simp add: peers_def same)
  next
    case (erased k p a)
    then have "peers S' < m_maxpc C" using smap_erase_peers [of "peer_map (mg S)" p a] le by (simp add: peers_def)
    then show ?thesis by (simp add: room_less)
  next
    case (registered r a)
    then have "register_step S r a = (t', S')" and l: "looked (ts ! i)" using step by simp_all
    then have "\<not> looked t'" using request_step_evicts(2) by blast
    moreover have "peers S' \<le> m_maxpc C"
      using rooms [OF i] registered length_smap_insert [of "q_peerid r" a "peer_map (mg S)"] by (simp add: room_def peers_def)
    moreover have "\<not> looked (ts ! j)" if "j < length ts" "j \<noteq> i" for j
      using serial_others [of looked ts i j] ser l i that by (simp add: serial_def)
    ultimately show ?thesis by (simp add: room_def)
  qed
  moreover from this have "room C S' (ts[i := t'] ! j)" if "j < length ts" for j
    using that by (cases "j = i") simp_all
  ultimately show ?thesis
    using ids_ok_run [OF ids i step] pos by (auto simp: limit_ok_def in_set_conv_nth)
qed

interpretation limited_run: step_invariant "\<lambda>s s'. serial s \<and> conc_step C W close s s'" "limit_ok C"
  for C and W :: "('pc, 'sd, 'cand) webrtc" and close
proof
  fix s s' :: "('pc, 'sd) system"
  assume ok: "limit_ok C s" and "serial s \<and> conc_step C W close s s'"
  then have ser: "serial s" and step: "conc_step C W close s s'" by simp_all
  have "ids_ok s" using ok by (simp add: limit_ok_def)
  then have ids': "ids_ok s'" using step by (rule ids.step_inv)
  from step show "limit_ok C s'"
  proof (cases rule: conc_step_cases)
    case (runs i t' S')
    with ok ser show ?thesis using limit_ok_run [of C "fst s" "snd s" i] by simp
  next
    case (outside us m')
    let ?S = "(snd s)\<lparr>mg := m'\<rparr>"
    have same: "peer_map (mg ?S) = peer_map (mg (snd s))" using outside(3) by (simp add: bystander_def)
    have "room C ?S t = room C (snd s) t" for t :: "'sd thread" by (rule room_cong [OF same])
    moreover have "peers ?S = peers (snd s)" unfolding peers_def same ..
    ultimately have "peers ?S \<le> m_maxpc C" "\<forall>t \<in> set (fst s). room C ?S t" using ok by (simp_all add: limit_ok_def)
    moreover have "\<not> looked t" if "t \<in> set us" for t
      using outside(2) that by (auto simp: list_all_iff elim!: arriving_cases)
    ultimately show ?thesis using outside(1) ok ids' by (auto simp: limit_ok_def room_def)
  qed
qed

text \<open>
  C9. The limit under interleaving. When at every moment one request at most is between its look at
  the number of peers and the registration of its own, and every registered peer has a name, at
  most \<open>m_maxpc\<close> peers are registered, however these requests, \<open>hangUp\<close> and the callbacks
  interleave.
\<close>

theorem serial_creation_keeps_limit:
  fixes W :: "('pc, 'sd, 'cand) webrtc"
  assumes "0 < m_maxpc C" and "(\<lambda>s s'. serial s \<and> conc_step C W close s s')\<^sup>*\<^sup>* init_system (ts, S)"
  shows "int (length (peer_map (mg S))) \<le> m_maxpc C"
proof -
  have "pointers_ok (init_system :: ('pc, 'sd) system)"
    by (simp add: pointers_ok_def init_system_def init_manager_def refs_def mapped_def)
  then have "limit_ok C (init_system :: ('pc, 'sd) system)"
    using assms(1) by (simp add: limit_ok_def ids_ok_def init_system_def init_manager_def peers_def)
  with assms(2) have "limit_ok C (ts, S)" by (rule limited_run.steps_inv)
  then show ?thesis by (simp add: limit_ok_def peers_def)
qed

text \<open>Two offers one after the other under a limit of one, while a third request waits to look.\<close>

fun serial_schedule ::
  "config \<Rightarrow> ('pc, 'sd, 'cand) webrtc \<Rightarrow> ('pc \<Rightarrow> 'pc) \<Rightarrow> nat list \<Rightarrow> ('pc, 'sd) system \<Rightarrow> bool" where
  "serial_schedule C W close [] s \<longleftrightarrow> True"
| "serial_schedule C W close (i # is') s \<longleftrightarrow> serial s \<and>
     (case schedule C W close [i] s of Inl _ \<Rightarrow> False | Inr s' \<Rightarrow> serial_schedule C W close is' s')"

lemma serial_schedule_runs:
  assumes "serial_schedule C W close is' s"
  shows "\<exists>s'. schedule C W close is' s = Inr s' \<and> (\<lambda>s s'. serial s \<and> conc_step C W close s s')\<^sup>*\<^sup>* s s'"
  using assms
proof (induction is' arbitrary: s)
  case Nil
  then show ?case by simp
next
  case (Cons i is')
  show ?case
  proof (cases "i < length (fst s) \<and> \<not> is_ended (fst s ! i)")
    case True
    with Cons.prems obtain t' S' where step: "thread_step C W close (snd s) (fst s ! i) = Inr (t', S')"
      and rest: "serial_schedule C W close is' ((fst s)[i := t'], S')" and "serial s" by (auto split: sum.splits)
    moreover have "conc_step C W close s ((fst s)[i := t'], S')"
      using conc_step.run [of i "fst s" C W close "snd s" t' S'] True step by simp
    moreover obtain s' where "schedule C W close is' ((fst s)[i := t'], S') = Inr s'"
        "(\<lambda>s s'. serial s \<and> conc_step C W close s s')\<^sup>*\<^sup>* ((fst s)[i := t'], S') s'"
      using Cons.IH [OF rest] by blast
    ultimately show ?thesis using True by (auto intro: converse_rtranclp_into_rtranclp)
  next
    case False
    then have "schedule C W close [i] s = Inr s" "schedule C W close (i # is') s = schedule C W close is' s"
      by (simp_all only: schedule.simps if_False)
    with Cons show ?thesis by simp
  qed
qed

lemma serial_arrivals:
  assumes "arrivals ts" and "peers_named (mg S)" and "\<forall>t \<in> set us. \<not> looked t"
  shows "(\<lambda>s s'. serial s \<and> conc_step C W close s s')\<^sup>*\<^sup>* (us, S) (us @ ts, S)"
  using assms
proof (induction ts arbitrary: us)
  case Nil
  then show ?case by simp
next
  case (Cons t ts)
  then consider p where "t = HangUp None p" | r where "t = Limiting r"
    by (auto simp: arrivals_def split: thread.splits option.splits)
  then have "conc_step C W close (us, S) (us @ [t], S) \<and> \<not> looked t"
    by cases (simp_all add: conc_step.hangup conc_step.request)
  moreover have "serial (us, S)" using Cons.prems by (simp add: serial_def filter_empty_conv [THEN iffD2])
  ultimately show ?case
    using Cons.IH [of "us @ [t]"] Cons.prems by (auto simp: arrivals_def intro: converse_rtranclp_into_rtranclp)
qed

definition serial_run :: "string thread list \<times> nat list" where
  "serial_run = ([Limiting (demo_req ''a'' ForOffer), Limiting (demo_req ''b'' ForOffer), Limiting (demo_req ''c'' ForOffer)],
     replicate 9 0 @ replicate 14 1)"

theorem serial_creation_keeps_limit_witness:
  "int (length (peer_map (mg (snd (after_schedule one_peer (fst serial_run) (snd serial_run)))))) \<le> m_maxpc one_peer \<and>
   peer_pc (mg (snd (after_schedule one_peer (fst serial_run) (snd serial_run)))) ''b'' \<noteq> None"
proof
  let ?S = "\<lparr>mg = init_manager, kept = (\<lambda>_. None)\<rparr> :: sender list shared"
  let ?r = "\<lambda>s s'. serial s \<and> conc_step one_peer demo_webrtc id s s'"
  have "serial_schedule one_peer demo_webrtc id (snd serial_run) (fst serial_run, ?S)" by code_simp
  then obtain s' where s': "schedule one_peer demo_webrtc id (snd serial_run) (fst serial_run, ?S) = Inr s'"
    and run: "?r\<^sup>*\<^sup>* (fst serial_run, ?S) s'" using serial_schedule_runs by blast
  have "?r\<^sup>*\<^sup>* ([], ?S) ([] @ fst serial_run, ?S)"
    by (rule serial_arrivals) (simp_all add: arrivals_def serial_run_def peers_named_def init_manager_def)
  with run have "?r\<^sup>*\<^sup>* init_system (fst s', snd s')" by (simp add: init_system_def)
  from serial_creation_keeps_limit [OF _ this]
  show "int (length (peer_map (mg (snd (after_schedule one_peer (fst serial_run) (snd serial_run)))))) \<le> m_maxpc one_peer"
    using s' by (simp add: after_schedule_def one_peer_def)
  show "peer_pc (mg (snd (after_schedule one_peer (fst serial_run) (snd serial_run)))) ''b'' \<noteq> None"
    by code_simp
qed

end
