(* ===== verification/Peer_Sources.thy ===== *)
theory Peer_Sources
  imports Peer_Serial
begin

text \<open>
  Where the shared sources come from, over all interleavings of the requests: every source in
  the stream map was opened by a request for its label, through the publish filter and with the
  decoders of that request, and a request never sends a source that was opened for the other
  codec.
\<close>

section \<open>Sources and labels\<close>

text \<open>The null decoder, for the sources that decode.\<close>

fun decoder_null :: "video_source \<Rightarrow> bool option" where
  "decoder_null (LiveVideo c u opts s w n) = Some n"
| "decoder_null (RtmpVideo u s n) = Some n"
| "decoder_null v = None"

definition audio_scheme :: "audio_source \<Rightarrow> string" where
  "audio_scheme a =
     (case a of
        LiveAudio MKVClient _ _ _ \<Rightarrow> ''file://''
      | LiveAudio _ _ _ _ \<Rightarrow> ''rtsp://''
      | DeviceAudio \<Rightarrow> ''audiocap://'')"

lemma created_decoders:
  "RTSPVideoCapturer_Create u opts n = Inr (Some v) \<Longrightarrow> decoder_null v = Some n"
  "FileVideoCapturer_Create u opts n = Inr (Some v) \<Longrightarrow> decoder_null v = Some n"
  "RTPVideoCapturer_Create u opts n = Inr (Some v) \<Longrightarrow> decoder_null v = Some n"
  "RtmpVideoSource_Create u opts n = Inr (Some v) \<Longrightarrow> decoder_null v = Some n"
  "ScreenCapturer_Create E u opts = Inr (Some v) \<Longrightarrow> decoder_null v = None"
  "WindowCapturer_Create E u opts = Inr (Some v) \<Longrightarrow> decoder_null v = None"
  "V4l2Capturer_Create E u opts = Inr (Some v) \<Longrightarrow> decoder_null v = None"
  "VcmCapturer_Create E u opts = Inr (Some v) \<Longrightarrow> decoder_null v = None"
  by (auto simp: capturer_creates Let_def split: if_splits)

lemma CreateVideoSource_decoder:
  "CreateVideoSource E url opts n = Inr (Some v) \<Longrightarrow> decoder_null v \<in> {None, Some n}"
  by (auto simp: CreateVideoSource_def dest!: created_decoders split: if_splits)

lemma CreateVideoSource_scheme:
  "CreateVideoSource E url opts n = Inr (Some v) \<Longrightarrow> publish E (source_scheme v)"
  by (auto simp: CreateVideoSource_def dest!: created_schemes split: if_splits)

lemma CreateAudioSource_scheme:
  "CreateAudioSource E A lg url opts = Inr (Some a, lg') \<Longrightarrow> publish E (audio_scheme a)"
  by (auto simp: CreateAudioSource_def audio_scheme_def Let_def split: if_splits)

text \<open>A label shows the codec, unless the hash of an RTSP stream confuses two texts.\<close>

lemma to_string_nat_inj:
  assumes "to_string (int m) = to_string (int n)"
  shows "m = n"
proof -
  have "nat_string m = nat_string n" using assms by (simp add: to_string_def)
  then have "dec_value (nat_string m) 0 = dec_value (nat_string n) 0" by (rule arg_cong)
  then show ?thesis unfolding dec_value_nat_string by simp
qed

lemma to_string_last: "is_digit (last (to_string (int n)))"
  using nat_string_digits [OF last_in_set [OF nat_string_nonempty]] by (simp add: to_string_def)

text \<open>The codec as the end of the text that a label is made of.\<close>

definition codec_suffix :: "bool \<Rightarrow> string" where
  "codec_suffix n = (if n then ''|nullcoder'' else ''|builtin'')"

lemma sanitize_last:
  "last (sanitizeLabel h (x @ codec_suffix n)) =
    (if str_find ''rtsp:'' (x @ codec_suffix n) \<noteq> None then last (to_string (int (h (x @ codec_suffix n))))
     else if n then CHR ''r'' else CHR ''n'')"
  by (cases n) (simp_all add: sanitizeLabel_def codec_suffix_def ignoreInLabel_def)

lemma sanitize_codec:
  assumes eq: "sanitizeLabel h (x @ codec_suffix True) = sanitizeLabel h (y @ codec_suffix False)"
  shows "h (x @ codec_suffix True) = h (y @ codec_suffix False)"
proof -
  let ?x = "x @ codec_suffix True" and ?y = "y @ codec_suffix False"
  have d: "\<not> is_digit (CHR ''r'')" "\<not> is_digit (CHR ''n'')" by (simp_all add: is_digit_def)
  have last: "last (sanitizeLabel h ?x) = last (sanitizeLabel h ?y)" by (simp only: eq)
  show ?thesis
  proof (cases "str_find ''rtsp:'' ?x \<noteq> None")
    case hx: True
    have "is_digit (last (sanitizeLabel h ?x))" using hx to_string_last by (simp add: sanitize_last)
    then have hy: "str_find ''rtsp:'' ?y \<noteq> None"
      using d(2) unfolding last by (auto simp: sanitize_last split: if_splits)
    then show ?thesis using hx eq to_string_nat_inj by (simp add: sanitizeLabel_def)
  next
    case False
    then have "last (sanitizeLabel h ?y) = CHR ''r''" using last by (simp add: sanitize_last)
    then have "last (to_string (int (h ?y))) = CHR ''r''" by (simp add: sanitize_last split: if_splits)
    then show ?thesis using d(1) to_string_last [of "h ?y"] by simp
  qed
qed

text \<open>The text that the label of a request is made of.\<close>

definition label_text :: "config \<Rightarrow> 'sd request \<Rightarrow> string" where
  "label_text C r =
     (case stream_request C r of
        Inl e \<Rightarrow> []
      | Inr (opts, video, audio, l) \<Rightarrow>
          (q_video r @ ''|'' @ q_audio r @ ''|'' @ capturer_options video audio opts) @ codec_suffix (request_null C r))"

lemma stream_request_text:
  "stream_request C r = Inr (opts, video, audio, l) \<Longrightarrow> l = sanitizeLabel (hash_fn C) (label_text C r)"
  unfolding label_text_def by (auto simp: stream_request_def Let_def stream_label_def codec_suffix_def)

lemma label_text_codec:
  assumes "sanitizeLabel (hash_fn C) (label_text C r) = sanitizeLabel (hash_fn C) (label_text C q)"
    and "stream_request C r = Inr (opts, video, audio, l)" and "stream_request C q = Inr (opts', video', audio', l')"
    and "request_null C r \<noteq> request_null C q"
  shows "hash_fn C (label_text C r) = hash_fn C (label_text C q)"
proof -
  obtain x y where "label_text C r = x @ codec_suffix (request_null C r)" "label_text C q = y @ codec_suffix (request_null C q)"
    using assms(2,3) by (simp add: label_text_def)
  with assms(1,4) sanitize_codec [of "hash_fn C" x y] sanitize_codec [of "hash_fn C" y x] show ?thesis
    by (cases "request_null C r"; cases "request_null C q") simp_all
qed

lemma label_text_last:
  "stream_request C r = Inr (opts, video, audio, l)
    \<Longrightarrow> last (label_text C r) = (if request_null C r then CHR ''r'' else CHR ''n'')"
  by (simp add: label_text_def codec_suffix_def)

lemma label_text_differs:
  assumes "stream_request C q = Inr (opts, video, audio, l)" and "stream_request C r = Inr (opts', video', audio', l')"
    and "request_null C q \<noteq> request_null C r"
  shows "label_text C q \<noteq> label_text C r"
proof
  assume "label_text C q = label_text C r"
  then have "last (label_text C q) = last (label_text C r)" by simp
  with assms show False by (simp add: label_text_last split: if_splits)
qed

section \<open>Provenance\<close>

text \<open>The sources of a request for a label, as its calls to the factory gave them.\<close>

definition opened_by :: "config \<Rightarrow> 'sd request \<Rightarrow> string \<Rightarrow> stream_pair \<Rightarrow> bool" where
  "opened_by C r l pair \<longleftrightarrow> (\<exists>opts video audio lg lg'. stream_request C r = Inr (opts, video, audio, l) \<and>
     CreateVideoSource (capture C) video opts (request_null C r) = Inr (fst pair) \<and>
     CreateAudioSource (capture C) (adm C) lg audio opts = Inr (snd pair, lg'))"

definition sources_ok :: "config \<Rightarrow> ('pc, 'sd) system \<Rightarrow> bool" where
  "sources_ok C s \<longleftrightarrow>
     (\<forall>l pair. source_of l s = Some pair \<longrightarrow> (\<exists>r :: 'sd request. opened_by C r l pair)) \<and>
     (\<forall>r a pair. Inserting r a pair \<in> set (fst s) \<longrightarrow> (\<exists>l. opened_by C r l pair))"

lemma hangup_step_inserting:
  assumes "hangup_step W close S t = Inr (Inserting r a pair, S')"
  shows "t = Inserting r a pair"
  using assms
  by (cases "(W, close, S, t)" rule: hangup_step.cases) (auto simp: after_hangup_def split: option.splits if_splits)

lemma open_step_opened:
  "open_step C S r a = Inr (Inserting r' a' pair, S') \<Longrightarrow> \<exists>l. opened_by C r' l pair"
  by (fastforce simp: open_step_def opened_by_def)

lemma request_step_inserting:
  "limit_step C S r = Inr (t', S') \<Longrightarrow> t' \<noteq> Inserting r' a' pair"
  "create_step C W close S r = Inr (t', S') \<Longrightarrow> t' \<noteq> Inserting r' a' pair"
  "register_step S r a = (t', S') \<Longrightarrow> t' \<noteq> Inserting r' a' pair"
  "look_step C W S r a = Inr (t', S') \<Longrightarrow> t' \<noteq> Inserting r' a' pair"
  "insert_step C S r a p = Inr (t', S') \<Longrightarrow> t' \<noteq> Inserting r' a' pair"
  "attach_step C W S r a = Inr (t', S') \<Longrightarrow> t' \<noteq> Inserting r' a' pair"
  "offer_step W S r a = Inr (t', S') \<Longrightarrow> t' \<noteq> Inserting r' a' pair"
  "answer_step W S r a = Inr (t', S') \<Longrightarrow> t' \<noteq> Inserting r' a' pair"
  "poll_step W S r a n m d = Inr (t', S') \<Longrightarrow> t' \<noteq> Inserting r' a' pair"
  "detached_step S a = Inr (t', S') \<Longrightarrow> t' \<noteq> Inserting r' a' pair"
  by (auto simp: step_defs refused_def Let_def split: option.splits if_splits kind.splits prod.splits)

lemma thread_step_inserting:
  assumes "thread_step C W close S t = Inr (Inserting r a pair, S')"
  shows "t = Inserting r a pair \<or> (\<exists>l. opened_by C r l pair)"
  using assms
  by (cases t) (auto dest: open_step_opened hangup_step_inserting request_step_inserting simp del: hangup_step.simps)

lemma insert_step_streams:
  "insert_step C S r a p = Inr (t', S')
    \<Longrightarrow> \<exists>opts video audio l. stream_request C r = Inr (opts, video, audio, l) \<and>
          stream_map (mg S') = smap_insert l p (stream_map (mg S))"
  by (auto simp: insert_step_def)

lemma thread_step_entry:
  assumes "thread_step C W close S t = Inr (t', S')" and "map_of (stream_map (mg S')) l = Some p"
  shows "map_of (stream_map (mg S)) l = Some p \<or>
    (\<exists>r a opts video audio. t = Inserting r a p \<and> stream_request C r = Inr (opts, video, audio, l))"
proof (cases "\<exists>r a q. t = Inserting r a q")
  case True
  then show ?thesis
    using assms by (auto simp: map_of_smap_insert dest!: insert_step_streams split: if_splits)
next
  case False
  then consider "stream_map (mg S') = stream_map (mg S)"
    | l' where "stream_map (mg S') = smap_erase l' (stream_map (mg S))"
    using assms(1) by (cases t) (auto dest: hangup_step_streams request_step_streams simp del: hangup_step.simps)
  then show ?thesis using assms(2) by cases (auto split: if_splits)
qed

lemma sources_ok_run:
  fixes ts :: "'sd thread list"
  assumes ok: "sources_ok C (ts, S)" and i: "i < length ts" and step: "thread_step C W close S (ts ! i) = Inr (t', S')"
  shows "sources_ok C (ts[i := t'], S')"
proof -
  have old: "\<exists>l. opened_by C r l p" if "Inserting r a p \<in> set ts" for r a p
    using ok that unfolding sources_ok_def fst_conv by blast
  have "\<exists>r :: 'sd request. opened_by C r l p" if "map_of (stream_map (mg S')) l = Some p" for l p
    using thread_step_entry [OF step that]
  proof
    assume "map_of (stream_map (mg S)) l = Some p"
    with ok show ?thesis unfolding sources_ok_def source_of_def snd_conv by blast
  next
    assume "\<exists>r a opts video audio. ts ! i = Inserting r a p \<and> stream_request C r = Inr (opts, video, audio, l)"
    then obtain r a opts video audio where t: "ts ! i = Inserting r a p" and l: "stream_request C r = Inr (opts, video, audio, l)"
      by blast
    from old [of r a p] t i obtain l' where "opened_by C r l' p" by (metis nth_mem)
    moreover from this l have "l' = l" by (auto simp: opened_by_def)
    ultimately show ?thesis by blast
  qed
  moreover have "\<exists>l. opened_by C r l p" if "Inserting r a p \<in> set (ts[i := t'])" for r a p
  proof (cases "t' = Inserting r a p")
    case True
    with step old [of r a p] i thread_step_inserting [of C W close S "ts ! i" r a p S'] show ?thesis
      by (metis nth_mem)
  next
    case False
    with that have "Inserting r a p \<in> set ts" using set_update_subset_insert [of ts i t'] by auto
    then show ?thesis by (rule old)
  qed
  ultimately show ?thesis by (auto simp: sources_ok_def source_of_def)
qed

interpretation provenance: step_invariant "conc_step C W close" "sources_ok C"
  for C and W :: "('pc, 'sd, 'cand) webrtc" and close
proof
  fix s s' :: "('pc, 'sd) system"
  assume ok: "sources_ok C s" and "conc_step C W close s s'"
  from this(2) show "sources_ok C s'"
  proof (cases rule: conc_step_cases)
    case (runs i t' S')
    with ok show ?thesis using sources_ok_run [of C "fst s" "snd s" i] by simp
  next
    case (outside us m')
    then have "Inserting r a p \<notin> set us" for r a p by (auto simp: list_all_iff arriving_def)
    with outside ok show ?thesis by (auto simp: sources_ok_def source_of_def bystander_def)
  qed
qed

lemma concurrent_sources:
  fixes s :: "('pc, 'sd) system"
  assumes "concurrent C W close s"
  shows "sources_ok C s"
proof -
  have "sources_ok C (init_system :: ('pc, 'sd) system)"
    by (simp add: sources_ok_def source_of_def init_system_def init_manager_def)
  with assms show ?thesis unfolding concurrent_def using provenance.steps_inv by blast
qed

text \<open>
  C27. No source gets around the publish filter: whatever requests arrive and however they
  interleave, every source that is shared under a label was opened by a request for this label,
  and the filter accepts the scheme of its kind.
\<close>

theorem shared_sources_published:
  fixes s :: "('pc, 'sd) system"
  assumes "concurrent C W close s" and "source_of l s = Some (v, a)"
  shows "(\<forall>video. v = Some video \<longrightarrow> publish (capture C) (source_scheme video)) \<and>
    (\<forall>audio. a = Some audio \<longrightarrow> publish (capture C) (audio_scheme audio)) \<and>
    (\<exists>(r :: 'sd request) opts videourl audiourl. stream_request C r = Inr (opts, videourl, audiourl, l) \<and>
       CreateVideoSource (capture C) videourl opts (request_null C r) = Inr v)"
proof -
  obtain r :: "'sd request" where "opened_by C r l (v, a)"
    using concurrent_sources [OF assms(1)] assms(2) unfolding sources_ok_def by blast
  then obtain opts videourl audiourl lg lg' where r: "stream_request C r = Inr (opts, videourl, audiourl, l)"
      "CreateVideoSource (capture C) videourl opts (request_null C r) = Inr v"
      "CreateAudioSource (capture C) (adm C) lg audiourl opts = Inr (a, lg')"
    by (auto simp: opened_by_def)
  then show ?thesis using CreateVideoSource_scheme CreateAudioSource_scheme by blast
qed

text \<open>
  C35. Codecs are not mixed: the source that a request finds under its label and adds to its
  connection has the decoders of the codec of the request, when it has any; or else it was opened
  by a request for the other codec, and the hash function, which replaces the text of the label of an RTSP
  stream, takes the two different texts to the same number.
\<close>

theorem attached_source_fits_codec:
  fixes S :: "'pc shared" and ts :: "'sd thread list"
  assumes "concurrent C W close (ts, S)"
    and "stream_request C r = Inr (opts, videourl, audiourl, l)"
    and "map_of (stream_map (mg S)) l = Some (Some video, a)"
  shows "decoder_null video \<in> {None, Some (request_null C r)} \<or>
    (\<exists>q :: 'sd request. opened_by C q l (Some video, a) \<and> request_null C q \<noteq> request_null C r \<and>
       label_text C q \<noteq> label_text C r \<and> hash_fn C (label_text C q) = hash_fn C (label_text C r))"
proof -
  have "source_of l (ts, S) = Some (Some video, a)" using assms(3) by (simp add: source_of_def)
  then obtain q :: "'sd request" where opened: "opened_by C q l (Some video, a)"
    using concurrent_sources [OF assms(1)] unfolding sources_ok_def by blast
  then obtain opts' videourl' audiourl' where q: "stream_request C q = Inr (opts', videourl', audiourl', l)"
      "CreateVideoSource (capture C) videourl' opts' (request_null C q) = Inr (Some video)"
    by (auto simp: opened_by_def)
  show ?thesis
  proof (cases "request_null C q = request_null C r")
    case True
    then show ?thesis using CreateVideoSource_decoder [OF q(2)] by simp
  next
    case False
    have "sanitizeLabel (hash_fn C) (label_text C q) = sanitizeLabel (hash_fn C) (label_text C r)"
      using stream_request_text [OF assms(2)] stream_request_text [OF q(1)] by simp
    then have "hash_fn C (label_text C q) = hash_fn C (label_text C r)"
      using label_text_codec [OF _ q(1) assms(2) False] by blast
    moreover have "label_text C q \<noteq> label_text C r" using label_text_differs [OF q(1) assms(2) False] .
    ultimately show ?thesis using opened False by blast
  qed
qed

theorem shared_sources_published_witness:
  "publish (capture demo_config) (source_scheme (VcmVideo ''cam1'' 800 600 0)) \<and>
   source_of race_label race_system = Some (Some (VcmVideo ''cam1'' 800 600 0), None)"
proof -
  have s: "source_of race_label race_system = Some (Some (VcmVideo ''cam1'' 800 600 0), None)" by code_simp
  with shared_sources_published [OF race_system_concurrent s] show ?thesis by blast
qed

text \<open>An RTSP stream of a peer with null codecs, seen by a second request.\<close>

definition null_config :: config where
  "null_config = demo_config\<lparr>m_useNullCodec := True, hash_fn := (\<lambda>s. if last s = CHR ''r'' then 0 else 1)\<rparr>"

definition rtsp_request :: "string \<Rightarrow> string request" where
  "rtsp_request p = (demo_req p ForOffer)\<lparr>q_video := ''rtsp://camera/live''\<rparr>"

definition null_system :: "(sender list, string) system" where
  "null_system = after_schedule null_config [Limiting (rtsp_request ''a''), Limiting (rtsp_request ''b'')] [0, 0, 0, 0, 0, 1, 1]"

theorem attached_source_fits_codec_witness:
  "let video = LiveVideo RTSPConnection ''rtsp://camera/live'' [] (projr (VideoScaler [])) False True in
    map_of (stream_map (mg (snd null_system))) ''0'' = Some (Some video, None) \<and>
    decoder_null video \<in> {None, Some (request_null null_config (rtsp_request ''b''))}"
proof -
  let ?video = "LiveVideo RTSPConnection ''rtsp://camera/live'' [] (projr (VideoScaler [])) False True"
  have run: "concurrent null_config demo_webrtc id (fst null_system, snd null_system)"
    unfolding null_system_def prod.collapse by (rule after_schedule_concurrent) code_simp+
  have r: "stream_request null_config (rtsp_request ''b'') = Inr ([], ''rtsp://camera/live'', [], ''0'')" by code_simp
  have h: "hash_fn null_config t = (if last t = CHR ''r'' then 0 else 1)" for t by (simp add: null_config_def)
  have apart: "hash_fn null_config (label_text null_config q) \<noteq> hash_fn null_config (label_text null_config (rtsp_request ''b''))"
    if q: "opened_by null_config q ''0'' p" "request_null null_config q \<noteq> request_null null_config (rtsp_request ''b'')"
    for q :: "string request" and p
  proof -
    obtain opts video audio where "stream_request null_config q = Inr (opts, video, audio, ''0'')"
      using q(1) unfolding opened_by_def by blast
    from label_text_last [OF this] label_text_last [OF r] q(2) show ?thesis by (simp add: h split: if_splits)
  qed
  have s: "map_of (stream_map (mg (snd null_system))) ''0'' = Some (Some ?video, None)" by code_simp
  from attached_source_fits_codec [OF run r s] apart s show ?thesis unfolding Let_def by blast
qed

end
