(* ===== verification/Peer_Failures.thy ===== *)
theory Peer_Failures
  imports Peer_Serial
begin

text \<open>
  Connections that fail while requests run. \<open>OnIceConnectionChange\<close> starts a detached thread
  that hangs the peer up by the id it reads from its observer. Shown over all interleavings: once
  this thread has ended the observer is registered no more. On the way the thread can follow an
  observer that a client has deleted, and hang up the session of a client that came back under
  the same id.
\<close>

section \<open>A failed peer is unregistered\<close>

text \<open>No thread is going to register the observer at an address that has been given out.\<close>

definition settled :: "nat \<Rightarrow> ('pc, 'sd) system \<Rightarrow> bool" where
  "settled a s \<longleftrightarrow> a < next_addr (mg (snd s)) \<and> (\<forall>t \<in> set (fst s). \<forall>r. registers t \<noteq> Some (r, a))"

definition registered_at :: "nat \<Rightarrow> 'pc shared \<Rightarrow> bool" where
  "registered_at a S \<longleftrightarrow> a \<in> snd ` set (peer_map (mg S))"

text \<open>How far the thread at a place is with the observer.\<close>

definition hanging_up :: "nat \<Rightarrow> nat \<Rightarrow> ('pc, 'sd) system \<Rightarrow> bool" where
  "hanging_up i a s \<longleftrightarrow> i < length (fst s) \<and>
     (fst s ! i = Detached a \<or> (\<exists>p. fst s ! i = HangUp None p \<and> has_id (snd s) a p) \<or> \<not> registered_at a (snd s))"

definition failing :: "nat \<Rightarrow> nat \<Rightarrow> ('pc, 'sd) system \<Rightarrow> bool" where
  "failing i a s \<longleftrightarrow> ids_ok s \<and> settled a s \<and> hanging_up i a s"

lemma create_step_fresh:
  "create_step C W close S r = Inr (t', S') \<Longrightarrow> registers t' = Some (r', a) \<Longrightarrow> a = next_addr (mg S)"
  "create_step C W close S r = Inr (t', S') \<Longrightarrow> next_addr (mg S) \<le> next_addr (mg S')"
  by (auto simp: create_step_def drop_observer_def delete_observer_heap Let_def split: if_splits kind.splits)

lemma thread_step_next_addr:
  assumes "pointers_ok (ts, S)" and "thread_step C W close S t = Inr (t', S')"
  shows "next_addr (mg S) \<le> next_addr (mg S')"
proof -
  have "ptr_inv S" using assms(1) by (simp add: pointers_ok_def ptr_inv_def Let_def)
  from thread_frame [OF this assms(2)] show ?thesis by (simp add: frame_step_def)
qed

lemma settled_run:
  assumes "ids_ok (ts, S)" and "settled a (ts, S)" and i: "i < length ts"
    and step: "thread_step C W close S (ts ! i) = Inr (t', S')"
  shows "settled a (ts[i := t'], S')"
proof -
  have "pointers_ok (ts, S)" using assms(1) by (simp add: ids_ok_def)
  then have le: "next_addr (mg S) \<le> next_addr (mg S')" using step by (rule thread_step_next_addr)
  have "registers t' \<noteq> Some (r, a)" for r
  proof (cases "\<exists>q. ts ! i = Creating q")
    case True
    then show ?thesis using create_step_fresh(1) [of C W close S _ t' S' r a] step assms(2) by (auto simp: settled_def)
  next
    case False
    then have "registers t' \<noteq> None \<longrightarrow> registers t' = registers (ts ! i)"
      using thread_step_keeps [OF step] by (simp add: keeps_def)
    then show ?thesis using assms(2) i by (auto simp: settled_def)
  qed
  then show ?thesis using assms(2) le by (auto simp: settled_def dest: set_update_subset_insert [THEN subsetD])
qed

lemma registered_run:
  assumes "settled a (ts, S)" and "i < length ts" and "thread_step C W close S (ts ! i) = Inr (t', S')"
    and "registered_at a S'"
  shows "registered_at a S"
  using assms(3)
proof (cases rule: thread_step_peers)
  case same
  with assms(4) show ?thesis by (simp add: registered_at_def)
next
  case (erased k p b)
  with assms(4) show ?thesis by (auto simp: registered_at_def smap_erase_def)
next
  case (registered r b)
  then have "registers (ts ! i) = Some (r, b)" by simp
  then have "b \<noteq> a" using assms(1,2) by (auto simp: settled_def)
  with registered assms(4) show ?thesis
    by (force simp: registered_at_def dest!: smap_insert_entry)
qed

lemma hangup_unregisters:
  assumes "ids_ok (ts, S)" and "has_id S a p" and "thread_step C W close S (HangUp None p) = Inr (t', S')"
  shows "\<not> registered_at a S'"
proof
  assume "registered_at a S'"
  then obtain k where k: "(k, a) \<in> set (peer_map (mg S'))" by (auto simp: registered_at_def)
  have S': "peer_map (mg S') = smap_erase p (peer_map (mg S)) \<or> map_of (peer_map (mg S)) p = None \<and> S' = S"
    using assms(3) by (auto split: option.splits)
  then have "(k, a) \<in> set (peer_map (mg S))" using k by (auto simp: smap_erase_def)
  then have "has_id S a k" and "heap (mg S) a \<noteq> None"
    using assms(1) mapped_live [of ts S "(k, a)"] by (auto simp: ids_ok_def)
  then have "k = p" using assms(2) by (auto simp: has_id_def)
  then show False
    using S' k by (auto simp: smap_erase_def map_of_eq_None_iff image_iff)
qed

lemma failing_run:
  assumes ok: "failing i a (ts, S)" and j: "j < length ts" "\<not> is_ended (ts ! j)"
    and step: "thread_step C W close S (ts ! j) = Inr (t', S')"
  shows "failing i a (ts[j := t'], S')"
proof -
  have ids: "ids_ok (ts, S)" and set: "settled a (ts, S)" and up: "hanging_up i a (ts, S)"
    using ok by (simp_all add: failing_def)
  have gone: "\<not> registered_at a S'" if "\<not> registered_at a S"
    using registered_run [OF set j(1) step] that by blast
  have name: "has_id S' a p" if "has_id S a p" for p
  proof (cases "\<exists>q. ts ! j = Creating q")
    case True
    then show ?thesis using create_step_names [of C W close S _ t' S' a p] step set that by (auto simp: settled_def)
  next
    case False
    then show ?thesis using thread_step_keeps [OF step] that by (auto simp: keeps_def names_kept_def)
  qed
  have "hanging_up i a (ts[j := t'], S')"
  proof (cases "j = i")
    case False
    with up gone name show ?thesis by (auto simp: hanging_up_def)
  next
    case True
    consider "ts ! i = Detached a" | p where "ts ! i = HangUp None p" "has_id S a p" | "\<not> registered_at a S"
      using up by (auto simp: hanging_up_def)
    then show ?thesis
    proof cases
      case 1
      then obtain obs where "heap (mg S) a = Some obs" "t' = HangUp None (m_peerid obs)" "S' = S"
        using step True by (auto simp: detached_step_def deref_def split: option.splits)
      with True j(1) show ?thesis by (auto simp: hanging_up_def has_id_def)
    next
      case 2
      then show ?thesis using hangup_unregisters [OF ids] step True j(1) by (auto simp: hanging_up_def)
    next
      case 3
      then show ?thesis using gone True j(1) by (simp add: hanging_up_def)
    qed
  qed
  then show ?thesis using ids_ok_run [OF ids j(1) step] settled_run [OF ids set j(1) step] by (simp add: failing_def)
qed

interpretation failing: step_invariant "conc_step C W close" "failing i a"
  for C and W :: "('pc, 'sd, 'cand) webrtc" and close and i a
proof
  fix s s' :: "('pc, 'sd) system"
  assume ok: "failing i a s" and step: "conc_step C W close s s'"
  from step show "failing i a s'"
  proof (cases rule: conc_step_cases)
    case (runs j t' S')
    with ok show ?thesis using failing_run [of i a "fst s" "snd s" j] by simp
  next
    case (outside us m')
    have "ids_ok s'" using ids.step_inv [OF _ step] ok by (simp add: failing_def)
    moreover have "registers t = None" if "t \<in> set us" for t
      using outside(2) that arriving_registers(1) by (auto simp: list_all_iff)
    moreover have "has_id (snd s) a p \<Longrightarrow> has_id (snd s') a p" for p
      using bystander_names [OF outside(3)] outside(1) by (simp add: names_kept_def)
    ultimately show ?thesis
      using ok outside(1,3)
      by (auto simp: failing_def settled_def hanging_up_def registered_at_def bystander_def nth_append)
  qed
qed

text \<open>
  C10. A failed connection does not stay registered. If no request is going to register the observer
  any more when \<open>OnIceConnectionChange\<close> has started its thread, then once this thread has ended the
  observer is registered under no id, whatever requests, callbacks and other failures were
  interleaved.
\<close>

theorem failed_peer_unregistered:
  fixes S S' :: "'pc shared" and ts ts' :: "'sd thread list"
  assumes "concurrent C W close (ts, S)" and "i < length ts" and "ts ! i = Detached a"
    and "heap (mg S) a \<noteq> None" and "\<forall>t \<in> set ts. \<forall>r. registers t \<noteq> Some (r, a)"
    and "(conc_step C W close)\<^sup>*\<^sup>* (ts, S) (ts', S')" and "is_ended (ts' ! i)"
  shows "a \<notin> snd ` set (peer_map (mg S'))"
proof -
  have "ids_ok (ts, S)"
  proof -
    have "ids_ok (init_system :: ('pc, 'sd) system)"
      by (simp add: ids_ok_def pointers_ok_def init_system_def init_manager_def refs_def mapped_def)
    then show ?thesis using assms(1) unfolding concurrent_def using ids.steps_inv by blast
  qed
  moreover from this have "a < next_addr (mg S)" using assms(4) by (simp add: ids_ok_def pointers_ok_def Let_def)
  ultimately have "failing i a (ts, S)"
    using assms(2,3,5) by (simp add: failing_def settled_def hanging_up_def)
  then have "failing i a (ts', S')" using assms(6) failing.steps_inv by blast
  then have "\<not> registered_at a S'" using assms(7) by (auto simp: failing_def hanging_up_def)
  then show ?thesis by (simp add: registered_at_def)
qed

section \<open>Concrete runs\<close>

text \<open>A system in which a peer is registered, and its connection fails.\<close>

definition ice_change :: "nat \<Rightarrow> ice_connection_state \<Rightarrow> ('pc, 'sd) system \<Rightarrow> ('pc, 'sd) system" where
  "ice_change a state s =
     (case OnIceConnectionChange (mg (snd s)) a state of
        Inl _ \<Rightarrow> s
      | Inr m' \<Rightarrow> (fst s @ map Detached (hangup_threads m'), (snd s)\<lparr>mg := m'\<lparr>hangup_threads := []\<rparr>\<rparr>))"

lemma ice_change_runs: "(conc_step C W close)\<^sup>*\<^sup>* s (ice_change a state s)"
proof (cases "OnIceConnectionChange (mg (snd s)) a state")
  case (Inl e)
  then show ?thesis by (simp add: ice_change_def)
next
  case (Inr m')
  then show ?thesis
    using conc_step.ice_state [OF Inr, of C W close "fst s"] by (simp add: ice_change_def r_into_rtranclp)
qed

definition failed_system :: "(sender list, string) system" where
  "failed_system = ice_change 0 IceFailed
     (after_schedule demo_config [Limiting (demo_req ''a'' ForOffer)] [0, 0, 0, 0, 0, 0, 0, 0])"

lemma failed_system_concurrent: "concurrent demo_config demo_webrtc id failed_system"
proof -
  have "concurrent demo_config demo_webrtc id (after_schedule demo_config [Limiting (demo_req ''a'' ForOffer)] [0, 0, 0, 0, 0, 0, 0, 0])"
    by (rule after_schedule_concurrent) code_simp+
  then show ?thesis
    unfolding concurrent_def failed_system_def using ice_change_runs rtranclp_trans by fast
qed

text \<open>Further requests arrive and the threads move in the given order.\<close>

definition continued :: "string thread list \<Rightarrow> nat list \<Rightarrow> (sender list, string) system \<Rightarrow> (sender list, string) system res" where
  "continued ts is' s = schedule demo_config demo_webrtc id is' (apfst (\<lambda>us. us @ ts) s)"

definition continue :: "string thread list \<Rightarrow> nat list \<Rightarrow> (sender list, string) system \<Rightarrow> (sender list, string) system" where
  "continue ts is' s = projr (continued ts is' s)"

lemma continue_runs:
  assumes "arrivals ts" and "\<not> isl (continued ts is' s)"
  shows "(conc_step demo_config demo_webrtc id)\<^sup>*\<^sup>* s (continue ts is' s)"
proof -
  have "(conc_step demo_config demo_webrtc id)\<^sup>*\<^sup>* (fst s, snd s) (apfst (\<lambda>us. us @ ts) s)"
    using arrivals_run [OF assms(1), of demo_config demo_webrtc id "fst s" "snd s"] by (simp add: apfst_def map_prod_def split_def)
  moreover have "schedule demo_config demo_webrtc id is' (apfst (\<lambda>us. us @ ts) s) = Inr (continue ts is' s)"
    using assms(2) by (simp add: continue_def continued_def sum.collapse(2))
  ultimately show ?thesis using schedule_runs by fastforce
qed

lemma continue_concurrent:
  assumes "arrivals ts" and "\<not> isl (continued ts is' failed_system)"
  shows "concurrent demo_config demo_webrtc id (continue ts is' failed_system)"
  using failed_system_concurrent continue_runs [OF assms] unfolding concurrent_def by (rule rtranclp_trans)

theorem failed_peer_unregistered_witness:
  "fst failed_system ! 1 = Detached 0 \<and> map_of (peer_map (mg (snd failed_system))) ''a'' = Some 0 \<and>
   0 \<notin> snd ` set (peer_map (mg (snd (continue [] [1, 1, 1, 1, 1, 1, 1, 1] failed_system))))"
proof (intro conjI)
  let ?s = "continue [] [1, 1, 1, 1, 1, 1, 1, 1] failed_system"
  show *: "fst failed_system ! 1 = Detached 0" by code_simp
  show "map_of (peer_map (mg (snd failed_system))) ''a'' = Some 0" by code_simp
  show "0 \<notin> snd ` set (peer_map (mg (snd ?s)))"
  proof (rule failed_peer_unregistered [OF _ _ *])
    show "concurrent demo_config demo_webrtc id (fst failed_system, snd failed_system)"
      by (simp add: failed_system_concurrent)
    show "(conc_step demo_config demo_webrtc id)\<^sup>*\<^sup>* (fst failed_system, snd failed_system) (fst ?s, snd ?s)"
      unfolding prod.collapse by (rule continue_runs) code_simp+
    have "list_all (\<lambda>t. registers t = None) (fst failed_system)" by code_simp
    then show "\<forall>t \<in> set (fst failed_system). \<forall>r. registers t \<noteq> Some (r, 0)" by (auto simp: list_all_iff)
    have "\<not> Option.is_none (heap (mg (snd failed_system)) 0)" by code_simp
    then show "heap (mg (snd failed_system)) 0 \<noteq> None" by (simp add: Option.is_none_def)
  qed code_simp+
qed

text \<open>The outcome of a run and of its continuation.\<close>

fun two_runs ::
  "(string thread list \<times> nat list) \<Rightarrow> nat list \<Rightarrow> (sender list, string) system
     \<Rightarrow> ((sender list, string) system \<Rightarrow> bool) \<Rightarrow> ((sender list, string) system \<Rightarrow> bool) \<Rightarrow> bool" where
  "two_runs (ts, is1) is2 s P Q =
     (case continued ts is1 s of
        Inl _ \<Rightarrow> False
      | Inr u \<Rightarrow> P u \<and> (case continued [] is2 u of Inl _ \<Rightarrow> False | Inr v \<Rightarrow> Q v))"

lemma two_runs:
  assumes "two_runs (ts, is1) is2 failed_system P Q" and "arrivals ts"
  shows "\<exists>u v. concurrent demo_config demo_webrtc id u \<and> P u \<and>
    (conc_step demo_config demo_webrtc id)\<^sup>*\<^sup>* u v \<and> Q v"
proof -
  from assms(1) obtain u v where u: "continued ts is1 failed_system = Inr u" "P u" and v: "continued [] is2 u = Inr v" "Q v"
    by (auto split: sum.splits)
  have "concurrent demo_config demo_webrtc id u"
    using continue_concurrent [OF assms(2), of is1] u(1) by (simp add: continue_def)
  moreover have "(conc_step demo_config demo_webrtc id)\<^sup>*\<^sup>* u v"
    using continue_runs [of "[]" is2 u] v(1) by (simp add: continue_def arrivals_def)
  ultimately show ?thesis using u(2) v(2) by blast
qed

definition successor_registered :: "(sender list, string) system \<Rightarrow> bool" where
  "successor_registered s \<longleftrightarrow> map_of (peer_map (mg (snd s))) ''a'' = Some 1 \<and>
     (case fst s ! 1 of HangUp None p \<Rightarrow> p = ''a'' | _ \<Rightarrow> False)"

definition successor_gone :: "(sender list, string) system \<Rightarrow> bool" where
  "successor_gone s \<longleftrightarrow> (case fst s ! 1 of Unregistered None a \<Rightarrow> a = 1 | _ \<Rightarrow> False) \<and> peer_map (mg (snd s)) = []"

lemma successor_states:
  "successor_registered s \<Longrightarrow> map_of (peer_map (mg (snd s))) ''a'' = Some 1 \<and> fst s ! 1 = HangUp None ''a''"
  "successor_gone s \<Longrightarrow> fst s ! 1 = Unregistered None 1 \<and> peer_map (mg (snd s)) = []"
  by (auto simp: successor_registered_def successor_gone_def split: thread.splits option.splits)

text \<open>
  C40. The thread of a failed connection reaches other sessions. It reads the id through the observer,
  which a client may have hung up and deleted before; and it hangs up by this id, so that a client
  that has hung up and come back in between loses its new session.
\<close>

theorem failed_connection_hits_successor:
  "(\<exists>ts S. concurrent demo_config demo_webrtc id (ts, S) \<and> ts ! 1 = Detached 0 \<and>
     thread_step demo_config demo_webrtc id S (ts ! 1) = Inl UseAfterFree) \<and>
   (\<exists>s s'. concurrent demo_config demo_webrtc id s \<and> (conc_step demo_config demo_webrtc id)\<^sup>*\<^sup>* s s' \<and>
     map_of (peer_map (mg (snd s))) ''a'' = Some 1 \<and> fst s ! 1 = HangUp None ''a'' \<and>
     fst s' ! 1 = Unregistered None 1 \<and> peer_map (mg (snd s')) = [])"
proof
  let ?s = "continue [HangUp None ''a''] [2, 2, 2, 2, 2, 2, 2, 2] failed_system"
  have "concurrent demo_config demo_webrtc id (fst ?s, snd ?s)"
    unfolding prod.collapse by (rule continue_concurrent) code_simp+
  moreover have "fst ?s ! 1 = Detached 0" by code_simp
  moreover have "case thread_step demo_config demo_webrtc id (snd ?s) (fst ?s ! 1) of Inl e \<Rightarrow> e = UseAfterFree | Inr _ \<Rightarrow> False"
    by code_simp
  ultimately show "\<exists>ts S. concurrent demo_config demo_webrtc id (ts, S) \<and> ts ! 1 = Detached 0 \<and>
     thread_step demo_config demo_webrtc id S (ts ! 1) = Inl UseAfterFree"
    by (intro exI [of _ "fst ?s"] exI [of _ "snd ?s"]) (auto split: sum.splits)
next
  have arrive: "arrivals [HangUp None ''a'', Limiting (demo_req ''a'' ForOffer)]" by (simp add: arrivals_def)
  have runs: "two_runs ([HangUp None ''a'', Limiting (demo_req ''a'' ForOffer)], [1] @ replicate 8 2 @ replicate 8 3)
      [1] failed_system successor_registered successor_gone"
    by code_simp
  from two_runs [OF runs arrive] obtain u v where
    "concurrent demo_config demo_webrtc id u" "successor_registered u"
      "(conc_step demo_config demo_webrtc id)\<^sup>*\<^sup>* u v" "successor_gone v"
    by blast
  then show "\<exists>s s'. concurrent demo_config demo_webrtc id s \<and> (conc_step demo_config demo_webrtc id)\<^sup>*\<^sup>* s s' \<and>
     map_of (peer_map (mg (snd s))) ''a'' = Some 1 \<and> fst s ! 1 = HangUp None ''a'' \<and>
     fst s' ! 1 = Unregistered None 1 \<and> peer_map (mg (snd s')) = []"
    using successor_states by blast
qed

end
