(* ===== verification/Lock_Order.thy ===== *)
theory Lock_Order
  imports Peer_Manager
begin

text \<open>
  The locks of the manager. Every operation of the API and every callback is the sequence of the
  locks that it takes and releases; a call that is executed on the signaling thread of WebRTC
  blocks its caller until that thread is free, so that the thread is a lock too, and the worker
  thread, on which audio sources are created, likewise. As long as calls of one kind of thread wait
  for the other, but not both ways, all sequences take the locks in one order, from which no set
  of requests and callbacks can deadlock. In particular a failed connection can only be hung up
  from a thread of its own: the callback runs on the signaling thread, for which others wait while
  they hold the lock of the peers. An audio device, however, is opened on the worker thread by a
  call to the signaling thread, which deadlocks with a call of WebRTC in the other direction.
\<close>

section \<open>Locks\<close>

text \<open>
  \<open>m_peerMapMutex\<close>, \<open>m_streamMapMutex\<close>, the signaling and the worker thread, and
  \<open>m_iceCandidateMutex\<close> and \<open>m_reportMutex\<close> of the observer at an address.
\<close>

datatype lock = PeerMap | StreamMap | Signaling | Worker | Candidates nat | Report nat

text \<open>\<open>Hops\<close>: the place where WebRTC, on the signaling thread, may wait for the worker thread.\<close>

datatype lock_action = Lock lock | Unlock lock | Hops

text \<open>\<open>std::lock_guard\<close>, or a blocking call: what is done inside, between taking and releasing.\<close>

definition guarded :: "lock \<Rightarrow> lock_action list \<Rightarrow> lock_action list" where
  "guarded l body = Lock l # body @ [Unlock l]"

definition on_signaling :: "lock_action list \<Rightarrow> lock_action list" where
  "on_signaling body = guarded Signaling (Hops # body)"

text \<open>Calls of a connection, its senders or its factory, which WebRTC runs on the signaling thread.\<close>

definition calls :: "nat \<Rightarrow> lock_action list" where
  "calls n = concat (replicate n (on_signaling []))"

section \<open>Operations\<close>

text \<open>
  What depends on the state when a loop or a branch is reached is an argument: how many calls the
  registered peers take, which of them has a description, whether an id was found.
\<close>

text \<open>For each peer the calls \<open>GetSenders\<close> and \<open>stream_ids\<close>.\<close>

definition streamStillUsed_locks :: "nat list \<Rightarrow> lock_action list" where
  "streamStillUsed_locks ns = guarded PeerMap (concat (map calls ns))"

text \<open>
  One sender: \<open>stream_ids\<close>, and if there is one, the peers that are asked, whether the stream is
  still used, and \<open>RemoveTrackOrError\<close>.
\<close>

type_synonym sender_run = "(nat list \<times> bool) option"

definition release_locks :: "sender_run \<Rightarrow> lock_action list" where
  "release_locks s =
     calls 1 @
     (case s of
        None \<Rightarrow> []
      | Some (ns, stillUsed) \<Rightarrow>
          streamStillUsed_locks ns @ (if stillUsed then [] else guarded StreamMap []) @ calls 1)"

text \<open>The destructor of the observer closes the connection, which calls \<open>OnIceConnectionChange\<close>.\<close>

definition OnIceConnectionChange_locks :: "nat \<Rightarrow> ice_connection_state \<Rightarrow> lock_action list" where
  "OnIceConnectionChange_locks a state =
     on_signaling (if state = IceFailed \<or> state = IceClosed then guarded (Candidates a) [] else [])"

definition hangUp_locks :: "nat option \<Rightarrow> sender_run list \<Rightarrow> lock_action list" where
  "hangUp_locks found ss =
     guarded PeerMap [] @
     (case found of
        None \<Rightarrow> []
      | Some a \<Rightarrow> calls 1 @ concat (map release_locks ss) @ OnIceConnectionChange_locks a IceClosed)"

text \<open>\<open>getOldestPeerCannection\<close>, the eviction, then the connection and its data channel.\<close>

type_synonym eviction = "(nat option \<times> sender_run list) option"

datatype creation = NoFactory | NoConnection | Created

definition CreatePeerConnection_locks :: "eviction \<Rightarrow> creation \<Rightarrow> lock_action list" where
  "CreatePeerConnection_locks evicted k =
     guarded PeerMap [] @
     (case evicted of None \<Rightarrow> [] | Some (found, ss) \<Rightarrow> hangUp_locks found ss) @
     (case k of NoFactory \<Rightarrow> [] | NoConnection \<Rightarrow> calls 1 | Created \<Rightarrow> calls 2)"

record streams_run =
  has_bitrate :: bool
  need_to_create :: bool
  has_video :: bool
  has_audio :: bool
  audio_device :: bool

text \<open>
  \<open>CreateAudioSource\<close> runs on the worker thread; for an \<open>audiocap://\<close> url with a device it calls
  \<open>CreateAudioSource\<close> of the factory there. The devices are read and set in the worker thread itself.
\<close>

definition CreateAudioSource_locks :: "streams_run \<Rightarrow> lock_action list" where
  "CreateAudioSource_locks r = guarded Worker (if audio_device r then calls 1 else [])"

text \<open>Creating and adding a track are calls, made with the lock of the streams.\<close>

definition AddStreams_locks :: "streams_run \<Rightarrow> lock_action list" where
  "AddStreams_locks r =
     (if has_bitrate r then calls 1 else []) @
     guarded StreamMap [] @
     (if need_to_create r then CreateAudioSource_locks r @ guarded StreamMap [] else []) @
     guarded StreamMap
       ((if has_video r then calls 2 else []) @
        (if has_audio r then calls 2 else []))"

text \<open>
  \<open>added\<close>: the answer of \<open>AddStreams\<close>. Without a connection \<open>createOffer\<close> follows a null pointer and
  takes no further lock. The waits for promises are outside every lock.
\<close>

definition createOffer_locks :: "eviction \<Rightarrow> creation \<Rightarrow> streams_run \<Rightarrow> bool \<Rightarrow> lock_action list" where
  "createOffer_locks evicted k r added =
     CreatePeerConnection_locks evicted k @
     (if k \<noteq> Created then []
      else AddStreams_locks r @ (if added then guarded PeerMap [] @ calls 1 else []))"

definition getAnswer_locks :: "eviction \<Rightarrow> creation \<Rightarrow> streams_run \<Rightarrow> bool \<Rightarrow> lock_action list" where
  "getAnswer_locks evicted k r added =
     CreatePeerConnection_locks evicted k @
     (if k \<noteq> Created then []
      else guarded PeerMap [] @ AddStreams_locks r @ (if added then calls 2 else []))"

text \<open>\<open>None\<close>: the message cannot be parsed; otherwise whether the id has a connection.\<close>

definition setAnswer_locks :: "bool option \<Rightarrow> lock_action list" where
  "setAnswer_locks parsed =
     (case parsed of None \<Rightarrow> [] | Some found \<Rightarrow> guarded PeerMap [] @ (if found then calls 1 else []))"

definition addIceCandidate_locks :: "bool option \<Rightarrow> lock_action list" where
  "addIceCandidate_locks parsed =
     (case parsed of None \<Rightarrow> [] | Some found \<Rightarrow> guarded PeerMap (if found then calls 1 else []))"

definition getIceCandidateList_locks :: "nat option \<Rightarrow> lock_action list" where
  "getIceCandidateList_locks found =
     guarded PeerMap (case found of None \<Rightarrow> [] | Some a \<Rightarrow> guarded (Candidates a) [])"

text \<open>
  One peer of the list: its description, and if it has one its three states, \<open>GetStats\<close>, the four
  counters of the collector, the text of the description, the candidates, and the calls for its
  senders.
\<close>

definition describe_locks :: "nat \<times> nat option \<Rightarrow> lock_action list" where
  "describe_locks p = (case p of (a, described) \<Rightarrow>
     calls 1 @
     (case described of
        None \<Rightarrow> []
      | Some n \<Rightarrow>
          calls 4 @
          guarded (Report a) [] @ guarded (Report a) [] @ guarded (Report a) [] @ guarded (Report a) [] @
          calls 1 @ guarded (Candidates a) [] @ calls n))"

definition getPeerConnectionList_locks :: "(nat \<times> nat option) list \<Rightarrow> lock_action list" where
  "getPeerConnectionList_locks ps = guarded PeerMap (concat (map describe_locks ps))"

definition getStreamList_locks :: "lock_action list" where
  "getStreamList_locks = guarded StreamMap []"

text \<open>The candidate lines of a WHEP \<open>PATCH\<close>.\<close>

definition patch_locks :: "bool option list \<Rightarrow> lock_action list" where
  "patch_locks lines = concat (map addIceCandidate_locks lines)"

definition OnIceCandidate_locks :: "nat \<Rightarrow> lock_action list" where
  "OnIceCandidate_locks a = on_signaling (guarded (Candidates a) [])"

definition OnStatsDelivered_locks :: "nat \<Rightarrow> lock_action list" where
  "OnStatsDelivered_locks a = on_signaling (guarded (Report a) [])"

datatype operation =
    HangUpOp "nat option" "sender_run list" \<comment> \<open>a request, or the thread of a failed connection\<close>
  | CreateOfferOp eviction creation streams_run bool
  | GetAnswerOp eviction creation streams_run bool
  | SetAnswerOp "bool option"
  | AddIceCandidateOp "bool option"
  | GetIceCandidateListOp "nat option"
  | GetPeerConnectionListOp "(nat \<times> nat option) list"
  | GetStreamListOp
  | PatchOp "bool option list"
  | IceCandidateCallback nat
  | IceConnectionCallback nat ice_connection_state
  | StatsCallback nat

fun locks_of :: "operation \<Rightarrow> lock_action list" where
  "locks_of (HangUpOp found ss) = hangUp_locks found ss"
| "locks_of (CreateOfferOp e k r added) = createOffer_locks e k r added"
| "locks_of (GetAnswerOp e k r added) = getAnswer_locks e k r added"
| "locks_of (SetAnswerOp parsed) = setAnswer_locks parsed"
| "locks_of (AddIceCandidateOp parsed) = addIceCandidate_locks parsed"
| "locks_of (GetIceCandidateListOp found) = getIceCandidateList_locks found"
| "locks_of (GetPeerConnectionListOp ps) = getPeerConnectionList_locks ps"
| "locks_of GetStreamListOp = getStreamList_locks"
| "locks_of (PatchOp ls) = patch_locks ls"
| "locks_of (IceCandidateCallback a) = OnIceCandidate_locks a"
| "locks_of (IceConnectionCallback a state) = OnIceConnectionChange_locks a state"
| "locks_of (StatsCallback a) = OnStatsDelivered_locks a"

fun opens_audio_device :: "operation \<Rightarrow> bool" where
  "opens_audio_device (CreateOfferOp e k r added) = audio_device r"
| "opens_audio_device (GetAnswerOp e k r added) = audio_device r"
| "opens_audio_device p = False"

section \<open>Threads that wait for locks\<close>

text \<open>What a thread holds, the newest first, and what it has still to do.\<close>

type_synonym lock_thread = "lock list \<times> lock_action list"

text \<open>
  No lock is recursive: a thread waits for a lock that it holds itself, too. \<open>crossing\<close> says whether
  WebRTC waits for the worker thread while it runs a call on the signaling thread; then it does so any number of
  times, one wait after the other.
\<close>

definition worker_waits :: "nat \<Rightarrow> lock_action list" where
  "worker_waits k = concat (replicate k (guarded Worker []))"

inductive lock_step :: "bool \<Rightarrow> lock_thread list \<Rightarrow> lock_thread list \<Rightarrow> bool" for crossing where
  take: "i < length ts \<Longrightarrow> ts ! i = (held, Lock l # rest) \<Longrightarrow> \<forall>t \<in> set ts. l \<notin> set (fst t)
    \<Longrightarrow> lock_step crossing ts (ts[i := (l # held, rest)])"
| give: "i < length ts \<Longrightarrow> ts ! i = (held, Unlock l # rest)
    \<Longrightarrow> lock_step crossing ts (ts[i := (remove1 l held, rest)])"
| hops: "i < length ts \<Longrightarrow> ts ! i = (held, Hops # rest) \<Longrightarrow> k = 0 \<or> crossing
    \<Longrightarrow> lock_step crossing ts (ts[i := (held, worker_waits k @ rest)])"

definition started :: "operation list \<Rightarrow> lock_thread list" where
  "started ops = map (\<lambda>p. ([], locks_of p)) ops"

section \<open>The order of the locks\<close>

text \<open>
  The worker thread before the signaling thread, unless calls on the signaling thread wait for the
  worker.
\<close>

fun level :: "bool \<Rightarrow> lock \<Rightarrow> nat" where
  "level crossing PeerMap = 0"
| "level crossing StreamMap = 1"
| "level crossing Signaling = (if crossing then 2 else 3)"
| "level crossing Worker = (if crossing then 3 else 2)"
| "level crossing (Candidates a) = 4"
| "level crossing (Report a) = 5"

fun ordered :: "bool \<Rightarrow> lock list \<Rightarrow> lock_action list \<Rightarrow> bool" where
  "ordered c held [] \<longleftrightarrow> held = []"
| "ordered c held (Lock l # rest) \<longleftrightarrow> (\<forall>h \<in> set held. level c h < level c l) \<and> ordered c (l # held) rest"
| "ordered c held (Unlock l # rest) \<longleftrightarrow> held \<noteq> [] \<and> hd held = l \<and> ordered c (tl held) rest"
| "ordered c held (Hops # rest) \<longleftrightarrow> (c \<longrightarrow> (\<forall>h \<in> set held. level c h < level c Worker)) \<and> ordered c held rest"

text \<open>Sequences that can be done while all that is held is below a level.\<close>

definition above :: "bool \<Rightarrow> nat \<Rightarrow> lock_action list \<Rightarrow> bool" where
  "above c n xs \<longleftrightarrow>
     (\<forall>held ys. (\<forall>h \<in> set held. level c h < n) \<longrightarrow> ordered c held ys \<longrightarrow> ordered c held (xs @ ys))"

named_theorems nested

lemma above_Nil [nested]: "above c n []"
  by (simp add: above_def)

lemma above_append [nested]: "above c n xs \<Longrightarrow> above c n ys \<Longrightarrow> above c n (xs @ ys)"
  by (simp add: above_def)

lemma above_concat [nested]: "(\<And>x. x \<in> set xss \<Longrightarrow> above c n x) \<Longrightarrow> above c n (concat xss)"
  by (induction xss) (auto intro: nested)

lemma above_guarded [nested]:
  assumes "n \<le> level c l" and "above c (Suc (level c l)) body"
  shows "above c n (guarded l body)"
  unfolding above_def
proof (intro allI impI)
  fix held ys
  assume "\<forall>h \<in> set held. level c h < n" and ys: "ordered c held ys"
  then have lt: "\<forall>h \<in> set held. level c h < level c l" using assms(1) by auto
  then have "ordered c (l # held) (body @ Unlock l # ys)"
    using assms(2) ys unfolding above_def by (auto simp: less_Suc_eq)
  with lt show "ordered c held (guarded l body @ ys)" by (simp add: guarded_def)
qed

lemma above_Hops:
  assumes "c \<longrightarrow> n \<le> level c Worker" and "above c n body"
  shows "above c n (Hops # body)"
  using assms unfolding above_def by (auto simp del: level.simps intro: less_le_trans)

lemma above_on_signaling [nested]:
  assumes "n \<le> 2" and "above c 4 body" and "above c 3 body"
  shows "above c n (on_signaling body)"
  unfolding on_signaling_def using assms by (auto intro!: above_guarded above_Hops)

lemma above_if [nested]: "above c n xs \<Longrightarrow> above c n ys \<Longrightarrow> above c n (if b then xs else ys)"
  by simp

lemma above_option [nested]:
  "above c n xs \<Longrightarrow> (\<And>a. above c n (f a)) \<Longrightarrow> above c n (case p of None \<Rightarrow> xs | Some a \<Rightarrow> f a)"
  by (cases p) simp_all

lemma calls_above [nested]: "n \<le> 2 \<Longrightarrow> above c n (calls k)"
  unfolding calls_def by (rule above_concat) (auto intro!: nested)

text \<open>On the worker thread only if nothing waits the other way.\<close>

lemma calls_on_worker: "above False 3 (calls k)"
  unfolding calls_def on_signaling_def by (rule above_concat) (auto intro!: above_guarded above_Hops above_Nil)

lemma release_above [nested]: "above c 0 (release_locks s)"
  unfolding release_locks_def streamStillUsed_locks_def by (auto intro!: nested split: option.split)

lemma hangUp_above [nested]: "above c 0 (hangUp_locks found ss)"
  unfolding hangUp_locks_def OnIceConnectionChange_locks_def by (auto intro!: nested split: option.split)

lemma CreatePeerConnection_above [nested]: "above c 0 (CreatePeerConnection_locks e k)"
  unfolding CreatePeerConnection_locks_def by (auto intro!: nested split: option.split creation.split)

lemma CreateAudioSource_above [nested]: "c \<longrightarrow> \<not> audio_device r \<Longrightarrow> above c 0 (CreateAudioSource_locks r)"
  unfolding CreateAudioSource_locks_def
  by (cases c) (auto intro!: above_guarded above_Nil simp: calls_on_worker eval_nat_numeral(3) [symmetric])

lemma AddStreams_above [nested]: "c \<longrightarrow> \<not> audio_device r \<Longrightarrow> above c 0 (AddStreams_locks r)"
  unfolding AddStreams_locks_def by (auto intro!: nested)

lemma addIceCandidate_above [nested]: "above c 0 (addIceCandidate_locks parsed)"
  unfolding addIceCandidate_locks_def by (auto intro!: nested split: option.split)

lemma describe_above [nested]: "above c (Suc 0) (describe_locks p)"
  by (cases p) (auto simp: describe_locks_def intro!: nested split: option.split)

lemma locks_above:
  assumes "c \<longrightarrow> \<not> opens_audio_device p"
  shows "above c 0 (locks_of p)"
proof (cases p)
  case (GetPeerConnectionListOp ps)
  then show ?thesis by (auto simp: getPeerConnectionList_locks_def intro!: nested)
qed (use assms in \<open>auto simp: createOffer_locks_def getAnswer_locks_def setAnswer_locks_def getIceCandidateList_locks_def
    getStreamList_locks_def patch_locks_def OnIceCandidate_locks_def OnStatsDelivered_locks_def
    OnIceConnectionChange_locks_def intro!: nested split: option.split\<close>)

lemma locks_ordered: "c \<longrightarrow> \<not> opens_audio_device p \<Longrightarrow> ordered c [] (locks_of p)"
  using locks_above [of c p] unfolding above_def by (metis append_Nil2 empty_iff empty_set ordered.simps(1))

section \<open>No deadlock\<close>

definition all_ordered :: "bool \<Rightarrow> lock_thread list \<Rightarrow> bool" where
  "all_ordered c ts \<longleftrightarrow> (\<forall>t \<in> set ts. ordered c (fst t) (snd t))"

lemma worker_waits_ordered:
  "ordered c held (worker_waits k @ rest)" if "k = 0 \<or> c" and "ordered c held (Hops # rest)"
proof -
  have "above c 3 (worker_waits k)" if c
    unfolding worker_waits_def using that by (auto intro!: nested)
  with that show ?thesis by (cases c) (auto simp: above_def worker_waits_def)
qed

lemma lock_step_ordered:
  assumes "lock_step c ts ts'" and "all_ordered c ts"
  shows "all_ordered c ts'"
  using assms(1)
proof cases
  case (take i held l rest)
  then have "ordered c held (Lock l # rest)" using assms(2) nth_mem [of i ts] by (fastforce simp: all_ordered_def)
  with take(1) assms(2) show ?thesis by (auto simp: all_ordered_def dest: set_update_subset_insert [THEN subsetD])
next
  case (give i held l rest)
  then have "ordered c held (Unlock l # rest)" using assms(2) nth_mem [of i ts] by (fastforce simp: all_ordered_def)
  then have "ordered c (remove1 l held) rest" by (cases held) auto
  with give(1) assms(2) show ?thesis by (auto simp: all_ordered_def dest: set_update_subset_insert [THEN subsetD])
next
  case (hops i held rest k)
  then have "ordered c held (Hops # rest)" using assms(2) nth_mem [of i ts] by (fastforce simp: all_ordered_def)
  then have "ordered c held (worker_waits k @ rest)" using hops(4) worker_waits_ordered by blast
  with hops(1) assms(2) show ?thesis by (auto simp: all_ordered_def dest: set_update_subset_insert [THEN subsetD])
qed

lemma started_ordered: "c \<longrightarrow> (\<forall>p \<in> set ops. \<not> opens_audio_device p) \<Longrightarrow> all_ordered c (started ops)"
  by (auto simp: all_ordered_def started_def locks_ordered)

interpretation lock_run: step_invariant "lock_step c" "all_ordered c" for c
  by unfold_locales (blast intro: lock_step_ordered)

text \<open>A thread that cannot move waits for a lock that another unfinished thread holds.\<close>

lemma blocked_waits:
  assumes "all_ordered c ts" and "\<nexists>ts'. lock_step c ts ts'" and "t \<in> set ts" and "snd t \<noteq> []"
  obtains l rest u where "snd t = Lock l # rest" "u \<in> set ts" "l \<in> set (fst u)" "snd u \<noteq> []"
proof -
  obtain i where i: "i < length ts" "ts ! i = t" using assms(3) by (auto simp: in_set_conv_nth)
  obtain x rest where x: "snd t = x # rest" using assms(4) by (cases "snd t") auto
  have "ts ! i = (fst t, x # rest)" using i(2) x by (metis prod.collapse)
  then have "x \<noteq> Hops" using lock_step.hops [OF i(1), of "fst t" rest 0] assms(2) by blast
  moreover
  have "\<nexists>l. x = Unlock l" using \<open>ts ! i = (fst t, x # rest)\<close> lock_step.give [OF i(1)] assms(2) by blast
  ultimately obtain l where l: "x = Lock l" by (cases x) auto
  then obtain u where u: "u \<in> set ts" "l \<in> set (fst u)"
    using lock_step.take [OF i(1), of "fst t" l rest] i(2) x assms(2) by (metis prod.collapse)
  have "ordered c (fst u) (snd u)" using assms(1) u(1) by (simp add: all_ordered_def)
  with u(2) have "snd u \<noteq> []" by (cases "snd u") auto
  with that x l u show ?thesis by blast
qed

lemma ordered_not_stuck:
  assumes "all_ordered c ts" and "\<nexists>ts'. lock_step c ts ts'"
  shows "\<forall>t \<in> set ts. snd t = []"
proof (rule ccontr)
  define U where "U = {t \<in> set ts. snd t \<noteq> []}"
  define wanted where "wanted = (\<lambda>t :: lock_thread. case snd t of Lock l # _ \<Rightarrow> level c l | _ \<Rightarrow> 0)"
  assume "\<not> ?thesis"
  then have "U \<noteq> {}" unfolding U_def by blast
  moreover have "finite U" by (simp add: U_def)
  ultimately have "Max (wanted ` U) \<in> wanted ` U" by (intro Max_in) simp_all
  then obtain t where "t \<in> U" "wanted t = Max (wanted ` U)" by force
  then have t: "t \<in> U" "\<forall>u \<in> U. wanted u \<le> wanted t" using \<open>finite U\<close> by simp_all
  then obtain l rest u where u: "snd t = Lock l # rest" "u \<in> set ts" "l \<in> set (fst u)" "snd u \<noteq> []"
    using blocked_waits [OF assms, of t] t(1) unfolding U_def mem_Collect_eq by blast
  then obtain l' rest' where "snd u = Lock l' # rest'" using blocked_waits [OF assms u(2,4)] by blast
  moreover have "ordered c (fst u) (snd u)" using assms(1) u(2) by (simp add: all_ordered_def)
  ultimately have "wanted t < wanted u" using u(1,3) by (auto simp: wanted_def)
  moreover have "u \<in> U" using u by (simp add: U_def)
  ultimately show False using t(2) by fastforce
qed

text \<open>Every step uses up an action, or turns a place for waits into finitely many waits.\<close>

lemma sum_list_update_less:
  assumes "i < length ts" and "f x < f (ts ! i)"
  shows "sum_list (map f (ts[i := x])) < sum_list (map (f :: 'a \<Rightarrow> nat) ts)"
proof -
  have "f (ts ! i) \<le> sum_list (map f ts)" using assms(1) by (metis elem_le_sum_list length_map nth_map)
  with assms show ?thesis by (simp add: map_update sum_list_update)
qed

lemma sum_list_update_same:
  assumes "i < length ts" and "f x = f (ts ! i)"
  shows "sum_list (map f (ts[i := x])) = sum_list (map (f :: 'a \<Rightarrow> nat) ts)"
  using assms by (metis length_map list_update_id map_update nth_map)

definition hops_left :: "lock_thread \<Rightarrow> nat" where
  "hops_left t = length [x \<leftarrow> snd t. x = Hops]"

definition work :: "lock_thread list \<Rightarrow> nat \<times> nat" where
  "work ts = (sum_list (map hops_left ts), sum_list (map (\<lambda>t. length (snd t)) ts))"

lemma no_hops_in_waits: "[x \<leftarrow> worker_waits k. x = Hops] = []"
  by (induction k) (auto simp: worker_waits_def guarded_def)

lemma lock_step_uses:
  assumes "lock_step c ts ts'"
  shows "(work ts', work ts) \<in> less_than <*lex*> less_than"
  using assms
proof cases
  case (take i held l rest)
  then show ?thesis
    using sum_list_update_same [of i ts hops_left "(l # held, rest)"]
      sum_list_update_less [of i ts "\<lambda>t. length (snd t)" "(l # held, rest)"]
    by (simp add: work_def hops_left_def)
next
  case (give i held l rest)
  then show ?thesis
    using sum_list_update_same [of i ts hops_left "(remove1 l held, rest)"]
      sum_list_update_less [of i ts "\<lambda>t. length (snd t)" "(remove1 l held, rest)"]
    by (simp add: work_def hops_left_def)
next
  case (hops i held rest k)
  then show ?thesis
    using sum_list_update_less [of i ts hops_left "(held, worker_waits k @ rest)"]
    by (simp add: work_def hops_left_def no_hops_in_waits)
qed

lemma no_endless_run: "\<nexists>run. \<forall>n. lock_step c (run n) (run (Suc n))"
proof
  assume "\<exists>run. \<forall>n. lock_step c (run n) (run (Suc n))"
  then obtain run where run: "\<And>n. lock_step c (run n) (run (Suc n))" by blast
  have "wf (inv_image (less_than <*lex*> less_than) work)" by (auto intro: wf_inv_image)
  then obtain n where "(run (Suc n), run n) \<notin> inv_image (less_than <*lex*> less_than) work"
    unfolding wf_iff_no_infinite_down_chain by blast
  with lock_step_uses [OF run [of n]] show False by (simp only: in_inv_image simp_thms)
qed

text \<open>
  C8. The manager does not deadlock, as long as no request opens an audio device or no call of
  WebRTC waits for the worker thread on the signaling thread. Whatever operations and callbacks run at the same
  time, while one of them has not finished one of them can go on; and every run of them is
  finite, so that all of them finish.
\<close>

theorem operations_never_deadlock:
  assumes "crossing \<longrightarrow> (\<forall>p \<in> set ops. \<not> opens_audio_device p)"
  shows "(\<forall>ts. (lock_step crossing)\<^sup>*\<^sup>* (started ops) ts \<longrightarrow> (\<exists>t \<in> set ts. snd t \<noteq> []) \<longrightarrow> (\<exists>ts'. lock_step crossing ts ts')) \<and>
    (\<nexists>run. run 0 = started ops \<and> (\<forall>n. lock_step crossing (run n) (run (Suc n))))"
  using lock_run.steps_inv [OF _ started_ordered [OF assms]] ordered_not_stuck no_endless_run by blast

text \<open>Two requests, the thread of a failed connection and the callback that started it.\<close>

definition demo_operations :: "operation list" where
  "demo_operations =
     [CreateOfferOp (Some (Some 0, [Some ([2, 1], False)])) Created
        \<lparr>has_bitrate = True, need_to_create = True, has_video = True, has_audio = True, audio_device = False\<rparr> True,
      GetPeerConnectionListOp [(0, Some 3), (1, None)], IceConnectionCallback 1 IceFailed, HangUpOp (Some 1) [Some ([2], True)]]"

theorem operations_never_deadlock_witness:
  "\<exists>ts'. lock_step True (started demo_operations) ts'"
proof -
  have "list_ex (\<lambda>t. snd t \<noteq> []) (started demo_operations)" by code_simp
  then have "\<exists>t \<in> set (started demo_operations). snd t \<noteq> []" by (simp add: list_ex_iff)
  moreover have "True \<longrightarrow> (\<forall>p \<in> set demo_operations. \<not> opens_audio_device p)"
    by (simp add: demo_operations_def)
  ultimately show ?thesis using operations_never_deadlock [of True demo_operations] by blast
qed

section \<open>Deadlocks\<close>

text \<open>A thread can do what is ordered while the other one holds nothing.\<close>

lemma run_alone:
  assumes "ordered c held xs" and "fst t = []"
  shows "(lock_step c)\<^sup>*\<^sup>* [(held, xs @ ys), t] [([], ys), t]"
  using assms(1)
proof (induction xs arbitrary: held)
  case (Cons x xs)
  have "\<exists>held'. lock_step c [(held, x # xs @ ys), t] [(held', xs @ ys), t] \<and> ordered c held' xs"
  proof (cases x)
    case (Lock l)
    then have "l \<notin> set held" and "ordered c (l # held) xs" using Cons.prems by auto
    then show ?thesis
      using lock_step.take [of 0 "[(held, x # xs @ ys), t]" held l "xs @ ys" c] Lock assms(2) by auto
  next
    case (Unlock l)
    then have "ordered c (remove1 l held) xs" using Cons.prems by (cases held) auto
    then show ?thesis
      using lock_step.give [of 0 "[(held, x # xs @ ys), t]" held l "xs @ ys" c] Unlock by auto
  next
    case Hops
    then show ?thesis
      using lock_step.hops [of 0 "[(held, x # xs @ ys), t]" held "xs @ ys" 0 c] Cons.prems
      by (auto simp: worker_waits_def)
  qed
  then obtain held' where "lock_step c [(held, x # xs @ ys), t] [(held', xs @ ys), t]" "ordered c held' xs" by blast
  with Cons.IH show ?case by (auto intro: converse_rtranclp_into_rtranclp)
qed simp

lemma second_takes:
  "lock_step c [t, (held, Lock l # rest)] [t, (l # held, rest)]" if "l \<notin> set held" "l \<notin> set (fst t)"
  using lock_step.take [of 1 "[t, (held, Lock l # rest)]" held l rest c] that by simp

lemma second_gives: "lock_step c [t, (held, Unlock l # rest)] [t, (remove1 l held, rest)]"
  using lock_step.give [of 1 "[t, (held, Unlock l # rest)]" held l rest c] by simp

lemma second_hops:
  "lock_step c [t, (held, Hops # rest)] [t, (held, worker_waits k @ rest)]" if "k = 0 \<or> c"
  using lock_step.hops [of 1 "[t, (held, Hops # rest)]" held rest k c] that by simp

lemma first_takes:
  "lock_step c [(held, Lock l # rest), t] [(l # held, rest), t]" if "l \<notin> set held" "l \<notin> set (fst t)"
  using lock_step.take [of 0 "[(held, Lock l # rest), t]" held l rest c] that by simp

text \<open>Two threads that want what the other one holds.\<close>

lemma crossed_stuck:
  "\<nexists>ts'. lock_step c [([l], Lock k # xs), ([k], Lock l # ys)] ts'"
proof
  assume "\<exists>ts'. lock_step c [([l], Lock k # xs), ([k], Lock l # ys)] ts'"
  then obtain ts' where "lock_step c [([l], Lock k # xs), ([k], Lock l # ys)] ts'" by blast
  then show False by cases (auto simp: less_Suc_eq)
qed

text \<open>
  Why the thread is needed: a callback that called \<open>hangUp\<close> itself would wait for the lock of the
  peers on the signaling thread, while a request with this lock waits for the signaling thread.
\<close>

theorem hanging_up_in_callback_deadlocks:
  "\<exists>ts. (lock_step c)\<^sup>*\<^sup>* [([], on_signaling (hangUp_locks found [])), ([], addIceCandidate_locks (Some True))] ts \<and>
     (\<exists>t \<in> set ts. snd t \<noteq> []) \<and> (\<nexists>ts'. lock_step c ts ts')"
proof -
  let ?r = "Hops # hangUp_locks found [] @ [Unlock Signaling]" and ?b = "Hops # Unlock Signaling # [Unlock PeerMap]"
  obtain rest where rest: "hangUp_locks found [] @ [Unlock Signaling] = Lock PeerMap # rest"
    by (simp add: hangUp_locks_def guarded_def)
  have call: "addIceCandidate_locks (Some True) = Lock PeerMap # Lock Signaling # ?b"
    by (simp add: addIceCandidate_locks_def guarded_def calls_def on_signaling_def)
  have "(lock_step c)\<^sup>*\<^sup>* [([], Lock Signaling # ?r), ([], Lock PeerMap # Lock Signaling # ?b)]
      [([Signaling], ?r), ([], Lock PeerMap # Lock Signaling # ?b)]"
    by (intro r_into_rtranclp first_takes) simp_all
  also have "lock_step c \<dots> [([Signaling], ?r), ([PeerMap], Lock Signaling # ?b)]"
    by (rule second_takes) simp_all
  also have "lock_step c \<dots> [([Signaling], Lock PeerMap # rest), ([PeerMap], Lock Signaling # ?b)]"
    using lock_step.hops [of 0 "[([Signaling], ?r), ([PeerMap], Lock Signaling # ?b)]" "[Signaling]" _ 0 c] rest
    by (simp add: worker_waits_def)
  finally have "(lock_step c)\<^sup>*\<^sup>* [([], Lock Signaling # ?r), ([], Lock PeerMap # Lock Signaling # ?b)]
      [([Signaling], Lock PeerMap # rest), ([PeerMap], Lock Signaling # ?b)]" .
  then show ?thesis
    using crossed_stuck [of c Signaling PeerMap rest ?b]
    by (intro exI [of _ "[([Signaling], Lock PeerMap # rest), ([PeerMap], Lock Signaling # ?b)]"])
       (simp add: call on_signaling_def guarded_def)
qed

text \<open>
  C16. The condition of the property is needed: a request that opens an audio device, in the worker
  thread, and one that sets an answer, when its call waits for the worker thread, can wait for each other.
\<close>

theorem audio_device_deadlocks:
  assumes "need_to_create r" and "audio_device r"
  shows "\<exists>ts. (lock_step True)\<^sup>*\<^sup>* (started [CreateOfferOp e Created r added, SetAnswerOp (Some True)]) ts \<and>
     (\<exists>t \<in> set ts. snd t \<noteq> []) \<and> (\<nexists>ts'. lock_step True ts ts')"
proof -
  define before where "before = CreatePeerConnection_locks e Created @ (if has_bitrate r then calls 1 else []) @ guarded StreamMap []"
  let ?b = "Unlock Worker # Unlock Signaling # []"
  obtain rest where offer: "locks_of (CreateOfferOp e Created r added) = before @ Lock Worker # Lock Signaling # rest"
    using assms by (simp add: createOffer_locks_def AddStreams_locks_def CreateAudioSource_locks_def calls_def
        on_signaling_def guarded_def before_def)
  have answer: "locks_of (SetAnswerOp (Some True)) = Lock PeerMap # Unlock PeerMap # Lock Signaling # Hops # [Unlock Signaling]"
    by (simp add: setAnswer_locks_def guarded_def calls_def on_signaling_def)
  have "above True 0 before" unfolding before_def by (auto intro!: nested)
  then have "ordered True [] before" unfolding above_def by (metis append_Nil2 empty_iff empty_set ordered.simps(1))
  then have "(lock_step True)\<^sup>*\<^sup>* (started [CreateOfferOp e Created r added, SetAnswerOp (Some True)])
      [([], Lock Worker # Lock Signaling # rest), ([], Lock PeerMap # Unlock PeerMap # Lock Signaling # Hops # [Unlock Signaling])]"
    using run_alone [of True "[]" before "([], locks_of (SetAnswerOp (Some True)))"] by (simp add: started_def offer answer del: locks_of.simps)
  also have "lock_step True \<dots> [([], Lock Worker # Lock Signaling # rest), ([PeerMap], Unlock PeerMap # Lock Signaling # Hops # [Unlock Signaling])]"
    by (rule second_takes) simp_all
  also have "lock_step True \<dots> [([], Lock Worker # Lock Signaling # rest), ([], Lock Signaling # Hops # [Unlock Signaling])]"
    using second_gives [of True _ "[PeerMap]" PeerMap] by simp
  also have "lock_step True \<dots> [([], Lock Worker # Lock Signaling # rest), ([Signaling], Hops # [Unlock Signaling])]"
    by (rule second_takes) simp_all
  also have "lock_step True \<dots> [([], Lock Worker # Lock Signaling # rest), ([Signaling], Lock Worker # ?b)]"
    using second_hops [of 1 True _ "[Signaling]" "[Unlock Signaling]"] by (simp add: worker_waits_def guarded_def)
  also have "lock_step True \<dots> [([Worker], Lock Signaling # rest), ([Signaling], Lock Worker # ?b)]"
    by (rule first_takes) simp_all
  finally show ?thesis using crossed_stuck [of True Worker Signaling rest ?b]
    by (intro exI [of _ "[([Worker], Lock Signaling # rest), ([Signaling], Lock Worker # ?b)]"]) simp
qed

theorem audio_device_deadlocks_witness:
  "\<exists>ts. (lock_step True)\<^sup>*\<^sup>* (started [CreateOfferOp None Created
       \<lparr>has_bitrate = False, need_to_create = True, has_video = False, has_audio = True, audio_device = True\<rparr> True,
     SetAnswerOp (Some True)]) ts \<and> (\<exists>t \<in> set ts. snd t \<noteq> []) \<and> (\<nexists>ts'. lock_step True ts ts')"
  by (rule audio_device_deadlocks) simp_all

end
