(* ===== verification/Session_Promise.thy ===== *)
theory Session_Promise
  imports Peer_Properties
begin

text \<open>
  The wait for a session description. \<open>createOffer\<close>, \<open>setAnswer\<close> and \<open>getAnswer\<close> keep a promise
  on their stack, hand an observer with a reference to it to WebRTC, wait five seconds, and on a
  timeout cancel the observer and return. The callbacks run on the signalling thread. Here the
  two threads are interleaved: a callback first tests whether it is cancelled and then sets the
  promise; the caller takes the value or times out, cancels, and leaves its frame.
\<close>

section \<open>Caller and callbacks\<close>

text \<open>The observer that the caller holds and cancels.\<close>

datatype held = HoldsCreate | HoldsSet

text \<open>
  What the signalling thread still owes: the callback of a \<open>CreateSessionDescriptionObserver\<close>,
  that of a \<open>SetSessionDescriptionObserver\<close>, or the \<open>set_value\<close> of a callback that was not
  cancelled when it tested.
\<close>

datatype 'sd duty = AwaitCreate | AwaitSet | Storing "'sd option" | Settled

datatype 'sd caller = Waiting | TimedOut | Leaving "'sd option option" | Returned "'sd option option"

record 'sd exchange =
  value_of :: "'sd option option" \<comment> \<open>the promise\<close>
  on_stack :: bool
  create_cancelled :: bool
  set_cancelled :: bool
  duty :: "'sd duty"
  caller :: "'sd caller"

definition init_exchange :: "held \<Rightarrow> 'sd exchange" where
  "init_exchange h = \<lparr>value_of = None, on_stack = True, create_cancelled = False, set_cancelled = False,
     duty = (case h of HoldsCreate \<Rightarrow> AwaitCreate | HoldsSet \<Rightarrow> AwaitSet), caller = Waiting\<rparr>"

text \<open>
  \<open>CreateSessionDescriptionObserver\<close>: a description is installed with a new
  \<open>SetSessionDescriptionObserver\<close> on the same promise.
\<close>

definition create_OnSuccess :: "'sd exchange \<Rightarrow> 'sd exchange" where
  "create_OnSuccess x =
     (if create_cancelled x then x\<lparr>duty := Settled\<rparr> else x\<lparr>set_cancelled := False, duty := AwaitSet\<rparr>)"

definition create_OnFailure :: "'sd exchange \<Rightarrow> 'sd exchange" where
  "create_OnFailure x = x\<lparr>duty := (if create_cancelled x then Settled else Storing None)\<rparr>"

definition set_OnSuccess :: "('pc, 'sd, 'cand) webrtc \<Rightarrow> 'pc \<Rightarrow> 'sd exchange \<Rightarrow> 'sd exchange" where
  "set_OnSuccess W pc x = x\<lparr>duty :=
     (if set_cancelled x then Settled
      else case local_description W pc of
             Some d \<Rightarrow> Storing (Some d)
           | None \<Rightarrow> (case remote_description W pc of Some d \<Rightarrow> Storing (Some d) | None \<Rightarrow> Settled))\<rparr>"

definition set_OnFailure :: "'sd exchange \<Rightarrow> 'sd exchange" where
  "set_OnFailure x = x\<lparr>duty := (if set_cancelled x then Settled else Storing None)\<rparr>"

text \<open>\<open>m_promise.set_value\<close>: the reference may dangle, and a second value would throw.\<close>

definition set_value :: "'sd exchange \<Rightarrow> 'sd exchange res" where
  "set_value x =
     (case duty x of
        Storing v \<Rightarrow> if \<not> on_stack x then Inl UseAfterFree
                      else if value_of x \<noteq> None then Inl Terminates
                      else Inr (x\<lparr>value_of := Some v, duty := Settled\<rparr>)
      | _ \<Rightarrow> Inr x)"

definition cancel :: "held \<Rightarrow> 'sd exchange \<Rightarrow> 'sd exchange" where
  "cancel h x = (case h of HoldsCreate \<Rightarrow> x\<lparr>create_cancelled := True\<rparr> | HoldsSet \<Rightarrow> x\<lparr>set_cancelled := True\<rparr>)"

inductive exchange_step :: "('pc, 'sd, 'cand) webrtc \<Rightarrow> held \<Rightarrow> 'sd exchange \<Rightarrow> 'sd exchange \<Rightarrow> bool" for W h where
  created: "duty x = AwaitCreate \<Longrightarrow> exchange_step W h x (create_OnSuccess x)"
| not_created: "duty x = AwaitCreate \<Longrightarrow> exchange_step W h x (create_OnFailure x)"
| installed: "duty x = AwaitSet \<Longrightarrow> exchange_step W h x (set_OnSuccess W pc x)"
| not_installed: "duty x = AwaitSet \<Longrightarrow> exchange_step W h x (set_OnFailure x)"
| store: "duty x = Storing v \<Longrightarrow> set_value x = Inr x' \<Longrightarrow> exchange_step W h x x'"
| ready: "caller x = Waiting \<Longrightarrow> value_of x = Some v \<Longrightarrow> exchange_step W h x (x\<lparr>caller := Leaving (Some v)\<rparr>)"
| timeout: "caller x = Waiting \<Longrightarrow> value_of x = None \<Longrightarrow> exchange_step W h x (x\<lparr>caller := TimedOut\<rparr>)"
| cancels: "caller x = TimedOut \<Longrightarrow> exchange_step W h x ((cancel h x)\<lparr>caller := Leaving None\<rparr>)"
| leaves: "caller x = Leaving r \<Longrightarrow> exchange_step W h x (x\<lparr>on_stack := False, caller := Returned r\<rparr>)"

inductive_cases exchange_stepE: "exchange_step W h x x'"

section \<open>What holds on every schedule\<close>

text \<open>The promise is set once, and the caller returns the value that was set.\<close>

definition value_ok :: "'sd exchange \<Rightarrow> bool" where
  "value_ok x \<longleftrightarrow> (value_of x \<noteq> None \<longrightarrow> duty x = Settled) \<and>
     (\<forall>v. caller x = Leaving (Some v) \<or> caller x = Returned (Some v) \<longrightarrow> value_of x = Some v)"

lemmas callback_defs = create_OnSuccess_def create_OnFailure_def set_OnSuccess_def set_OnFailure_def set_value_def cancel_def

interpretation once: step_invariant "exchange_step W h" value_ok for W :: "('pc, 'sd, 'cand) webrtc" and h
proof
  fix x x' :: "'sd exchange"
  assume "value_ok x" and "exchange_step W h x x'"
  from this(2,1) show "value_ok x'"
    by cases (auto simp: value_ok_def callback_defs split: held.splits if_splits)
qed

text \<open>
  Waiting for a description. On every schedule of the caller and the callbacks, the promise is
  never set twice, and a caller that returns with a value returns the one that a callback
  stored.
\<close>

theorem promise_set_once:
  assumes "(exchange_step W h)\<^sup>*\<^sup>* (init_exchange h) x"
  shows "set_value x \<noteq> Inl Terminates \<and> (\<forall>v. caller x = Returned (Some v) \<longrightarrow> value_of x = Some v \<and> duty x = Settled)"
proof -
  have "value_ok (init_exchange h)" by (simp add: value_ok_def init_exchange_def)
  with assms have "value_ok x" using once.steps_inv by blast
  then show ?thesis by (auto simp: value_ok_def set_value_def split: duty.splits)
qed

theorem promise_set_once_witness:
  "let x = (init_exchange HoldsSet :: nat exchange)\<lparr>value_of := Some None, duty := Settled, on_stack := False,
       caller := Returned (Some None)\<rparr>
   in set_value x \<noteq> Inl Terminates \<and> (\<forall>v. caller x = Returned (Some v) \<longrightarrow> value_of x = Some v \<and> duty x = Settled)"
proof -
  let ?W = "undefined :: (nat, nat, nat) webrtc"
  let ?i = "init_exchange HoldsSet :: nat exchange"
  let ?s = "?i\<lparr>value_of := Some None, duty := Settled\<rparr>"
  have "exchange_step ?W HoldsSet ?i (set_OnFailure ?i)"
    by (rule not_installed) (simp add: init_exchange_def)
  moreover have "exchange_step ?W HoldsSet (set_OnFailure ?i) ?s"
    by (rule store [of _ None]) (simp_all add: set_OnFailure_def set_value_def init_exchange_def)
  moreover have "exchange_step ?W HoldsSet ?s (?s\<lparr>caller := Leaving (Some None)\<rparr>)"
    by (rule ready) (simp_all add: init_exchange_def)
  moreover have "exchange_step ?W HoldsSet (?s\<lparr>caller := Leaving (Some None)\<rparr>)
      (?s\<lparr>on_stack := False, caller := Returned (Some None)\<rparr>)"
    using leaves [of "?s\<lparr>caller := Leaving (Some None)\<rparr>" "Some None" ?W HoldsSet] by simp
  ultimately have "(exchange_step ?W HoldsSet)\<^sup>*\<^sup>* ?i (?s\<lparr>on_stack := False, caller := Returned (Some None)\<rparr>)"
    by (meson rtranclp.rtrancl_into_rtrancl rtranclp.rtrancl_refl)
  from promise_set_once [OF this] show ?thesis by (simp add: Let_def init_exchange_def)
qed

section \<open>What the requests wait for\<close>

text \<open>
  What WebRTC is going to do for one request: how the creation of a description ends, or how the
  installation of one does. The decision selects the callback at every point of the exchange;
  whether it comes before the timeout is a matter of the schedule.
\<close>

datatype ('pc, 'sd) decision = Creating "'pc \<times> 'sd creation" | Installing "'pc \<times> completion"

fun answer_set :: "('pc, 'sd, 'cand) webrtc \<Rightarrow> 'pc \<times> completion \<Rightarrow> 'sd exchange \<Rightarrow> 'sd exchange option" where
  "answer_set W (pc, Succeeded) x = Some (set_OnSuccess W pc x)"
| "answer_set W (pc, Failed) x = Some (set_OnFailure x)"
| "answer_set W (pc, Late) x = None"

fun answer_create :: "'pc \<times> 'sd creation \<Rightarrow> 'sd exchange \<Rightarrow> 'sd exchange option" where
  "answer_create (pc, Created d) x = Some (create_OnSuccess x)"
| "answer_create (pc, CreationFailed) x = Some (create_OnFailure x)"
| "answer_create (pc, CreationLate) x = None"

text \<open>A created description is handed to \<open>SetLocalDescription\<close>.\<close>

definition callback ::
  "('pc, 'sd, 'cand) webrtc \<Rightarrow> ('pc, 'sd) decision \<Rightarrow> 'sd exchange \<Rightarrow> 'sd exchange option" where
  "callback W q x =
     (case duty x of
        AwaitCreate \<Rightarrow> (case q of Creating r \<Rightarrow> answer_create r x | Installing r \<Rightarrow> None)
      | AwaitSet \<Rightarrow> (case q of
            Creating (pc, Created d) \<Rightarrow> answer_set W (set_local W pc d) x
          | Creating _ \<Rightarrow> None
          | Installing r \<Rightarrow> answer_set W r x)
      | _ \<Rightarrow> None)"

definition holder :: "('pc, 'sd) decision \<Rightarrow> held" where
  "holder q = (case q of Creating _ \<Rightarrow> HoldsCreate | Installing _ \<Rightarrow> HoldsSet)"

inductive wait_step :: "('pc, 'sd, 'cand) webrtc \<Rightarrow> ('pc, 'sd) decision \<Rightarrow> 'sd exchange \<Rightarrow> 'sd exchange \<Rightarrow> bool" for W q where
  calls: "callback W q x = Some x' \<Longrightarrow> wait_step W q x x'"
| goes_on: "exchange_step W (holder q) x x' \<Longrightarrow> duty x' = duty x \<or> (\<exists>v. duty x = Storing v) \<Longrightarrow> wait_step W q x x'"

text \<open>What the operations of the manager are defined with.\<close>

definition promised :: "('pc, 'sd, 'cand) webrtc \<Rightarrow> ('pc, 'sd) decision \<Rightarrow> 'sd option option" where
  "promised W q =
     (case q of Creating r \<Rightarrow> snd (creation_promise W r) | Installing r \<Rightarrow> session_promise W (fst r) (snd r))"

lemma callback_exchange:
  assumes "callback W q x = Some x'"
  shows "exchange_step W (holder q) x x'"
proof -
  have set: "answer_set W r x = Some y \<Longrightarrow> duty x = AwaitSet \<Longrightarrow> exchange_step W h x y" for r y h
    by (cases "(W, r, x)" rule: answer_set.cases) (auto intro: installed not_installed)
  have create: "answer_create r x = Some y \<Longrightarrow> duty x = AwaitCreate \<Longrightarrow> exchange_step W h x y" for r y h
    by (cases "(r, x)" rule: answer_create.cases) (auto intro: created not_created)
  from assms show ?thesis
    using set create by (auto simp: callback_def split: duty.splits decision.splits prod.splits creation.splits)
qed

lemma wait_step_exchange: "wait_step W q x x' \<Longrightarrow> exchange_step W (holder q) x x'"
  by (erule wait_step.cases) (auto intro: callback_exchange)

text \<open>Nothing but the promised value is ever stored or returned.\<close>

definition wait_ok :: "('pc, 'sd, 'cand) webrtc \<Rightarrow> ('pc, 'sd) decision \<Rightarrow> 'sd exchange \<Rightarrow> bool" where
  "wait_ok W q x \<longleftrightarrow>
     (\<forall>v. duty x = Storing v \<longrightarrow> promised W q = Some v) \<and> (\<forall>v. value_of x = Some v \<longrightarrow> promised W q = Some v) \<and>
     (\<forall>v. caller x = Leaving (Some v) \<longrightarrow> promised W q = Some v) \<and>
     (\<forall>v. caller x = Returned (Some v) \<longrightarrow> promised W q = Some v)"

lemma answer_set_storing:
  assumes "answer_set W r x = Some y"
  shows "(\<forall>v. duty y = Storing v \<longrightarrow> session_promise W (fst r) (snd r) = Some v) \<and> value_of y = value_of x \<and> caller y = caller x"
  using assms by (cases "(W, r, x)" rule: answer_set.cases)
    (auto simp: set_OnSuccess_def set_OnFailure_def session_promise_def split: if_splits option.splits)

lemma answer_create_storing:
  assumes "answer_create r x = Some y"
  shows "(\<forall>v. duty y = Storing v \<longrightarrow> snd (creation_promise W r) = Some v) \<and> value_of y = value_of x \<and> caller y = caller x"
  using assms by (cases "(r, x)" rule: answer_create.cases)
    (auto simp: create_OnSuccess_def create_OnFailure_def creation_promise_def split: if_splits)

lemma callback_storing:
  assumes "callback W q x = Some y"
  shows "(\<forall>v. duty y = Storing v \<longrightarrow> promised W q = Some v) \<and> value_of y = value_of x \<and> caller y = caller x"
  using assms
  by (auto simp: callback_def promised_def creation_promise_def
      dest!: answer_set_storing answer_create_storing [where W = W]
      split: duty.splits decision.splits prod.splits creation.splits)

interpretation awaited: step_invariant "wait_step W q" "wait_ok W q"
  for W :: "('pc, 'sd, 'cand) webrtc" and q
proof
  fix x x' :: "'sd exchange"
  assume ok: "wait_ok W q x" and "wait_step W q x x'"
  from this(2) show "wait_ok W q x'"
  proof cases
    case calls
    with ok callback_storing [OF calls] show ?thesis by (auto simp: wait_ok_def)
  next
    case goes_on
    from goes_on(1) show ?thesis
    proof cases
      case cancels
      with ok show ?thesis by (auto simp: wait_ok_def cancel_def split: held.splits)
    qed (use ok goes_on(2) in \<open>auto simp: wait_ok_def callback_defs split: if_splits\<close>)
  qed
qed

text \<open>The callbacks one after the other, then the caller; or the timeout at once.\<close>

lemma set_OnSuccess_promised:
  assumes "session_promise W pc Succeeded = Some v" and "\<not> set_cancelled x"
  shows "duty (set_OnSuccess W pc x) = Storing v"
  using assms
  by (cases v; cases "local_description W pc"; cases "remote_description W pc")
     (simp_all add: set_OnSuccess_def session_promise_def)

lemma wait_returns_promised:
  fixes W :: "('pc, 'sd, 'cand) webrtc"
  assumes "promised W q = Some v"
  shows "\<exists>x. (wait_step W q)\<^sup>*\<^sup>* (init_exchange (holder q)) x \<and> caller x = Returned (Some v)"
proof -
  let ?i = "init_exchange (holder q) :: 'sd exchange"
  have set: "\<exists>y. answer_set W r x = Some y \<and> duty y = Storing v \<and> on_stack y = on_stack x \<and> value_of y = value_of x \<and> caller y = caller x"
    if "session_promise W (fst r) (snd r) = Some v" "\<not> set_cancelled x" for r x
  proof (cases "(W, r, x)" rule: answer_set.cases)
    case (1 W' pc x')
    with that show ?thesis using set_OnSuccess_promised [of W pc v x] by (simp add: set_OnSuccess_def)
  qed (use that in \<open>auto simp: set_OnFailure_def session_promise_def\<close>)
  have "\<exists>x. (wait_step W q)\<^sup>*\<^sup>* ?i x \<and> duty x = Storing v \<and> on_stack x \<and> value_of x = None \<and> caller x = Waiting"
  proof (cases q)
    case (Installing r)
    then have "callback W q ?i = answer_set W r ?i" by (simp add: callback_def init_exchange_def holder_def)
    moreover have i: "\<not> set_cancelled ?i" "on_stack ?i" "value_of ?i = None" "caller ?i = Waiting"
      by (simp_all add: init_exchange_def)
    moreover have "session_promise W (fst r) (snd r) = Some v" using assms Installing by (simp add: promised_def)
    note set [OF this i(1)]
    ultimately obtain y where "callback W q ?i = Some y" "duty y = Storing v" "on_stack y" "value_of y = None" "caller y = Waiting"
      by auto
    then show ?thesis by (meson r_into_rtranclp wait_step.calls)
  next
    case (Creating r)
    obtain pc c where r: "r = (pc, c)" by fastforce
    show ?thesis
    proof (cases c)
      case (Created d)
      let ?y = "create_OnSuccess ?i"
      have y: "duty ?y = AwaitSet" "\<not> set_cancelled ?y" "on_stack ?y" "value_of ?y = None" "caller ?y = Waiting"
        by (simp_all add: create_OnSuccess_def init_exchange_def)
      have "callback W q ?i = Some ?y"
        using Creating r Created by (simp add: callback_def init_exchange_def holder_def)
      then have 1: "wait_step W q ?i ?y" by (rule wait_step.calls)
      have "callback W q ?y = answer_set W (set_local W pc d) ?y"
        using Creating r Created y(1) by (simp add: callback_def)
      moreover have "session_promise W (fst (set_local W pc d)) (snd (set_local W pc d)) = Some v"
        using assms Creating r Created by (auto simp: promised_def creation_promise_def split: prod.splits)
      note set [OF this y(2)]
      ultimately obtain z where "callback W q ?y = Some z" "duty z = Storing v" "on_stack z" "value_of z = None" "caller z = Waiting"
        using y by auto
      with 1 show ?thesis by (meson converse_rtranclp_into_rtranclp r_into_rtranclp wait_step.calls)
    next
      case CreationFailed
      then have "callback W q ?i = Some (create_OnFailure ?i)" and "v = None"
        using Creating r assms by (simp_all add: callback_def init_exchange_def holder_def promised_def creation_promise_def)
      then show ?thesis
        by (intro exI [of _ "create_OnFailure ?i"])
           (auto intro!: wait_step.calls simp: create_OnFailure_def init_exchange_def)
    next
      case CreationLate
      with Creating r assms show ?thesis by (simp add: promised_def creation_promise_def)
    qed
  qed
  then obtain x where x: "(wait_step W q)\<^sup>*\<^sup>* ?i x" "duty x = Storing v" "on_stack x" "value_of x = None" "caller x = Waiting"
    by blast
  let ?y = "x\<lparr>value_of := Some v, duty := Settled\<rparr>"
  let ?z = "?y\<lparr>caller := Leaving (Some v)\<rparr>"
  have "wait_step W q x ?y"
    using exchange_step.store [OF x(2), of ?y W "holder q"] x by (intro wait_step.goes_on) (auto simp: set_value_def)
  moreover have "wait_step W q ?y ?z"
    using exchange_step.ready [of ?y v W "holder q"] x(5) by (intro wait_step.goes_on) simp_all
  moreover have "wait_step W q ?z (?z\<lparr>on_stack := False, caller := Returned (Some v)\<rparr>)"
    using exchange_step.leaves [of ?z "Some v" W "holder q"] by (intro wait_step.goes_on) simp_all
  ultimately have "(wait_step W q)\<^sup>*\<^sup>* ?i (?z\<lparr>on_stack := False, caller := Returned (Some v)\<rparr>)"
    using x(1) by (meson rtranclp.rtrancl_into_rtrancl)
  then show ?thesis by (intro exI [of _ "?z\<lparr>on_stack := False, caller := Returned (Some v)\<rparr>"]) simp
qed

lemma wait_times_out:
  fixes W :: "('pc, 'sd, 'cand) webrtc"
  shows "\<exists>x. (wait_step W q)\<^sup>*\<^sup>* (init_exchange (holder q)) x \<and> caller x = Returned None"
proof -
  let ?i = "init_exchange (holder q) :: 'sd exchange"
  let ?y = "?i\<lparr>caller := TimedOut\<rparr>"
  let ?z = "(cancel (holder q) ?y)\<lparr>caller := Leaving None\<rparr>"
  have "wait_step W q ?i ?y"
    using exchange_step.timeout [of ?i W "holder q"] by (intro wait_step.goes_on) (simp_all add: init_exchange_def)
  moreover have "wait_step W q ?y ?z"
    using exchange_step.cancels [of ?y W "holder q"]
    by (intro wait_step.goes_on) (simp_all add: cancel_def split: held.split)
  moreover have "wait_step W q ?z (?z\<lparr>on_stack := False, caller := Returned None\<rparr>)"
    using exchange_step.leaves [of ?z None W "holder q"] by (intro wait_step.goes_on) simp_all
  ultimately have "(wait_step W q)\<^sup>*\<^sup>* ?i (?z\<lparr>on_stack := False, caller := Returned None\<rparr>)"
    by (meson rtranclp.rtrancl_into_rtrancl rtranclp.rtrancl_refl)
  then show ?thesis by (intro exI [of _ "?z\<lparr>on_stack := False, caller := Returned None\<rparr>"]) simp
qed

text \<open>
  C14. The waits of \<open>createOffer\<close> and \<open>getAnswer\<close> for a local description, and that for the remote
  description of \<open>setAnswer\<close>, over every schedule of the caller and the callbacks: a request
  returns either without a value, after the timeout, or with exactly the outcome that the
  operations of the manager are defined with, and both are possible. That outcome is the
  description that WebRTC created, when it was created and installed; the remote description
  for a connection that has no local one, but the local one for a connection that has one; and
  null when the creation or the installation failed.
\<close>

theorem waits_refine_promises:
  "((\<exists>x. (wait_step W q)\<^sup>*\<^sup>* (init_exchange (holder q)) x \<and> caller x = Returned v)
      \<longleftrightarrow> v = None \<or> v = promised W q) \<and>
   (\<forall>pc pc' d. q = Creating (pc, Created d) \<and> set_local W pc d = (pc', Succeeded) \<and> local_description W pc' = Some d
      \<longrightarrow> promised W q = Some (Some d)) \<and>
   (\<forall>pc d. q = Installing (pc, Succeeded) \<and>
      (local_description W pc = Some d \<or> local_description W pc = None \<and> remote_description W pc = Some d)
      \<longrightarrow> promised W q = Some (Some d)) \<and>
   (\<forall>pc pc' d. q = Creating (pc, CreationFailed) \<or> q = Installing (pc, Failed) \<or>
      q = Creating (pc, Created d) \<and> set_local W pc d = (pc', Failed) \<longrightarrow> promised W q = Some None)"
proof -
  have "v = promised W q" if "(wait_step W q)\<^sup>*\<^sup>* (init_exchange (holder q)) x" "caller x = Returned v" "v \<noteq> None" for x
  proof -
    have "wait_ok W q (init_exchange (holder q))" by (simp add: wait_ok_def init_exchange_def holder_def split: decision.split)
    with that(1) have "wait_ok W q x" using awaited.steps_inv by blast
    with that(2,3) show ?thesis by (auto simp: wait_ok_def)
  qed
  moreover have "\<exists>x. (wait_step W q)\<^sup>*\<^sup>* (init_exchange (holder q)) x \<and> caller x = Returned v" if "v = None \<or> v = promised W q"
    using that wait_times_out [of W q] wait_returns_promised [of W q] by (metis option.exhaust)
  ultimately have "(\<exists>x. (wait_step W q)\<^sup>*\<^sup>* (init_exchange (holder q)) x \<and> caller x = Returned v)
      \<longleftrightarrow> v = None \<or> v = promised W q" by blast
  then show ?thesis
    by (intro conjI) (auto simp: promised_def creation_promise_def session_promise_def)
qed

text \<open>An offer that is created and installed, and one that WebRTC could not create.\<close>

theorem waits_refine_promises_witness:
  "(\<exists>x. (wait_step demo_webrtc (Creating ([], Created ''v=0'')))\<^sup>*\<^sup>* (init_exchange HoldsCreate) x \<and>
      caller x = Returned (Some (Some ''v=0''))) \<and>
   \<not> (\<exists>x. (wait_step demo_webrtc (Creating ([], CreationFailed)))\<^sup>*\<^sup>* (init_exchange HoldsCreate) x \<and>
      caller x = Returned (Some (Some ''v=0'')))"
proof -
  have "set_local demo_webrtc [] ''v=0'' = ([], Succeeded)" "local_description demo_webrtc [] = Some ''v=0''"
    by (simp_all add: demo_webrtc_def)
  then show ?thesis
    using waits_refine_promises [of demo_webrtc "Creating ([], Created ''v=0'')" "Some (Some ''v=0'')"]
      waits_refine_promises [of demo_webrtc "Creating ([], CreationFailed)" "Some (Some ''v=0'')"]
    by (simp add: holder_def)
qed

section \<open>Cancelling\<close>

text \<open>Schedules on which a callback runs to its end before the caller goes on.\<close>

definition calm_step :: "('pc, 'sd, 'cand) webrtc \<Rightarrow> held \<Rightarrow> 'sd exchange \<Rightarrow> 'sd exchange \<Rightarrow> bool" where
  "calm_step W h x x' \<longleftrightarrow> exchange_step W h x x' \<and> (caller x' \<noteq> caller x \<longrightarrow> (\<forall>v. duty x \<noteq> Storing v))"

definition cancel_ok :: "'sd exchange \<Rightarrow> bool" where
  "cancel_ok x \<longleftrightarrow> value_ok x \<and> duty x \<noteq> AwaitCreate \<and>
     (caller x = Waiting \<or> caller x = TimedOut \<longrightarrow> on_stack x) \<and>
     (\<forall>r. caller x = Leaving r \<or> caller x = Returned r \<longrightarrow> duty x = Settled \<or> duty x = AwaitSet \<and> set_cancelled x)"

interpretation cancelled: step_invariant "calm_step W HoldsSet" cancel_ok for W :: "('pc, 'sd, 'cand) webrtc"
proof
  fix x x' :: "'sd exchange"
  assume ok: "cancel_ok x" and "calm_step W HoldsSet x x'"
  then have step: "exchange_step W HoldsSet x x'" and calm: "caller x' \<noteq> caller x \<longrightarrow> (\<forall>v. duty x \<noteq> Storing v)"
    by (simp_all add: calm_step_def)
  have "value_ok x'" using ok step once.step_inv by (auto simp: cancel_ok_def)
  from step show "cancel_ok x'"
  proof cases
    case cancels
    with ok calm \<open>value_ok x'\<close> show ?thesis by (cases "duty x") (auto simp: cancel_ok_def cancel_def)
  qed (use ok calm \<open>value_ok x'\<close> in \<open>auto simp: cancel_ok_def value_ok_def callback_defs split: if_splits option.splits\<close>)
qed

text \<open>A caller that gives up: the timeout, \<open>cancel\<close> and the return.\<close>

lemma gives_up:
  assumes "caller x = Waiting" and "value_of x = None"
  shows "(exchange_step W h)\<^sup>*\<^sup>* x ((cancel h x)\<lparr>on_stack := False, caller := Returned None\<rparr>)"
    and "(\<forall>v. duty x \<noteq> Storing v) \<Longrightarrow> (calm_step W h)\<^sup>*\<^sup>* x ((cancel h x)\<lparr>on_stack := False, caller := Returned None\<rparr>)"
proof -
  let ?y = "(cancel h (x\<lparr>caller := TimedOut\<rparr>))\<lparr>caller := Leaving None\<rparr>"
  have y: "?y\<lparr>on_stack := False, caller := Returned None\<rparr> = (cancel h x)\<lparr>on_stack := False, caller := Returned None\<rparr>"
    and d: "duty ?y = duty x" by (cases h; simp add: cancel_def)+
  have steps: "exchange_step W h x (x\<lparr>caller := TimedOut\<rparr>)" "exchange_step W h (x\<lparr>caller := TimedOut\<rparr>) ?y"
      "exchange_step W h ?y ((cancel h x)\<lparr>on_stack := False, caller := Returned None\<rparr>)"
    using timeout [of x W h] cancels [of "x\<lparr>caller := TimedOut\<rparr>" W h] leaves [of ?y None W h] assms y by simp_all
  then show "(exchange_step W h)\<^sup>*\<^sup>* x ((cancel h x)\<lparr>on_stack := False, caller := Returned None\<rparr>)"
    by (meson rtranclp.rtrancl_into_rtrancl rtranclp.rtrancl_refl)
  assume "\<forall>v. duty x \<noteq> Storing v"
  then have "calm_step W h x (x\<lparr>caller := TimedOut\<rparr>)" "calm_step W h (x\<lparr>caller := TimedOut\<rparr>) ?y"
      "calm_step W h ?y ((cancel h x)\<lparr>on_stack := False, caller := Returned None\<rparr>)"
    using steps d by (simp_all add: calm_step_def)
  then show "(calm_step W h)\<^sup>*\<^sup>* x ((cancel h x)\<lparr>on_stack := False, caller := Returned None\<rparr>)"
    by (meson rtranclp.rtrancl_into_rtrancl rtranclp.rtrancl_refl)
qed

text \<open>
  Cancelling works for the observer that the caller holds: when callbacks are not interrupted,
  no callback of \<open>setAnswer\<close> sets the promise after the request has returned, whenever it comes.
\<close>

theorem cancelled_answer_safe:
  assumes "(calm_step W HoldsSet)\<^sup>*\<^sup>* (init_exchange HoldsSet) x"
  shows "\<exists>x'. set_value x = Inr x'"
proof -
  have "cancel_ok (init_exchange HoldsSet)" by (simp add: cancel_ok_def value_ok_def init_exchange_def)
  with assms have "cancel_ok x" using cancelled.steps_inv by blast
  then show ?thesis
    by (cases "duty x"; cases "caller x") (auto simp: cancel_ok_def value_ok_def set_value_def)
qed

theorem cancelled_answer_safe_witness:
  "\<exists>x'. set_value (set_OnFailure ((init_exchange HoldsSet :: nat exchange)
     \<lparr>on_stack := False, set_cancelled := True, caller := Returned None\<rparr>)) = Inr x'"
proof (rule cancelled_answer_safe)
  let ?W = "undefined :: (nat, nat, nat) webrtc"
  let ?i = "init_exchange HoldsSet :: nat exchange"
  let ?x = "?i\<lparr>on_stack := False, set_cancelled := True, caller := Returned None\<rparr>"
  have "(calm_step ?W HoldsSet)\<^sup>*\<^sup>* ?i ?x"
    using gives_up [of ?i ?W HoldsSet] by (simp add: init_exchange_def cancel_def)
  moreover have "calm_step ?W HoldsSet ?x (set_OnFailure ?x)"
    using not_installed [of ?x ?W HoldsSet] by (simp add: calm_step_def set_OnFailure_def init_exchange_def)
  ultimately show "(calm_step ?W HoldsSet)\<^sup>*\<^sup>* ?i (set_OnFailure ?x)" by (rule rtranclp.rtrancl_into_rtrancl)
qed

text \<open>
  C32. It does not work for a description that is being created: the observer that
  \<open>CreateSessionDescriptionObserver\<close> hands to \<open>SetLocalDescription\<close> refers to the same promise
  and nobody cancels it. When \<open>createOffer\<close> times out in between, the callback sets a promise
  whose frame is gone. If callbacks are interrupted, this also happens to the observer that the
  caller cancels, between the test of the flag and \<open>set_value\<close>.
\<close>

theorem late_local_description_dangles:
  "(\<exists>x. (calm_step W HoldsCreate)\<^sup>*\<^sup>* (init_exchange HoldsCreate) x \<and> caller x = Returned None \<and>
      create_cancelled x \<and> set_value x = Inl UseAfterFree) \<and>
   (\<exists>x. (exchange_step W HoldsSet)\<^sup>*\<^sup>* (init_exchange HoldsSet) x \<and> caller x = Returned None \<and>
      set_cancelled x \<and> set_value x = Inl UseAfterFree)"
proof
  let ?i = "init_exchange HoldsCreate"
  let ?x1 = "?i\<lparr>duty := AwaitSet\<rparr>"
  let ?x4 = "?x1\<lparr>on_stack := False, create_cancelled := True, caller := Returned None\<rparr>"
  have "calm_step W HoldsCreate ?i ?x1"
    using created [of ?i W HoldsCreate] by (simp add: calm_step_def create_OnSuccess_def init_exchange_def)
  moreover have "(calm_step W HoldsCreate)\<^sup>*\<^sup>* ?x1 ?x4"
    using gives_up [of ?x1 W HoldsCreate] by (simp add: calm_step_def init_exchange_def cancel_def)
  moreover have "calm_step W HoldsCreate ?x4 (set_OnFailure ?x4)"
    using not_installed [of ?x4 W HoldsCreate] by (simp add: calm_step_def set_OnFailure_def)
  ultimately have "(calm_step W HoldsCreate)\<^sup>*\<^sup>* ?i (set_OnFailure ?x4)"
    by (meson converse_rtranclp_into_rtranclp rtranclp.rtrancl_into_rtrancl)
  then show "\<exists>x. (calm_step W HoldsCreate)\<^sup>*\<^sup>* ?i x \<and> caller x = Returned None \<and>
      create_cancelled x \<and> set_value x = Inl UseAfterFree"
    by (intro exI [of _ "set_OnFailure ?x4"]) (simp add: set_OnFailure_def set_value_def init_exchange_def)
next
  let ?i = "init_exchange HoldsSet"
  let ?x = "?i\<lparr>duty := Storing None, on_stack := False, set_cancelled := True, caller := Returned None\<rparr>"
  have "exchange_step W HoldsSet ?i (set_OnFailure ?i)"
    using not_installed [of ?i W HoldsSet] by (simp add: init_exchange_def)
  moreover have "(exchange_step W HoldsSet)\<^sup>*\<^sup>* (set_OnFailure ?i) ?x"
    using gives_up [of "set_OnFailure ?i" W HoldsSet] by (simp add: set_OnFailure_def init_exchange_def cancel_def)
  ultimately have "(exchange_step W HoldsSet)\<^sup>*\<^sup>* ?i ?x" by (rule converse_rtranclp_into_rtranclp)
  then show "\<exists>x. (exchange_step W HoldsSet)\<^sup>*\<^sup>* ?i x \<and> caller x = Returned None \<and>
      set_cancelled x \<and> set_value x = Inl UseAfterFree"
    by (intro exI [of _ ?x]) (simp add: set_value_def)
qed

end
