(* ===== verification/Peer_Events.thy ===== *)
theory Peer_Events
  imports Null_Codec
begin

text \<open>
  What a \<open>PeerConnectionObserver\<close> attaches to WebRTC: the observers of its two data channels and
  the sinks of the tracks that the peer sends. WebRTC keeps raw pointers to them, so each must be
  detached before it is deleted, whatever the order of the callbacks.
\<close>

section \<open>Sinks and channels\<close>

text \<open>An attached object: its address and the track or channel it has registered with.\<close>

type_synonym sink = "nat \<times> string"
type_synonym channel_observer = "nat \<times> nat"

datatype gathering = GatheringNew | GatheringRunning | GatheringComplete

text \<open>
  The members of the observer, and the registrations that WebRTC keeps: a list of sinks for each
  kind of track, and for each channel at most one observer.
\<close>

record attached =
  m_localChannel :: "channel_observer option"
  m_remoteChannel :: "channel_observer option"
  m_videosink :: "sink option"
  m_audiosink :: "sink option"
  m_gatheringState :: "gathering option"
  fresh :: nat
  video_sinks :: "sink list"
  audio_sinks :: "sink list"
  channel_of :: "nat \<Rightarrow> nat option"
  sent :: "(nat \<times> string) list"

definition no_attached :: attached where
  "no_attached = \<lparr>m_localChannel = None, m_remoteChannel = None, m_videosink = None, m_audiosink = None,
     m_gatheringState = None, fresh = 0, video_sinks = [], audio_sinks = [], channel_of = (\<lambda>_. None), sent = []\<rparr>"

text \<open>\<open>VideoSink\<close> and \<open>AudioSink\<close>: the constructor adds the sink to its track, the destructor removes it.\<close>

definition new_VideoSink :: "string \<Rightarrow> attached \<Rightarrow> sink \<times> attached" where
  "new_VideoSink track o' = (let s = (fresh o', track) in (s, o'\<lparr>fresh := Suc (fresh o'), video_sinks := s # video_sinks o'\<rparr>))"

definition delete_VideoSink :: "sink \<Rightarrow> attached \<Rightarrow> attached" where
  "delete_VideoSink s o' = o'\<lparr>video_sinks := removeAll s (video_sinks o')\<rparr>"

definition new_AudioSink :: "string \<Rightarrow> attached \<Rightarrow> sink \<times> attached" where
  "new_AudioSink track o' = (let s = (fresh o', track) in (s, o'\<lparr>fresh := Suc (fresh o'), audio_sinks := s # audio_sinks o'\<rparr>))"

definition delete_AudioSink :: "sink \<Rightarrow> attached \<Rightarrow> attached" where
  "delete_AudioSink s o' = o'\<lparr>audio_sinks := removeAll s (audio_sinks o')\<rparr>"

text \<open>\<open>DataChannelObserver\<close>: \<open>UnregisterObserver\<close> clears the observer of the channel, whoever it is.\<close>

definition new_DataChannelObserver :: "nat \<Rightarrow> attached \<Rightarrow> channel_observer \<times> attached" where
  "new_DataChannelObserver c o' =
     (let d = (fresh o', c) in (d, o'\<lparr>fresh := Suc (fresh o'), channel_of := (channel_of o')(c := Some (fresh o'))\<rparr>))"

definition delete_DataChannelObserver :: "channel_observer \<Rightarrow> attached \<Rightarrow> attached" where
  "delete_DataChannelObserver d o' = o'\<lparr>channel_of := (channel_of o')(snd d := None)\<rparr>"

text \<open>\<open>unique_ptr::reset\<close>: the new object is there before the old one is deleted.\<close>

definition reset_videosink :: "string option \<Rightarrow> attached \<Rightarrow> attached" where
  "reset_videosink track o' =
     (case track of
        None \<Rightarrow> (case m_videosink o' of None \<Rightarrow> o' | Some s \<Rightarrow> delete_VideoSink s (o'\<lparr>m_videosink := None\<rparr>))
      | Some t \<Rightarrow> (case new_VideoSink t o' of (s, o1) \<Rightarrow>
          (case m_videosink o' of
             None \<Rightarrow> o1\<lparr>m_videosink := Some s\<rparr>
           | Some old \<Rightarrow> delete_VideoSink old (o1\<lparr>m_videosink := Some s\<rparr>))))"

definition reset_audiosink :: "string option \<Rightarrow> attached \<Rightarrow> attached" where
  "reset_audiosink track o' =
     (case track of
        None \<Rightarrow> (case m_audiosink o' of None \<Rightarrow> o' | Some s \<Rightarrow> delete_AudioSink s (o'\<lparr>m_audiosink := None\<rparr>))
      | Some t \<Rightarrow> (case new_AudioSink t o' of (s, o1) \<Rightarrow>
          (case m_audiosink o' of
             None \<Rightarrow> o1\<lparr>m_audiosink := Some s\<rparr>
           | Some old \<Rightarrow> delete_AudioSink old (o1\<lparr>m_audiosink := Some s\<rparr>))))"

section \<open>Callbacks\<close>

text \<open>The channel that the constructor opens, when WebRTC gives one.\<close>

definition open_localChannel :: "nat option \<Rightarrow> attached" where
  "open_localChannel c =
     (case c of
        None \<Rightarrow> no_attached
      | Some ch \<Rightarrow> (case new_DataChannelObserver ch no_attached of (d, o1) \<Rightarrow> o1\<lparr>m_localChannel := Some d\<rparr>))"

text \<open>A stream is given by the ids of its video and of its audio tracks.\<close>

definition OnAddStream :: "string list \<Rightarrow> string list \<Rightarrow> attached \<Rightarrow> attached" where
  "OnAddStream videoTracks audioTracks o' =
     (let o1 = (if videoTracks \<noteq> [] then reset_videosink (Some (hd videoTracks)) o' else o')
      in if audioTracks \<noteq> [] then reset_audiosink (Some (hd audioTracks)) o1 else o1)"

definition OnRemoveStream :: "attached \<Rightarrow> attached" where
  "OnRemoveStream o' = reset_audiosink None (reset_videosink None o')"

definition OnDataChannel :: "nat \<Rightarrow> attached \<Rightarrow> attached" where
  "OnDataChannel c o' =
     (case new_DataChannelObserver c o' of (d, o1) \<Rightarrow>
       (case m_remoteChannel o' of
          None \<Rightarrow> o1\<lparr>m_remoteChannel := Some d\<rparr>
        | Some old \<Rightarrow> delete_DataChannelObserver old (o1\<lparr>m_remoteChannel := Some d\<rparr>)))"

definition OnIceGatheringChange :: "gathering \<Rightarrow> attached \<Rightarrow> attached" where
  "OnIceGatheringChange g o' = o'\<lparr>m_gatheringState := Some g\<rparr>"

text \<open>The state of a channel is sent to the peer as \<open>label state\<close>.\<close>

definition OnStateChange :: "nat \<Rightarrow> string \<Rightarrow> string \<Rightarrow> attached \<Rightarrow> attached" where
  "OnStateChange c label state o' = o'\<lparr>sent := sent o' @ [(c, label @ '' '' @ state)]\<rparr>"

text \<open>The members in the order in which the destructor deletes them.\<close>

definition destroy_members :: "attached \<Rightarrow> attached" where
  "destroy_members o' =
     (let o1 = reset_videosink None (reset_audiosink None o');
          o2 = (case m_remoteChannel o1 of None \<Rightarrow> o1 | Some d \<Rightarrow> delete_DataChannelObserver d (o1\<lparr>m_remoteChannel := None\<rparr>))
      in (case m_localChannel o2 of None \<Rightarrow> o2 | Some d \<Rightarrow> delete_DataChannelObserver d (o2\<lparr>m_localChannel := None\<rparr>)))"

text \<open>\<open>ToI420\<close> of an encoded buffer is null; the log statement is evaluated at level verbose only.\<close>

definition ToI420 :: "frame_buffer \<Rightarrow> (int \<times> int) option" where
  "ToI420 b = (case b of Native e \<Rightarrow> None | Planar w h \<Rightarrow> Some (w, h))"

definition VideoSink_OnFrame :: "bool \<Rightarrow> buffer_frame \<Rightarrow> (int \<times> int) option res" where
  "VideoSink_OnFrame verbose f =
     (if \<not> verbose then Inr None
      else case ToI420 (bf_buffer f) of None \<Rightarrow> Inl NullDeref | Some wh \<Rightarrow> Inr (Some wh))"

lemmas attach_defs = new_VideoSink_def delete_VideoSink_def new_AudioSink_def delete_AudioSink_def
  new_DataChannelObserver_def delete_DataChannelObserver_def reset_videosink_def reset_audiosink_def

lemmas event_defs = OnAddStream_def OnRemoveStream_def OnDataChannel_def OnIceGatheringChange_def OnStateChange_def

text \<open>
  The callbacks in any order. WebRTC announces a channel that the peer has opened once, and the
  observer of a channel is told about its state.
\<close>

inductive event_step :: "attached \<Rightarrow> attached \<Rightarrow> bool" where
  add: "event_step o' (OnAddStream vs as' o')"
| remove: "event_step o' (OnRemoveStream o')"
| channel: "channel_of o' c = None \<Longrightarrow> event_step o' (OnDataChannel c o')"
| gathering: "event_step o' (OnIceGatheringChange g o')"
| state: "channel_of o' c = Some a \<Longrightarrow> event_step o' (OnStateChange c label st o')"

section \<open>Registrations are owned\<close>

definition members :: "'a option \<Rightarrow> 'a list" where
  "members m = (case m of None \<Rightarrow> [] | Some x \<Rightarrow> [x])"

lemma members_simps [simp]: "members None = []" "members (Some x) = [x]"
  by (simp_all add: members_def)

lemma set_members [simp]: "set (members m) = set_option m"
  by (cases m) simp_all

text \<open>WebRTC holds exactly the objects that the members own.\<close>

definition sinks_ok :: "attached \<Rightarrow> bool" where
  "sinks_ok o' \<longleftrightarrow> video_sinks o' = members (m_videosink o') \<and> audio_sinks o' = members (m_audiosink o') \<and>
     (\<forall>s \<in> set_option (m_videosink o') \<union> set_option (m_audiosink o'). fst s < fresh o')"

definition channels_ok :: "attached \<Rightarrow> bool" where
  "channels_ok o' \<longleftrightarrow>
     (\<forall>c a. channel_of o' c = Some a \<longleftrightarrow> (a, c) \<in> set_option (m_localChannel o') \<union> set_option (m_remoteChannel o')) \<and>
     (\<forall>d \<in> set_option (m_localChannel o'). \<forall>d' \<in> set_option (m_remoteChannel o'). snd d \<noteq> snd d')"

definition owned_ok :: "attached \<Rightarrow> bool" where
  "owned_ok o' \<longleftrightarrow> sinks_ok o' \<and> channels_ok o'"

lemma reset_videosink_sinks: "sinks_ok o' \<Longrightarrow> sinks_ok (reset_videosink t o')"
  by (cases t; cases "m_videosink o'"; cases "m_audiosink o'") (auto simp: sinks_ok_def attach_defs Let_def)

lemma reset_audiosink_sinks: "sinks_ok o' \<Longrightarrow> sinks_ok (reset_audiosink t o')"
  by (cases t; cases "m_videosink o'"; cases "m_audiosink o'") (auto simp: sinks_ok_def attach_defs Let_def)

lemma reset_channels [simp]:
  "channels_ok (reset_videosink t o') = channels_ok o'" "channels_ok (reset_audiosink t o') = channels_ok o'"
  by (cases t; cases "m_videosink o'"; simp add: channels_ok_def attach_defs Let_def)
    (cases t; cases "m_audiosink o'"; simp add: channels_ok_def attach_defs Let_def)

lemma OnDataChannel_sinks: "sinks_ok o' \<Longrightarrow> sinks_ok (OnDataChannel c o')"
  by (cases "m_remoteChannel o'") (auto simp: sinks_ok_def OnDataChannel_def attach_defs Let_def less_Suc_eq)

lemma OnDataChannel_channels:
  assumes ok: "channels_ok o'" and "channel_of o' c = None"
  shows "channels_ok (OnDataChannel c o')"
proof -
  have other: "b \<noteq> c" if "(a, b) \<in> set_option (m_localChannel o') \<union> set_option (m_remoteChannel o')" for a b
    using that ok assms(2) unfolding channels_ok_def by (metis option.distinct(1))
  show ?thesis
  proof (cases "m_remoteChannel o'")
    case None
    with ok other show ?thesis by (fastforce simp: channels_ok_def OnDataChannel_def attach_defs Let_def)
  next
    case (Some d)
    have eqs: "channel_of (OnDataChannel c o') = (channel_of o')(c := Some (fresh o'), snd d := None)"
        "m_localChannel (OnDataChannel c o') = m_localChannel o'" "m_remoteChannel (OnDataChannel c o') = Some (fresh o', c)"
      using Some by (simp_all add: OnDataChannel_def attach_defs Let_def)
    have ne: "c \<noteq> snd d" using other [of "fst d" "snd d"] Some by simp
    have loc: "b \<noteq> snd d" "b \<noteq> c" if "(a, b) \<in> set_option (m_localChannel o')" for a b
      using ok Some that other [of a b] by (auto simp: channels_ok_def)
    have "channel_of (OnDataChannel c o') b = Some a \<longleftrightarrow> (a, b) \<in> set_option (m_localChannel o') \<or> a = fresh o' \<and> b = c" for a b
    proof (cases "b = c \<or> b = snd d")
      case True
      then show ?thesis using loc [of a b] ne by (auto simp: eqs(1))
    next
      case False
      then have "channel_of (OnDataChannel c o') b = channel_of o' b" by (simp add: eqs(1))
      moreover have "(a, b) \<noteq> d" using False by auto
      ultimately show ?thesis using ok Some False unfolding channels_ok_def by auto
    qed
    then show ?thesis using loc(2) by (auto simp: channels_ok_def eqs(2,3))
  qed
qed

interpretation attach: step_invariant event_step owned_ok
proof
  fix x y
  assume "owned_ok x" and "event_step x y"
  from this(2,1) show "owned_ok y"
  proof cases
    case (channel c)
    with \<open>owned_ok x\<close> show ?thesis by (simp add: owned_ok_def OnDataChannel_sinks OnDataChannel_channels)
  next
    case (gathering g)
    with \<open>owned_ok x\<close> show ?thesis by (simp add: owned_ok_def sinks_ok_def channels_ok_def OnIceGatheringChange_def)
  next
    case (state c a label st)
    with \<open>owned_ok x\<close> show ?thesis by (simp add: owned_ok_def sinks_ok_def channels_ok_def OnStateChange_def)
  qed (simp_all add: owned_ok_def OnAddStream_def OnRemoveStream_def Let_def reset_videosink_sinks reset_audiosink_sinks)
qed

lemma open_localChannel_ok: "owned_ok (open_localChannel c)"
  by (cases c) (auto simp: owned_ok_def sinks_ok_def channels_ok_def open_localChannel_def no_attached_def attach_defs Let_def)

lemma destroy_members_clear:
  assumes "owned_ok o'"
  shows "video_sinks (destroy_members o') = [] \<and> audio_sinks (destroy_members o') = [] \<and> channel_of (destroy_members o') = (\<lambda>_. None)"
proof -
  let ?o1 = "reset_videosink None (reset_audiosink None o')"
  have o1: "sinks_ok ?o1" "channels_ok ?o1"
    using assms by (simp_all add: owned_ok_def reset_videosink_sinks reset_audiosink_sinks)
  have "m_videosink ?o1 = None" "m_audiosink ?o1 = None"
    by (cases "m_videosink o'"; cases "m_audiosink o'"; simp add: attach_defs)+
  with o1(1) have s: "video_sinks ?o1 = []" "audio_sinks ?o1 = []" by (simp_all add: sinks_ok_def)
  have "channel_of (destroy_members o') c = None" for c
  proof (cases "channel_of ?o1 c")
    case None
    then show ?thesis by (auto simp: destroy_members_def Let_def delete_DataChannelObserver_def split: option.splits)
  next
    case (Some a)
    with o1(2) have "(a, c) \<in> set_option (m_localChannel ?o1) \<union> set_option (m_remoteChannel ?o1)"
      unfolding channels_ok_def by blast
    then show ?thesis
      by (auto simp: destroy_members_def Let_def delete_DataChannelObserver_def split: option.splits)
  qed
  moreover have "video_sinks (destroy_members o') = video_sinks ?o1" "audio_sinks (destroy_members o') = audio_sinks ?o1"
    by (auto simp: destroy_members_def Let_def delete_DataChannelObserver_def split: option.splits)
  ultimately show ?thesis using s by auto
qed

text \<open>
  C26. The pointers that WebRTC keeps into an observer. Whatever streams and channels the peer adds
  and removes, and in whatever order, every registered sink or channel observer is one that the
  observer still owns; each kind of track has one sink at most; and when the observer is deleted
  nothing stays registered.
\<close>

theorem registrations_owned:
  assumes "event_step\<^sup>*\<^sup>* (open_localChannel c) o'"
  shows "set (video_sinks o') = set_option (m_videosink o') \<and> set (audio_sinks o') = set_option (m_audiosink o') \<and>
    {(a, c). channel_of o' c = Some a} = set_option (m_localChannel o') \<union> set_option (m_remoteChannel o') \<and>
    length (video_sinks o') \<le> 1 \<and> length (audio_sinks o') \<le> 1 \<and>
    video_sinks (destroy_members o') = [] \<and> audio_sinks (destroy_members o') = [] \<and>
    channel_of (destroy_members o') = (\<lambda>_. None)"
proof -
  have ok: "owned_ok o'" using assms open_localChannel_ok attach.steps_inv by blast
  have "length (members m) \<le> 1" for m :: "sink option" by (cases m) simp_all
  moreover from ok have "{(a, c). channel_of o' c = Some a} = set_option (m_localChannel o') \<union> set_option (m_remoteChannel o')"
    unfolding owned_ok_def channels_ok_def by fast
  ultimately show ?thesis using ok destroy_members_clear [OF ok] unfolding owned_ok_def sinks_ok_def by simp
qed

definition demo_attached :: attached where
  "demo_attached = OnDataChannel 8 (OnAddStream [''v''] [''a''] (open_localChannel (Some 7)))"

theorem registrations_owned_witness:
  "set (video_sinks demo_attached) = {(1, ''v'')} \<and> length (audio_sinks demo_attached) \<le> 1 \<and>
   {(a, c). channel_of demo_attached c = Some a} = {(0, 7), (3, 8)} \<and> video_sinks (destroy_members demo_attached) = [] \<and>
   audio_sinks (destroy_members demo_attached) = [] \<and> channel_of (destroy_members demo_attached) = (\<lambda>_. None)"
proof -
  let ?o = "OnAddStream [''v''] [''a''] (open_localChannel (Some 7))"
  have "event_step (open_localChannel (Some 7)) ?o" by (rule add)
  moreover have "event_step ?o demo_attached"
    unfolding demo_attached_def
    by (rule channel) (simp add: event_defs attach_defs open_localChannel_def no_attached_def Let_def)
  ultimately have "event_step\<^sup>*\<^sup>* (open_localChannel (Some 7)) demo_attached" by simp
  moreover have "m_videosink demo_attached = Some (1, ''v'')" "m_localChannel demo_attached = Some (0, 7)"
      "m_remoteChannel demo_attached = Some (3, 8)"
    by (simp_all add: demo_attached_def event_defs attach_defs open_localChannel_def no_attached_def Let_def)
  ultimately show ?thesis using registrations_owned [of "Some 7" demo_attached] by (auto simp del: set_empty)
qed

section \<open>Two flaws\<close>

text \<open>
  \<open>OnRemoveStream\<close> does not look at its stream: when one of two streams is removed, the sinks of
  the other one are detached, although its tracks are still received.
\<close>

theorem removed_stream_detaches_other:
  assumes "vs \<noteq> []" and "vs' \<noteq> []"
  shows "m_videosink (OnRemoveStream (OnAddStream vs' as' (OnAddStream vs as o'))) = None \<and>
    (\<exists>s. m_videosink (OnAddStream vs' as' (OnAddStream vs as o')) = Some (s, hd vs'))"
proof -
  have v: "\<exists>s. m_videosink (reset_videosink (Some t) x) = Some (s, t)" for t x
    by (cases "m_videosink x") (simp_all add: attach_defs Let_def)
  have a: "m_videosink (reset_audiosink t x) = m_videosink x" for t x
    by (cases t; cases "m_audiosink x") (simp_all add: attach_defs Let_def)
  have n: "m_videosink (reset_videosink None x) = None" for x
    by (cases "m_videosink x") (simp_all add: attach_defs)
  show ?thesis using assms v by (simp add: OnAddStream_def OnRemoveStream_def Let_def a n)
qed

theorem removed_stream_detaches_other_witness:
  "m_videosink (OnRemoveStream (OnAddStream [''w''] [] (OnAddStream [''v''] [] no_attached))) = None \<and>
   (\<exists>s. m_videosink (OnAddStream [''w''] [] (OnAddStream [''v''] [] no_attached)) = Some (s, ''w''))"
  using removed_stream_detaches_other [of "[''v'']" "[''w'']" "[]" "[]" no_attached] by simp

text \<open>
  A frame of the null decoder has no planar picture: with verbose logging the sink of a received
  track follows the null pointer of \<open>ToI420\<close>; without it the frame is ignored.
\<close>

theorem null_codec_frame_crashes_sink:
  assumes "Decode img t d = Inr (d', codec_ok)" and "nd_decoded d' \<noteq> nd_decoded d"
  shows "VideoSink_OnFrame verbose (last (nd_decoded d')) = (if verbose then Inl NullDeref else Inr None)"
  using assms by (auto simp: Decode_def VideoSink_OnFrame_def ToI420_def split: option.splits bool.splits)

theorem null_codec_frame_crashes_sink_witness:
  "let d = RegisterDecodeCompleteCallback True (NullDecoder \<lparr>sf_name = ''H264'', sf_params = []\<rparr>);
       img = \<lparr>e_data = [1], e_type = KeyFrame, e_ntp_ms = 0, e_rtp = 0\<rparr>
   in \<exists>d'. Decode img 5 d = Inr (d', codec_ok) \<and> VideoSink_OnFrame True (last (nd_decoded d')) = Inl NullDeref"
proof -
  let ?d = "RegisterDecodeCompleteCallback True (NullDecoder \<lparr>sf_name = ''H264'', sf_params = []\<rparr>)"
  let ?img = "\<lparr>e_data = [1], e_type = KeyFrame, e_ntp_ms = 0, e_rtp = 0\<rparr>"
  obtain d' where "Decode ?img 5 ?d = Inr (d', codec_ok)" and "nd_decoded d' \<noteq> nd_decoded ?d"
    by (simp add: Decode_def RegisterDecodeCompleteCallback_def NullDecoder_def)
  from this(1) null_codec_frame_crashes_sink [OF this, of True] show ?thesis by (simp add: Let_def)
qed

end
