(* ===== verification/Media_Path.thy ===== *)
theory Media_Path
  imports Null_Codec Peer_Manager
begin

text \<open>
  What the manager and its sources give to WebRTC. The constructor of the manager makes two
  factories of peer connections, one with the codecs of WebRTC and one with the null codecs. Shown: a
  connection and the sources opened for it have codecs of the same kind, a camera gives back what it took,
  and the destructor of the manager gives one reference to the audio device module back too many.
\<close>

section \<open>Codec factories\<close>

text \<open>The factories of WebRTC, or those that make null codecs for every format they list.\<close>

datatype codec_factory = BuiltinCodecs | NullCodecs "sdp_format list"

definition CreateEncoderFactory :: "sdp_format list \<Rightarrow> bool \<Rightarrow> codec_factory" where
  "CreateEncoderFactory h264_codecs nullCodec =
     (if nullCodec then NullCodecs (supported_formats h264_codecs) else BuiltinCodecs)"

definition CreateDecoderFactory :: "sdp_format list \<Rightarrow> bool \<Rightarrow> codec_factory" where
  "CreateDecoderFactory h264_codecs nullCodec =
     (if nullCodec then NullCodecs (supported_formats h264_codecs) else BuiltinCodecs)"

definition encoder_factory_Create :: "sdp_format \<Rightarrow> null_encoder" where
  "encoder_factory_Create format = NullEncoder format"

text \<open>The parts of the null codecs that keep no state.\<close>

definition InitEncode :: "null_encoder \<Rightarrow> null_encoder \<times> int" where
  "InitEncode e = (e, codec_ok)"

definition encoder_Release :: "null_encoder \<Rightarrow> null_encoder \<times> int" where
  "encoder_Release e = (e, codec_ok)"

definition decoder_Release :: "null_decoder \<Rightarrow> null_decoder \<times> int" where
  "decoder_Release d = (d, codec_ok)"

record encoder_info =
  supports_native_handle :: bool
  has_trusted_rate_controller :: bool
  implementation_name :: string

definition GetEncoderInfo :: "null_encoder \<Rightarrow> encoder_info" where
  "GetEncoderInfo e =
     \<lparr>supports_native_handle = True, has_trusted_rate_controller = True, implementation_name = ''NullEncoder''\<rparr>"

section \<open>The constructor of the manager\<close>

datatype audio_module = DeviceModule | FakeModule

text \<open>\<open>init\<close>: the result of \<open>Init\<close> of the module that WebRTC creates, when it is built with sound.\<close>

definition createAudioModule :: "int option \<Rightarrow> audio_module" where
  "createAudioModule init =
     (case init of None \<Rightarrow> FakeModule | Some r \<Rightarrow> if r \<noteq> 0 then FakeModule else DeviceModule)"

record pc_factory =
  pf_encoders :: codec_factory
  pf_decoders :: codec_factory
  pf_adm :: audio_module

record media_setup =
  m_audioDeviceModule :: audio_module
  m_builtin_video_decoder_factory :: codec_factory
  m_null_video_decoder_factory :: codec_factory
  m_builtin_peer_connection_factory :: "pc_factory option"
  m_null_peer_connection_factory :: "pc_factory option"

text \<open>\<open>create\<close>: whether \<open>CreatePeerConnectionFactory\<close> gives an object for what it is handed.\<close>

definition media_constructor ::
  "int option \<Rightarrow> sdp_format list \<Rightarrow> (pc_factory \<Rightarrow> bool) \<Rightarrow> media_setup" where
  "media_constructor init h264_codecs create =
     (let audio = createAudioModule init;
          factory = (\<lambda>nullCodec. \<lparr>pf_encoders = CreateEncoderFactory h264_codecs nullCodec,
                                  pf_decoders = CreateDecoderFactory h264_codecs nullCodec, pf_adm = audio\<rparr>);
          created = (\<lambda>nullCodec. if create (factory nullCodec) then Some (factory nullCodec) else None)
      in \<lparr>m_audioDeviceModule = audio,
          m_builtin_video_decoder_factory = CreateDecoderFactory h264_codecs False,
          m_null_video_decoder_factory = CreateDecoderFactory h264_codecs True,
          m_builtin_peer_connection_factory = created False,
          m_null_peer_connection_factory = created True\<rparr>)"

text \<open>What the operations of the manager see of the factories.\<close>

definition with_media :: "media_setup \<Rightarrow> config \<Rightarrow> config" where
  "with_media M C = C\<lparr>builtin_factory := m_builtin_peer_connection_factory M \<noteq> None,
                      null_factory := m_null_peer_connection_factory M \<noteq> None\<rparr>"

text \<open>\<open>useNullCodec ? m_null_peer_connection_factory : m_builtin_peer_connection_factory\<close>, and the
  decoders that \<open>CreateVideoSource\<close> hands to the source.\<close>

definition connection_factory :: "media_setup \<Rightarrow> bool \<Rightarrow> pc_factory option" where
  "connection_factory M useNullCodec =
     (if useNullCodec then m_null_peer_connection_factory M else m_builtin_peer_connection_factory M)"

definition source_decoders :: "media_setup \<Rightarrow> bool \<Rightarrow> codec_factory" where
  "source_decoders M useNullCodec =
     (if useNullCodec then m_null_video_decoder_factory M else m_builtin_video_decoder_factory M)"

lemma media_agrees:
  assumes "M = media_constructor init h264_codecs create" and "connection_factory M n = Some F"
  shows "pf_decoders F = source_decoders M n" and "pf_encoders F = CreateEncoderFactory h264_codecs n"
    and "factory_of (with_media M C) n"
  using assms
  by (auto simp: media_constructor_def connection_factory_def source_decoders_def with_media_def factory_of_def Let_def
      split: if_splits)

section \<open>Sources as tracks\<close>

record track_source =
  m_capturer :: "video_source option"

definition TrackSource_Create :: "video_source option res \<Rightarrow> track_source option res" where
  "TrackSource_Create created =
     rbind created (\<lambda>capturer. Inr (case capturer of None \<Rightarrow> None | Some c \<Rightarrow> Some \<lparr>m_capturer = Some c\<rparr>))"

text \<open>\<open>width()\<close> and \<open>height()\<close>; a decoding source asks its scaler, given in its current state.\<close>

fun source_size :: "scaler \<Rightarrow> video_source \<Rightarrow> int \<times> int" where
  "source_size sc (LiveVideo c u opts s w n) = (m_roi_width sc, m_roi_height sc)"
| "source_size sc (RtmpVideo u s n) = (m_roi_width sc, m_roi_height sc)"
| "source_size sc (ScreenVideo d) = (d_width d, d_height d)"
| "source_size sc (WindowVideo d) = (d_width d, d_height d)"
| "source_size sc (V4l2Video dev fmt w h fps) = (w, h)"
| "source_size sc (VcmVideo dev w h fps) = (w, h)"

definition TrackSource_GetStats :: "scaler \<Rightarrow> track_source \<Rightarrow> (int \<times> int) option" where
  "TrackSource_GetStats sc t = (case m_capturer t of None \<Rightarrow> None | Some c \<Rightarrow> Some (source_size sc c))"

text \<open>\<open>kLive\<close>\<close>

definition TrackSource_state :: "track_source \<Rightarrow> int" where
  "TrackSource_state t = 1"

text \<open>A camera of the capture module, from \<open>Init\<close> to the destructor.\<close>

datatype vcm_call = RegisterCaptureDataCallback | StartCapture | StopCapture | DeRegisterCaptureDataCallback

record vcm =
  m_vcm :: bool \<comment> \<open>the pointer is not null\<close>
  vcm_calls :: "vcm_call list"

definition Destroy :: "vcm \<Rightarrow> vcm" where
  "Destroy v =
     (if m_vcm v then v\<lparr>m_vcm := False, vcm_calls := vcm_calls v @ [StopCapture, DeRegisterCaptureDataCallback]\<rparr>
      else v)"

text \<open>
  \<open>found\<close>: the index names a device; \<open>started\<close>: \<open>StartCapture\<close> returned 0; \<open>capturing\<close>: then
  \<open>CaptureStarted\<close> holds, or the program aborts. Without a device nothing is created.
\<close>

definition Init :: "bool \<Rightarrow> bool \<Rightarrow> bool \<Rightarrow> vcm \<Rightarrow> (bool \<times> vcm) res" where
  "Init found started capturing v =
     (if \<not> found then Inr (False, Destroy v)
      else
        let v1 = v\<lparr>m_vcm := True, vcm_calls := vcm_calls v @ [RegisterCaptureDataCallback, StartCapture]\<rparr>
        in if \<not> started then Inr (False, Destroy v1)
           else if \<not> capturing then Inl CheckFailed
           else Inr (True, v1))"

lemma vcm_released:
  "Init found started capturing \<lparr>m_vcm = False, vcm_calls = []\<rparr> = Inr (ok, v) \<Longrightarrow>
     \<not> m_vcm (Destroy v) \<and> Destroy (Destroy v) = Destroy v \<and>
     count_list (vcm_calls (Destroy v)) StopCapture = count_list (vcm_calls (Destroy v)) StartCapture \<and>
     (\<not> ok \<longrightarrow> Destroy v = v)"
  by (auto simp: Init_def Destroy_def Let_def split: if_splits)

section \<open>The destructor of the manager\<close>

text \<open>
  References to a counted module: one of the manager, those of its two factories that die with
  it, and those of factories that connections still keep alive. The destructor calls \<open>Release\<close>
  and then its members give their own references back, in the reverse order of their declaration.
\<close>

record module_refs =
  of_builtin :: nat
  of_null :: nat
  kept_alive :: nat

definition release_ref :: "nat \<Rightarrow> nat res" where
  "release_ref n = (if n = 0 then Inl UseAfterFree else Inr (n - 1))"

fun release_refs :: "nat \<Rightarrow> nat \<Rightarrow> nat res" where
  "release_refs 0 n = Inr n"
| "release_refs (Suc k) n = rbind (release_ref n) (release_refs k)"

definition manager_destructor :: "module_refs \<Rightarrow> nat res" where
  "manager_destructor R =
     rbind (release_ref (1 + of_builtin R + of_null R + kept_alive R)) (\<lambda>n1.
     rbind (release_refs (of_null R) n1) (\<lambda>n2.
     rbind (release_refs (of_builtin R) n2) release_ref))"

lemma release_refs_le: "k \<le> n \<Longrightarrow> release_refs k n = Inr (n - k)"
  by (induction k arbitrary: n) (auto simp: release_ref_def)

text \<open>
  The explicit \<open>Release\<close> in the destructor gives back a reference that \<open>scoped_refptr\<close> gives back
  again: without a connection that outlives the manager the last release follows a freed module,
  and otherwise the module is one reference short of its users.
\<close>

theorem destroying_manager_overreleases:
  "manager_destructor R = (if kept_alive R = 0 then Inl UseAfterFree else Inr (kept_alive R - 1))"
  by (simp add: manager_destructor_def release_ref_def release_refs_le)

end
