(* ===== verification/Capture_Threads.thy ===== *)
theory Capture_Threads
  imports Prelude
begin

text \<open>
  The capture threads of the sources: each of them loops on a flag and uses an object that the
  source owns (\<open>m_capture\<close>, \<open>m_rtmp\<close>, \<open>m_capturer\<close>), while the owner creates and destroys the
  source. A constructor and a destructor are the sequences of what they do to the flag, the
  thread and the object, interleaved with the turns of the loop. A check of these sequences is
  shown sound: a source that passes it never uses the object before it is there or after it is
  gone, and its destructor ends. V4L2 and RTMP sources pass it, desktop sources do not. The loop
  of the live sources belongs to the live555 environment and is not part of this theory.
\<close>

section \<open>Owner and thread\<close>

datatype action =
    SetFlag bool \<comment> \<open>the condition of the loop\<close>
  | Acquire bool \<comment> \<open>the object exists; ready for use or not\<close>
  | Begin \<comment> \<open>the object becomes ready\<close>
  | Spawn
  | Join
  | Release

datatype place = NotStarted | Testing | Working | Finished | Joined

record worker =
  loop_flag :: bool
  resource :: bool
  ready :: bool
  place_of :: place

definition init_worker :: worker where
  "init_worker = \<lparr>loop_flag = False, resource = False, ready = False, place_of = NotStarted\<rparr>"

definition joinable :: "worker \<Rightarrow> bool" where
  "joinable w \<longleftrightarrow> place_of w = Testing \<or> place_of w = Working \<or> place_of w = Finished"

text \<open>\<open>Inr None\<close>: the owner waits.\<close>

fun owner_action :: "action \<Rightarrow> worker \<Rightarrow> worker option res" where
  "owner_action (SetFlag b) w = Inr (Some (w\<lparr>loop_flag := b\<rparr>))"
| "owner_action (Acquire r) w = Inr (Some (w\<lparr>resource := True, ready := r\<rparr>))"
| "owner_action Begin w = (if resource w then Inr (Some (w\<lparr>ready := True\<rparr>)) else Inl NullDeref)"
| "owner_action Spawn w = (if joinable w then Inl Terminates else Inr (Some (w\<lparr>place_of := Testing\<rparr>)))"
| "owner_action Join w =
     (if \<not> joinable w then Inl Terminates
      else if place_of w = Finished then Inr (Some (w\<lparr>place_of := Joined\<rparr>)) else Inr None)"
| "owner_action Release w = Inr (Some (w\<lparr>resource := False, ready := False\<rparr>))"

text \<open>One turn of the loop: the test of the flag, then the body, which uses the object.\<close>

definition worker_step :: "worker \<Rightarrow> worker res" where
  "worker_step w =
     (case place_of w of
        Testing \<Rightarrow> Inr (w\<lparr>place_of := (if loop_flag w then Working else Finished)\<rparr>)
      | Working \<Rightarrow> if resource w \<and> ready w then Inr (w\<lparr>place_of := Testing\<rparr>) else Inl Undefined
      | _ \<Rightarrow> Inr w)"

type_synonym life = "action list \<times> worker"

inductive life_step :: "life \<Rightarrow> life \<Rightarrow> bool" where
  owner: "owner_action a w = Inr (Some w') \<Longrightarrow> life_step (a # as', w) (as', w')"
| thread: "worker_step w = Inr w' \<Longrightarrow> life_step (as', w) (as', w')"

definition life_failure :: "life \<Rightarrow> err \<Rightarrow> bool" where
  "life_failure l e \<longleftrightarrow>
     worker_step (snd l) = Inl e \<or> (\<exists>a as'. fst l = a # as' \<and> owner_action a (snd l) = Inl e)"

section \<open>A check of the sequences\<close>

datatype thread_view = NoThread | SomeThread | DoneThread

text \<open>What the owner knows: the flag, the object and the thread.\<close>

record owner_view =
  v_flag :: bool
  v_resource :: bool
  v_ready :: bool
  v_thread :: thread_view

fun disciplined :: "owner_view \<Rightarrow> action list \<Rightarrow> bool" where
  "disciplined v [] \<longleftrightarrow> v_thread v \<noteq> SomeThread \<and> \<not> v_resource v"
| "disciplined v (SetFlag b # as') \<longleftrightarrow> disciplined (v\<lparr>v_flag := b\<rparr>) as'"
| "disciplined v (Acquire r # as') \<longleftrightarrow> v_thread v = NoThread \<and> disciplined (v\<lparr>v_resource := True, v_ready := r\<rparr>) as'"
| "disciplined v (Begin # as') \<longleftrightarrow> v_resource v \<and> disciplined (v\<lparr>v_ready := True\<rparr>) as'"
| "disciplined v (Spawn # as') \<longleftrightarrow>
     v_thread v = NoThread \<and> v_resource v \<and> v_ready v \<and> disciplined (v\<lparr>v_thread := SomeThread\<rparr>) as'"
| "disciplined v (Join # as') \<longleftrightarrow> v_thread v = SomeThread \<and> \<not> v_flag v \<and> disciplined (v\<lparr>v_thread := DoneThread\<rparr>) as'"
| "disciplined v (Release # as') \<longleftrightarrow>
     v_thread v \<noteq> SomeThread \<and> disciplined (v\<lparr>v_resource := False, v_ready := False\<rparr>) as'"

definition init_view :: owner_view where
  "init_view = \<lparr>v_flag = False, v_resource = False, v_ready = False, v_thread = NoThread\<rparr>"

fun sees :: "thread_view \<Rightarrow> place \<Rightarrow> bool" where
  "sees NoThread p \<longleftrightarrow> p = NotStarted"
| "sees SomeThread p \<longleftrightarrow> p = Testing \<or> p = Working \<or> p = Finished"
| "sees DoneThread p \<longleftrightarrow> p = Joined"

definition life_ok :: "life \<Rightarrow> bool" where
  "life_ok l \<longleftrightarrow> (\<exists>v. disciplined v (fst l) \<and> v_flag v = loop_flag (snd l) \<and> v_resource v = resource (snd l) \<and>
     v_ready v = ready (snd l) \<and> sees (v_thread v) (place_of (snd l)) \<and>
     (v_thread v = SomeThread \<longrightarrow> v_resource v \<and> v_ready v))"

lemma worker_step_view:
  assumes "worker_step w = Inr w'"
  shows "loop_flag w' = loop_flag w \<and> resource w' = resource w \<and> ready w' = ready w \<and>
    (sees t (place_of w) \<longrightarrow> sees t (place_of w'))"
  using assms by (cases "place_of w"; cases t) (auto simp: worker_step_def split: if_splits)

lemma owner_step_ok:
  assumes "life_ok (a # as', w)" and "owner_action a w = Inr (Some w')"
  shows "life_ok (as', w')"
proof -
  from assms(1) obtain v where v: "disciplined v (a # as')" "v_flag v = loop_flag w" "v_resource v = resource w"
      "v_ready v = ready w" "sees (v_thread v) (place_of w)" "v_thread v = SomeThread \<longrightarrow> v_resource v \<and> v_ready v"
    by (auto simp: life_ok_def)
  show ?thesis
  proof (cases a)
    case (SetFlag b)
    with v assms(2) show ?thesis unfolding life_ok_def by (intro exI [of _ "v\<lparr>v_flag := b\<rparr>"]) auto
  next
    case (Acquire r)
    with v assms(2) show ?thesis
      unfolding life_ok_def by (intro exI [of _ "v\<lparr>v_resource := True, v_ready := r\<rparr>"]) auto
  next
    case Begin
    with v assms(2) show ?thesis unfolding life_ok_def by (intro exI [of _ "v\<lparr>v_ready := True\<rparr>"]) auto
  next
    case Spawn
    with v assms(2) show ?thesis
      unfolding life_ok_def by (intro exI [of _ "v\<lparr>v_thread := SomeThread\<rparr>"]) (auto split: if_splits)
  next
    case Join
    with v assms(2) show ?thesis
      unfolding life_ok_def by (intro exI [of _ "v\<lparr>v_thread := DoneThread\<rparr>"]) (auto split: if_splits)
  next
    case Release
    with v assms(2) show ?thesis
      unfolding life_ok_def by (intro exI [of _ "v\<lparr>v_resource := False, v_ready := False\<rparr>"]) auto
  qed
qed

interpretation life: step_invariant life_step life_ok
proof
  fix l l'
  assume ok: "life_ok l" and "life_step l l'"
  from this(2) show "life_ok l'"
  proof cases
    case (owner a w w' as')
    with ok show ?thesis using owner_step_ok by blast
  next
    case (thread w w' as')
    with ok worker_step_view [OF thread(3)] show ?thesis unfolding life_ok_def by fastforce
  qed
qed

lemma life_ok_safe: "life_ok l \<Longrightarrow> \<not> life_failure l e"
proof
  assume "life_ok l" and fail: "life_failure l e"
  then obtain v where v: "disciplined v (fst l)" "v_resource v = resource (snd l)" "v_ready v = ready (snd l)"
      "sees (v_thread v) (place_of (snd l))" "v_thread v = SomeThread \<longrightarrow> v_resource v \<and> v_ready v"
    by (auto simp: life_ok_def)
  have "worker_step (snd l) \<noteq> Inl e"
    using v by (cases "v_thread v") (auto simp: worker_step_def split: place.splits)
  moreover have "owner_action a (snd l) \<noteq> Inl e" if "fst l = a # as'" for a as'
    using v that by (cases a; cases "v_thread v") (auto simp: joinable_def)
  ultimately show False using fail by (auto simp: life_failure_def)
qed

text \<open>Once the flag is cleared the thread ends after two turns at most, so that \<open>join\<close> returns.\<close>

lemma life_ok_join:
  assumes "life_ok (Join # as', w)"
  shows "\<exists>w1 w2. worker_step w = Inr w1 \<and> worker_step w1 = Inr w2 \<and> owner_action Join w2 = Inr (Some (w2\<lparr>place_of := Joined\<rparr>))"
proof -
  have "\<not> loop_flag w" "resource w" "ready w" "sees SomeThread (place_of w)"
    using assms by (auto simp: life_ok_def)
  then show ?thesis by (cases "place_of w") (simp_all add: worker_step_def joinable_def)
qed

lemma life_ok_progress:
  assumes "life_ok (a # as', w)"
  shows "\<exists>w'. life_step\<^sup>*\<^sup>* (a # as', w) (as', w')"
proof (cases "a = Join")
  case True
  with assms obtain w1 w2 where "worker_step w = Inr w1" "worker_step w1 = Inr w2"
      "owner_action Join w2 = Inr (Some (w2\<lparr>place_of := Joined\<rparr>))"
    using life_ok_join by blast
  with True show ?thesis
    by (meson life_step.owner life_step.thread rtranclp.rtrancl_into_rtrancl rtranclp.rtrancl_refl)
next
  case False
  have "owner_action a w \<noteq> Inl e" for e
    using life_ok_safe [OF assms, of e] by (auto simp: life_failure_def)
  moreover have "owner_action a w \<noteq> Inr None" using False by (cases a) simp_all
  ultimately obtain w' where "owner_action a w = Inr (Some w')"
    by (metis not_None_eq sumE)
  then show ?thesis by (meson life_step.owner r_into_rtranclp)
qed

lemma life_ok_ends:
  assumes "life_ok (as', w)"
  shows "\<exists>w'. life_step\<^sup>*\<^sup>* (as', w) ([], w') \<and> \<not> joinable w' \<and> \<not> resource w'"
  using assms
proof (induction as' arbitrary: w)
  case Nil
  then show ?case
    by (intro exI [of _ w]) (auto simp: life_ok_def joinable_def elim: sees.elims)
next
  case (Cons a as')
  then obtain w1 where w1: "life_step\<^sup>*\<^sup>* (a # as', w) (as', w1)" using life_ok_progress by blast
  then have "life_ok (as', w1)" using life.steps_inv Cons.prems by blast
  from Cons.IH [OF this] w1 show ?case by (meson rtranclp_trans)
qed

section \<open>The sources\<close>

text \<open>A class whose constructor and destructor pass the check.\<close>

locale capture_class =
  fixes constructor destructor :: "action list"
  assumes sequence_ok: "disciplined init_view (constructor @ destructor)"
begin

lemma start_ok: "life_ok (constructor @ destructor, init_worker)"
  unfolding life_ok_def
  by (rule exI [of _ init_view]) (use sequence_ok in \<open>simp add: init_view_def init_worker_def\<close>)

lemma run_ok: "life_step\<^sup>*\<^sup>* (constructor @ destructor, init_worker) l \<Longrightarrow> life_ok l"
  using start_ok life.steps_inv by blast

lemma never_fails: "life_step\<^sup>*\<^sup>* (constructor @ destructor, init_worker) l \<Longrightarrow> \<not> life_failure l e"
  using run_ok life_ok_safe by blast

lemma ends:
  "life_step\<^sup>*\<^sup>* (constructor @ destructor, init_worker) l
    \<Longrightarrow> \<exists>w'. life_step\<^sup>*\<^sup>* l ([], w') \<and> \<not> joinable w' \<and> \<not> resource w'"
  using run_ok life_ok_ends by (cases l) blast

lemma join_returns:
  "life_step\<^sup>*\<^sup>* (constructor @ destructor, init_worker) (Join # as', w)
    \<Longrightarrow> \<exists>w1 w2. worker_step w = Inr w1 \<and> worker_step w1 = Inr w2 \<and> owner_action Join w2 = Inr (Some (w2\<lparr>place_of := Joined\<rparr>))"
  using run_ok life_ok_join by blast

end

text \<open>V4L2: \<open>opened\<close> says that \<open>V4l2Capture::create\<close> has returned a device.\<close>

definition V4l2Capturer_Init :: "bool \<Rightarrow> action list" where
  "V4l2Capturer_Init opened = SetFlag True # (if opened then [Acquire True, Spawn] else [])"

definition V4l2Capturer_Destroy :: "bool \<Rightarrow> action list" where
  "V4l2Capturer_Destroy opened = (if opened then [SetFlag False, Join, Release] else [])"

definition RtmpVideoSource_Start :: "action list" where
  "RtmpVideoSource_Start = [Spawn]"

definition RtmpVideoSource_Stop :: "action list" where
  "RtmpVideoSource_Stop = [SetFlag False, Join]"

definition RtmpVideoSource_new :: "action list" where
  "RtmpVideoSource_new = [SetFlag True, Acquire True] @ RtmpVideoSource_Start"

definition RtmpVideoSource_delete :: "action list" where
  "RtmpVideoSource_delete = RtmpVideoSource_Stop @ [Release]"

text \<open>
  Screens and windows: the constructor creates \<open>m_capturer\<close>, if the platform has one, and
  \<open>Start\<close> starts the thread before \<open>m_capturer->Start\<close>.
\<close>

definition desktop_new :: "bool \<Rightarrow> action list" where
  "desktop_new created = (if created then [Acquire False] else [])"

definition desktop_Start :: "action list" where
  "desktop_Start = [SetFlag True, Spawn, Begin]"

definition desktop_Stop :: "action list" where
  "desktop_Stop = [SetFlag False, Join]"

lemmas source_defs = V4l2Capturer_Init_def V4l2Capturer_Destroy_def RtmpVideoSource_Start_def RtmpVideoSource_Stop_def
  RtmpVideoSource_new_def RtmpVideoSource_delete_def desktop_new_def desktop_Start_def
  desktop_Stop_def

interpretation v4l2_source: capture_class "V4l2Capturer_Init opened" "V4l2Capturer_Destroy opened" for opened
  by unfold_locales (simp add: source_defs init_view_def)

interpretation rtmp_source: capture_class RtmpVideoSource_new RtmpVideoSource_delete
  by unfold_locales (simp add: source_defs init_view_def)

definition capture_classes :: "bool \<Rightarrow> (action list \<times> action list) list" where
  "capture_classes opened =
     [(V4l2Capturer_Init opened, V4l2Capturer_Destroy opened), (RtmpVideoSource_new, RtmpVideoSource_delete)]"

text \<open>
  C17. A V4L2 or RTMP source lives and dies safely under every interleaving with its capture thread:
  the thread never uses the device or the session outside its life, no thread is started twice
  or joined twice, \<open>join\<close> returns after two turns of the loop at most, and the destructor can be
  completed from every state, with the thread joined and the object released.
\<close>

theorem capture_threads_safe:
  assumes "(new, del) \<in> set (capture_classes opened)" and "life_step\<^sup>*\<^sup>* (new @ del, init_worker) (todo, w)"
  shows "(\<forall>e. \<not> life_failure (todo, w) e) \<and>
    (\<forall>rest. todo = Join # rest \<longrightarrow> (\<exists>w1 w2. worker_step w = Inr w1 \<and> worker_step w1 = Inr w2 \<and>
        owner_action Join w2 = Inr (Some (w2\<lparr>place_of := Joined\<rparr>)))) \<and>
    (\<exists>w'. life_step\<^sup>*\<^sup>* (todo, w) ([], w') \<and> \<not> joinable w' \<and> \<not> resource w')"
proof -
  have c: "capture_class new del"
    using assms(1) v4l2_source.capture_class_axioms rtmp_source.capture_class_axioms by (auto simp: capture_classes_def)
  show ?thesis
    using capture_class.never_fails [OF c assms(2)] capture_class.join_returns [OF c, of _ w] capture_class.ends [OF c assms(2)]
      assms(2) by blast
qed

theorem capture_threads_safe_witness:
  "let l = (V4l2Capturer_Init True @ V4l2Capturer_Destroy True, init_worker) in
   (\<forall>e. \<not> life_failure l e) \<and> (\<exists>w'. life_step\<^sup>*\<^sup>* l ([], w') \<and> \<not> joinable w' \<and> \<not> resource w')"
  using capture_threads_safe [of "V4l2Capturer_Init True" "V4l2Capturer_Destroy True" True
      "V4l2Capturer_Init True @ V4l2Capturer_Destroy True" init_worker]
  by (simp add: capture_classes_def)

text \<open>
  A desktop source starts its thread before the capturer: there is a run in which the thread
  calls \<open>CaptureFrame\<close> on a capturer whose \<open>Start\<close> has not been called. Without a capturer every
  run of \<open>Start\<close> that gets to its last statement follows a null pointer.
\<close>

definition desktop_life :: "bool \<Rightarrow> action list" where
  "desktop_life created = desktop_new created @ desktop_Start @ desktop_Stop @ [Release]"

definition no_object :: "life \<Rightarrow> bool" where
  "no_object l \<longleftrightarrow> (\<forall>r. Acquire r \<notin> set (fst l)) \<and> \<not> resource (snd l)"

interpretation no_object: step_invariant life_step no_object
proof
  fix l l'
  assume "no_object l" and "life_step l l'"
  from this(2,1) show "no_object l'"
  proof cases
    case (owner a w w' as')
    with \<open>no_object l\<close> show ?thesis by (cases a) (auto simp: no_object_def split: if_splits)
  next
    case (thread w w' as')
    with \<open>no_object l\<close> worker_step_view [OF thread(3)] show ?thesis by (simp add: no_object_def)
  qed
qed

lemma life_run_owner:
  "owner_action a w = Inr (Some w') \<Longrightarrow> life_step\<^sup>*\<^sup>* (as', w') l \<Longrightarrow> life_step\<^sup>*\<^sup>* (a # as', w) l"
  by (meson converse_rtranclp_into_rtranclp life_step.owner)

theorem desktop_thread_before_start:
  "let todo = Begin # desktop_Stop @ [Release] in
   (\<exists>w. life_step\<^sup>*\<^sup>* (desktop_life True, init_worker) (todo, w) \<and> life_failure (todo, w) Undefined) \<and>
   (\<forall>w. life_step\<^sup>*\<^sup>* (desktop_life False, init_worker) (todo, w) \<longrightarrow> life_failure (todo, w) NullDeref)"
  unfolding Let_def
proof (intro conjI allI impI)
  let ?todo = "Begin # desktop_Stop @ [Release]"
  let ?w = "\<lparr>loop_flag = True, resource = True, ready = False, place_of = Testing\<rparr>"
  have "life_step\<^sup>*\<^sup>* (desktop_life True, init_worker) (?todo, ?w)"
    unfolding desktop_life_def source_defs
    by (simp only: append.simps if_True)
      (rule rtranclp.rtrancl_refl | rule life_run_owner, simp add: init_worker_def joinable_def)+
  moreover have "life_step (?todo, ?w) (?todo, ?w\<lparr>place_of := Working\<rparr>)"
    by (rule life_step.thread) (simp add: worker_step_def)
  moreover have "life_failure (?todo, ?w\<lparr>place_of := Working\<rparr>) Undefined"
    by (simp add: life_failure_def worker_step_def)
  ultimately show "\<exists>w. life_step\<^sup>*\<^sup>* (desktop_life True, init_worker) (?todo, w) \<and> life_failure (?todo, w) Undefined"
    by (meson rtranclp.rtrancl_into_rtrancl)
next
  fix w
  assume "life_step\<^sup>*\<^sup>* (desktop_life False, init_worker) (Begin # desktop_Stop @ [Release], w)"
  moreover have "no_object (desktop_life False, init_worker)"
    by (simp add: no_object_def desktop_life_def source_defs init_worker_def)
  ultimately have "\<not> resource w" using no_object.steps_inv by (fastforce simp: no_object_def)
  then show "life_failure (Begin # desktop_Stop @ [Release], w) NullDeref" by (simp add: life_failure_def)
qed

theorem desktop_thread_before_start_witness:
  "\<exists>w. life_failure (Begin # desktop_Stop @ [Release], w) Undefined"
  using desktop_thread_before_start by (auto simp: Let_def)

end
