(* ===== verification/Live_Session.thy ===== *)
theory Live_Session
  imports Prelude
begin

text \<open>
  The client of a live source from the constructor to the destructor
  (\<open>inc/livevideosource.h\<close>, \<open>inc/rtspvideocapturer.h\<close>, \<open>src/rtspvideocapturer.cpp\<close>,
  \<open>src/rtpvideocapturer.cpp\<close>, \<open>inc/liveaudiosource.h\<close>): which calls the source makes on it. The
  client itself is code of live555helper: it reports failures in the thread of the main loop,
  whichever and whenever it wants. The callback that then runs is selected by the class that the
  object has at that time, which is the derived one only between the end of the constructor and
  the beginning of the destructor, although the thread runs before and after. Shown: what the
  thread calls on the client is what the reports of its failures ask for, for an RTSP video source one \<open>start\<close>
  for each of them while the object is complete; and the destructor ends with the thread joined.
\<close>

section \<open>Callbacks\<close>

datatype failure = ConnectionTimeout | DataTimeout | Error

datatype client_call = Start nat \<comment> \<open>the delay in seconds\<close> | StopClient

datatype live_class = RTSPVideo | RTPVideo | FileVideo | RTSPAudio | FileAudio

text \<open>
  The calls that an override makes on the client; \<open>None\<close>: the class does not override the
  callback. That of an RTP source only logs.
\<close>

fun overrides :: "live_class \<Rightarrow> failure \<Rightarrow> client_call list option" where
  "overrides RTSPVideo ConnectionTimeout = Some [Start 0]"
| "overrides RTSPVideo DataTimeout = Some [Start 0]"
| "overrides RTSPVideo Error = Some [Start 1]"
| "overrides RTPVideo Error = Some []"
| "overrides cl e = None"

text \<open>\<open>inherited\<close>: the callbacks of the library's class.\<close>

definition dispatch :: "(failure \<Rightarrow> client_call list) \<Rightarrow> live_class \<Rightarrow> bool \<Rightarrow> failure \<Rightarrow> client_call list" where
  "dispatch inherited cl complete e =
     (if complete then (case overrides cl e of None \<Rightarrow> inherited e | Some calls \<Rightarrow> calls) else inherited e)"

section \<open>Owner and main loop\<close>

datatype owner_action =
    CallClient client_call
  | SpawnThread \<comment> \<open>\<open>Start\<close>: \<open>CaptureThread\<close> runs \<open>m_env.mainloop()\<close>\<close>
  | EnterDerived \<comment> \<open>the constructor of the base class has returned\<close>
  | LeaveDerived \<comment> \<open>the destructor of the base class begins\<close>
  | EnvStop
  | JoinThread

text \<open>What happened, the oldest first.\<close>

datatype event = Did owner_action | Reported failure | Called client_call

datatype loop = NotRunning | Looping | LoopEnded | LoopJoined

text \<open>\<open>pending\<close>: what the running callback has still to call.\<close>

record live_source =
  complete :: bool
  loop_of :: loop
  m_stop :: bool
  pending :: "client_call list"
  events :: "event list"

definition no_source :: live_source where
  "no_source = \<lparr>complete = False, loop_of = NotRunning, m_stop = False, pending = [], events = []\<rparr>"

text \<open>\<open>LiveAudioSource\<close> does the same in its constructor and destructor.\<close>

definition LiveVideoSource_constructor :: "owner_action list" where
  "LiveVideoSource_constructor = [CallClient (Start 0), SpawnThread]"

definition LiveVideoSource_Stop :: "owner_action list" where
  "LiveVideoSource_Stop = [CallClient StopClient, EnvStop, JoinThread]"

text \<open>The derived classes add nothing to the constructor and the destructor.\<close>

definition whole_life :: "owner_action list" where
  "whole_life = LiveVideoSource_constructor @ [EnterDerived, LeaveDerived] @ LiveVideoSource_Stop"

text \<open>\<open>Inr None\<close>: the owner waits. Joining or assigning a thread in the wrong state terminates.\<close>

fun live_owner :: "owner_action \<Rightarrow> live_source \<Rightarrow> live_source option res" where
  "live_owner (CallClient c) s = Inr (Some s)"
| "live_owner SpawnThread s =
     (if loop_of s = NotRunning \<or> loop_of s = LoopJoined then Inr (Some (s\<lparr>loop_of := Looping\<rparr>)) else Inl Terminates)"
| "live_owner EnterDerived s = Inr (Some (s\<lparr>complete := True\<rparr>))"
| "live_owner LeaveDerived s = Inr (Some (s\<lparr>complete := False\<rparr>))"
| "live_owner EnvStop s = Inr (Some (s\<lparr>m_stop := True\<rparr>))"
| "live_owner JoinThread s =
     (case loop_of s of
        LoopEnded \<Rightarrow> Inr (Some (s\<lparr>loop_of := LoopJoined\<rparr>))
      | Looping \<Rightarrow> Inr None
      | _ \<Rightarrow> Inl Terminates)"

definition log_event :: "event \<Rightarrow> live_source \<Rightarrow> live_source" where
  "log_event e s = s\<lparr>events := events s @ [e]\<rparr>"

text \<open>
  The owner goes on; in the thread the client reports a failure, which selects the callback, the callback
  makes its next call, and between callbacks the main loop may return once the environment is stopped.
\<close>

inductive session_step ::
  "(failure \<Rightarrow> client_call list) \<Rightarrow> live_class \<Rightarrow> owner_action list \<times> live_source \<Rightarrow> owner_action list \<times> live_source \<Rightarrow> bool"
  for inherited cl where
  owner: "live_owner a s = Inr (Some s') \<Longrightarrow> session_step inherited cl (a # as', s) (as', log_event (Did a) s')"
| report: "loop_of s = Looping \<Longrightarrow> pending s = []
    \<Longrightarrow> session_step inherited cl (as', s)
      (as', log_event (Reported e) (s\<lparr>pending := dispatch inherited cl (complete s) e\<rparr>))"
| callback: "loop_of s = Looping \<Longrightarrow> pending s = c # cs
    \<Longrightarrow> session_step inherited cl (as', s) (as', log_event (Called c) (s\<lparr>pending := cs\<rparr>))"
| loop_ends: "loop_of s = Looping \<Longrightarrow> pending s = [] \<Longrightarrow> m_stop s
    \<Longrightarrow> session_step inherited cl (as', s) (as', s\<lparr>loop_of := LoopEnded\<rparr>)"

definition live_run ::
  "(failure \<Rightarrow> client_call list) \<Rightarrow> live_class \<Rightarrow> owner_action list \<times> live_source \<Rightarrow> bool" where
  "live_run inherited cl x \<longleftrightarrow> (session_step inherited cl)\<^sup>*\<^sup>* (whole_life, no_source) x"

section \<open>What the thread owes\<close>

text \<open>The calls of the thread, and the failures with whether they were reported to a complete object.\<close>

definition thread_calls :: "event list \<Rightarrow> client_call list" where
  "thread_calls es = concat (map (\<lambda>e. case e of Called c \<Rightarrow> [c] | _ \<Rightarrow> []) es)"

fun constructed :: "bool \<Rightarrow> event list \<Rightarrow> bool" where
  "constructed b [] = b"
| "constructed b (e # es) = constructed (if e = Did EnterDerived then True else if e = Did LeaveDerived then False else b) es"

fun reports :: "bool \<Rightarrow> event list \<Rightarrow> (bool \<times> failure) list" where
  "reports b [] = []"
| "reports b (Reported f # es) = (b, f) # reports b es"
| "reports b (e # es) = reports (constructed b [e]) es"

lemma constructed_snoc [simp]: "constructed b (es @ [e]) = constructed (constructed b es) [e]"
  by (induction es arbitrary: b) simp_all

lemma thread_calls_snoc [simp]:
  "thread_calls [] = []"
  "thread_calls (es @ [e]) = thread_calls es @ (case e of Called c \<Rightarrow> [c] | _ \<Rightarrow> [])"
  by (simp_all add: thread_calls_def)

lemma reports_snoc [simp]:
  "reports b (es @ [e]) = reports b es @ (case e of Reported f \<Rightarrow> [(constructed b es, f)] | _ \<Rightarrow> [])"
  by (induction b es rule: reports.induct) (auto split: event.split)

lemmas life_defs = whole_life_def LiveVideoSource_constructor_def LiveVideoSource_Stop_def

text \<open>The places of the owner, and what is there.\<close>

definition place_ok :: "owner_action list \<times> live_source \<Rightarrow> bool" where
  "place_ok x \<longleftrightarrow> (case x of (as', s) \<Rightarrow>
     (as' = whole_life \<or> as' = tl whole_life) \<and> loop_of s = NotRunning \<and> \<not> m_stop s \<or>
     as' \<in> {drop 2 whole_life, drop 3 whole_life, LiveVideoSource_Stop, [EnvStop, JoinThread]} \<and>
       loop_of s = Looping \<and> \<not> m_stop s \<or>
     as' = [JoinThread] \<and> loop_of s \<in> {Looping, LoopEnded} \<and> m_stop s \<or>
     as' = [] \<and> loop_of s = LoopJoined)"

definition session_ok ::
  "(failure \<Rightarrow> client_call list) \<Rightarrow> live_class \<Rightarrow> owner_action list \<times> live_source \<Rightarrow> bool" where
  "session_ok inherited cl x \<longleftrightarrow> place_ok x \<and>
     constructed False (events (snd x)) = complete (snd x) \<and>
     (pending (snd x) \<noteq> [] \<longrightarrow> loop_of (snd x) = Looping) \<and>
     thread_calls (events (snd x)) @ pending (snd x) =
       concat (map (\<lambda>(b, e). dispatch inherited cl b e) (reports False (events (snd x))))"

lemma log_event_simps [simp]:
  "complete (log_event e s) = complete s" "loop_of (log_event e s) = loop_of s" "m_stop (log_event e s) = m_stop s"
  "pending (log_event e s) = pending s" "events (log_event e s) = events s @ [e]"
  by (simp_all add: log_event_def)

lemma place_ok_owner:
  assumes "place_ok (a # as', s)" and "live_owner a s = Inr (Some s')"
  shows "place_ok (as', s')"
  using assms by (cases a; cases "loop_of s") (auto simp: place_ok_def life_defs)

lemma live_owner_keeps:
  assumes "live_owner a s = Inr (Some s')"
  shows "events s' = events s \<and> pending s' = pending s \<and> complete s' = constructed (complete s) [Did a] \<and>
    (loop_of s = Looping \<longrightarrow> loop_of s' = Looping)"
  using assms by (cases a; cases "loop_of s") auto

lemma session_ok_step:
  assumes "session_ok inherited cl x" and "session_step inherited cl x y"
  shows "session_ok inherited cl y"
  using assms(2)
proof cases
  case (owner a s s' as')
  then have "place_ok (as', log_event (Did a) s')"
    using assms(1) place_ok_owner [of a as' s s'] by (simp add: session_ok_def place_ok_def)
  with owner live_owner_keeps [OF owner(3)] assms(1) show ?thesis by (auto simp: session_ok_def)
next
  case (report s as' e)
  then show ?thesis using assms(1) by (auto simp: session_ok_def place_ok_def)
next
  case (callback s c cs as')
  then show ?thesis using assms(1) by (auto simp: session_ok_def place_ok_def)
next
  case (loop_ends s as')
  then show ?thesis using assms(1) by (auto simp: session_ok_def place_ok_def life_defs)
qed

interpretation live_life: step_invariant "session_step inherited cl" "session_ok inherited cl" for inherited cl
  by unfold_locales (rule session_ok_step)

lemma live_run_ok: "live_run inherited cl x \<Longrightarrow> session_ok inherited cl x"
proof -
  have "session_ok inherited cl (whole_life, no_source)"
    by (simp add: session_ok_def place_ok_def no_source_def)
  then show "live_run inherited cl x \<Longrightarrow> session_ok inherited cl x"
    unfolding live_run_def using live_life.steps_inv by blast
qed

text \<open>The loop can always finish its callback, and then returns if the environment is stopped.\<close>

lemma loop_can_end:
  assumes "loop_of s = Looping" and "m_stop s"
  shows "\<exists>s'. (session_step inherited cl)\<^sup>*\<^sup>* (as', s) (as', s') \<and> loop_of s' = LoopEnded"
  using assms
proof (induction "pending s" arbitrary: s)
  case Nil
  then have "session_step inherited cl (as', s) (as', s\<lparr>loop_of := LoopEnded\<rparr>)"
    by (intro session_step.loop_ends) simp_all
  then show ?case by (intro exI [of _ "s\<lparr>loop_of := LoopEnded\<rparr>"]) auto
next
  case (Cons c cs)
  then have step: "session_step inherited cl (as', s) (as', log_event (Called c) (s\<lparr>pending := cs\<rparr>))"
    by (intro session_step.callback) simp_all
  obtain s' where "(session_step inherited cl)\<^sup>*\<^sup>* (as', log_event (Called c) (s\<lparr>pending := cs\<rparr>)) (as', s') \<and>
      loop_of s' = LoopEnded"
    using Cons.hyps(1) [of "log_event (Called c) (s\<lparr>pending := cs\<rparr>)"] Cons.prems by auto
  with step show ?case by (blast intro: converse_rtranclp_into_rtranclp)
qed

lemma owner_can_go_on:
  assumes "place_ok (a # as', s)"
  shows "\<exists>s'. (session_step inherited cl)\<^sup>*\<^sup>* (a # as', s) (as', s')"
proof (cases "\<exists>s'. live_owner a s = Inr (Some s')")
  case True
  then show ?thesis by (blast intro: session_step.owner)
next
  case False
  with assms have "a = JoinThread \<and> loop_of s = Looping \<and> m_stop s"
    by (auto simp: place_ok_def life_defs split: loop.splits)
  then obtain s' where s': "(session_step inherited cl)\<^sup>*\<^sup>* (JoinThread # as', s) (JoinThread # as', s')"
      "loop_of s' = LoopEnded" and "a = JoinThread"
    using loop_can_end [of s inherited cl "JoinThread # as'"] by blast
  moreover have "session_step inherited cl (JoinThread # as', s') (as', log_event (Did JoinThread) (s'\<lparr>loop_of := LoopJoined\<rparr>))"
    by (rule session_step.owner) (simp add: s'(2))
  ultimately show ?thesis by (blast intro: rtranclp.rtrancl_into_rtrancl)
qed

lemma owner_never_fails: "place_ok (a # as', s) \<Longrightarrow> live_owner a s \<noteq> Inl e"
  by (auto simp: place_ok_def life_defs)

text \<open>
  C18. An RTSP video source answers every failure. Whatever failures the client reports and whenever, the
  thread calls on the client, in order, one \<open>start\<close> for each failure that is reported between the end of the
  constructor and the destructor, delayed by a second after an error, and what the library does
  by itself for the others; only the calls of the callback that is running may be missing. No action of the owner fails, and the source can be
  destroyed at any time: the join, the only action that waits, can always be finished.
\<close>

theorem rtsp_failures_restart:
  assumes "live_run inherited RTSPVideo (as', s)"
  shows "thread_calls (events s) @ pending s =
      concat (map (\<lambda>(complete, e). if complete then [Start (if e = Error then 1 else 0)] else inherited e)
        (reports False (events s))) \<and>
    (\<forall>a rest. as' = a # rest \<longrightarrow> (\<forall>e. live_owner a s \<noteq> Inl e) \<and>
       (\<exists>s'. (session_step inherited RTSPVideo)\<^sup>*\<^sup>* (as', s) (rest, s'))) \<and>
    (as' = [] \<longrightarrow> loop_of s = LoopJoined \<and> pending s = [])"
proof -
  have ok: "session_ok inherited RTSPVideo (as', s)" using live_run_ok [OF assms] .
  have "dispatch inherited RTSPVideo b e = (if b then [Start (if e = Error then 1 else 0)] else inherited e)" for b e
    by (cases e) (simp_all add: dispatch_def)
  with ok have "thread_calls (events s) @ pending s =
      concat (map (\<lambda>(complete, e). if complete then [Start (if e = Error then 1 else 0)] else inherited e)
        (reports False (events s)))"
    by (simp add: session_ok_def)
  moreover have "as' = [] \<longrightarrow> loop_of s = LoopJoined \<and> pending s = []"
    using ok by (auto simp: session_ok_def place_ok_def life_defs)
  moreover have "place_ok (as', s)" using ok by (simp add: session_ok_def)
  ultimately show ?thesis using owner_can_go_on owner_never_fails by blast
qed

text \<open>A run: two failures, one of them before the constructor has returned.\<close>

definition after_failures :: live_source where
  "after_failures = \<lparr>complete = True, loop_of = Looping, m_stop = False, pending = [],
     events = [Did (CallClient (Start 0)), Did SpawnThread, Reported ConnectionTimeout, Did EnterDerived,
       Reported DataTimeout, Called (Start 0)]\<rparr>"

lemma after_failures_run: "live_run (\<lambda>_. []) RTSPVideo (drop 3 whole_life, after_failures)"
proof -
  let ?s = "\<lambda>c l p es. \<lparr>complete = c, loop_of = l, m_stop = False, pending = p, events = es\<rparr>"
  let ?e = "[Did (CallClient (Start 0)), Did SpawnThread, Reported ConnectionTimeout, Did EnterDerived]"
  let ?step = "session_step (\<lambda>_. []) RTSPVideo"
  have "?step\<^sup>*\<^sup>* (whole_life, no_source) (drop 1 whole_life, ?s False NotRunning [] (take 1 ?e))"
    using session_step.owner [of "CallClient (Start 0)" no_source no_source]
    by (auto simp: life_defs no_source_def log_event_def)
  also have "?step \<dots> (drop 2 whole_life, ?s False Looping [] (take 2 ?e))"
    using session_step.owner [of SpawnThread "?s False NotRunning [] (take 1 ?e)" "?s False Looping [] (take 1 ?e)"]
    by (simp add: life_defs log_event_def)
  also have "?step \<dots> (drop 2 whole_life, ?s False Looping [] (take 3 ?e))"
    using session_step.report [of "?s False Looping [] (take 2 ?e)" "\<lambda>_. []" RTSPVideo _ ConnectionTimeout]
    by (simp add: log_event_def dispatch_def)
  also have "?step \<dots> (drop 3 whole_life, ?s True Looping [] ?e)"
    using session_step.owner [of EnterDerived "?s False Looping [] (take 3 ?e)" "?s True Looping [] (take 3 ?e)"]
    by (simp add: life_defs log_event_def)
  also have "?step \<dots> (drop 3 whole_life, ?s True Looping [Start 0] (?e @ [Reported DataTimeout]))"
    using session_step.report [of "?s True Looping [] ?e" "\<lambda>_. []" RTSPVideo _ DataTimeout]
    by (simp add: log_event_def dispatch_def)
  also have "?step \<dots> (drop 3 whole_life, after_failures)"
    using session_step.callback [of "?s True Looping [Start 0] (?e @ [Reported DataTimeout])" "Start 0" "[]" "\<lambda>_. []" RTSPVideo]
    by (simp add: log_event_def after_failures_def)
  finally show ?thesis unfolding live_run_def .
qed

theorem rtsp_failures_restart_witness:
  "thread_calls (events after_failures) = [Start 0] \<and>
   reports False (events after_failures) = [(False, ConnectionTimeout), (True, DataTimeout)] \<and>
   (\<exists>s'. (session_step (\<lambda>_. []) RTSPVideo)\<^sup>*\<^sup>* (drop 3 whole_life, after_failures) (LiveVideoSource_Stop, s'))"
proof -
  have "reports False (events after_failures) = [(False, ConnectionTimeout), (True, DataTimeout)]"
    by (simp add: after_failures_def)
  moreover have "drop 3 whole_life = LeaveDerived # LiveVideoSource_Stop" by (simp add: life_defs)
  moreover have "pending after_failures = []" by (simp add: after_failures_def)
  ultimately show ?thesis using rtsp_failures_restart [OF after_failures_run] by simp
qed

text \<open>
  In the same run the first failure is not answered: the thread runs before the class that
  overrides the callbacks is in effect, and a client whose library does nothing by itself is left as it is.
\<close>

theorem early_failure_unanswered:
  "\<exists>as' s. live_run (\<lambda>_. []) RTSPVideo (as', s) \<and> (False, ConnectionTimeout) \<in> set (reports False (events s)) \<and>
     thread_calls (take 4 (events s)) = [] \<and> complete s \<and> pending s = []"
  using after_failures_run
  by (intro exI [of _ "drop 3 whole_life"] exI [of _ after_failures]) (simp add: after_failures_def thread_calls_def)

text \<open>An RTP source never starts its client again after an error.\<close>

theorem rtp_error_is_final:
  assumes "live_run inherited RTPVideo (as', s)" and "\<forall>r \<in> set (reports False (events s)). r = (True, Error)"
  shows "thread_calls (events s) = [] \<and> pending s = []"
proof -
  have "thread_calls (events s) @ pending s =
      concat (map (\<lambda>(b, e). dispatch inherited RTPVideo b e) (reports False (events s)))"
    using live_run_ok [OF assms(1)] by (simp add: session_ok_def)
  also have "map (\<lambda>(b, e). dispatch inherited RTPVideo b e) (reports False (events s)) = map (\<lambda>_. []) (reports False (events s))"
    using assms(2) by (auto simp: dispatch_def)
  also have "concat \<dots> = []" by simp
  finally show ?thesis by simp
qed

theorem rtp_error_is_final_witness:
  "thread_calls (events no_source) = [] \<and> pending no_source = []"
  by (rule rtp_error_is_final [of "\<lambda>_. []" whole_life])
     (simp_all add: live_run_def no_source_def)

end
