(* ===== verification/Live_Audio.thy ===== *)
theory Live_Audio
  imports Video_Decoder
begin

text \<open>
  The audio source of live555 streams (\<open>inc/liveaudiosource.h\<close>): the sinks, the choice of the
  decoder when a session starts, and the data callback, which decodes a packet, keeps the
  samples in a queue and hands them to the sinks in segments of ten milliseconds. The decoder
  and its factory are the parameters in \<open>audio_env\<close>. The loop over the queue may run forever:
  it is a partial function, and \<open>None\<close> means that the callback does not return.
\<close>

section \<open>State\<close>

record 'dec audio_env =
  is_supported :: "string \<Rightarrow> int \<Rightarrow> int \<Rightarrow> (string, string) smap \<Rightarrow> bool"
  create_audio_decoder :: "string \<Rightarrow> int \<Rightarrow> int \<Rightarrow> (string, string) smap \<Rightarrow> 'dec option"
  packet_duration :: "'dec \<Rightarrow> bytes \<Rightarrow> int"
  audio_decode :: "'dec \<Rightarrow> bytes \<Rightarrow> int \<Rightarrow> int \<Rightarrow> 'dec \<times> 16 word list" \<comment> \<open>no samples for an error\<close>

record 'dec audio_source_state =
  a_decoder :: "'dec option"
  m_freq :: int
  m_channel :: int
  m_buffer :: "16 word list"
  m_sinks :: "nat list"
  a_codec :: "(string, string) smap"
  a_wait :: bool
  a_previmagets :: int
  a_prevts :: int

definition LiveAudioSource :: "bool \<Rightarrow> 'dec audio_source_state" where
  "LiveAudioSource wait =
     \<lparr>a_decoder = None, m_freq = 8000, m_channel = 1, m_buffer = [], m_sinks = [], a_codec = [],
      a_wait = wait, a_previmagets = 0, a_prevts = 0\<rparr>"

definition AddSink :: "nat \<Rightarrow> 'dec audio_source_state \<Rightarrow> 'dec audio_source_state" where
  "AddSink sink st = st\<lparr>m_sinks := m_sinks st @ [sink]\<rparr>"

definition RemoveSink :: "nat \<Rightarrow> 'dec audio_source_state \<Rightarrow> 'dec audio_source_state" where
  "RemoveSink sink st = st\<lparr>m_sinks := filter (\<lambda>s. s \<noteq> sink) (m_sinks st)\<rparr>"

section \<open>Sessions\<close>

definition audio_onNewSession ::
  "'dec audio_env \<Rightarrow> string \<Rightarrow> string \<Rightarrow> string \<Rightarrow> 32 word \<Rightarrow> 32 word \<Rightarrow> 'dec audio_source_state
     \<Rightarrow> bool \<times> 'dec audio_source_state" where
  "audio_onNewSession A ident media codec rtpfrequency channels st =
     (if media = ''audio'' then
        (let st1 = st\<lparr>m_freq := sint rtpfrequency, m_channel := sint channels\<rparr>;
             params = (if m_channel st1 = 2 then [(''stereo'', ''1'')] else [])
         in if is_supported A codec (m_freq st1) (m_channel st1) params
            then (True, st1\<lparr>a_decoder := create_audio_decoder A codec (m_freq st1) (m_channel st1) params,
                            a_codec := smap_assign ident codec (a_codec st1)\<rparr>)
            else (False, st1))
      else (False, st))"

section \<open>Data\<close>

text \<open>A call of \<open>sink->OnData\<close>: the sink, the samples, and the format.\<close>

record delivery =
  d_sink :: nat
  d_samples :: "16 word list"
  d_rate :: int
  d_channels :: int
  d_frames :: int

text \<open>
  The loop over the queue, with \<open>n\<close> samples in a segment: the segments taken and the samples
  that stay.
\<close>

partial_function (option) drain :: "nat \<Rightarrow> 16 word list \<Rightarrow> 16 word list list \<Rightarrow> (16 word list list \<times> 16 word list) option"
  where
  "drain n buf out =
     (if n < length buf then drain n (drop n buf) (out @ [take n buf]) else Some (out, buf))"

declare drain.simps [code]

text \<open>\<open>m_buffer.size() > segmentLength * m_channel\<close> compares as unsigned: a negative product is
  larger than any size.\<close>

definition drain_segments :: "int \<Rightarrow> 16 word list \<Rightarrow> (16 word list list \<times> 16 word list) option" where
  "drain_segments n buf = (if n < 0 then Some ([], buf) else drain (nat n) buf [])"

definition deliver :: "nat list \<Rightarrow> int \<Rightarrow> int \<Rightarrow> int \<Rightarrow> 16 word list list \<Rightarrow> delivery list" where
  "deliver sinks freq channel segmentLength segments =
     concat (map (\<lambda>s. map (\<lambda>k. \<lparr>d_sink = k, d_samples = s, d_rate = freq, d_channels = channel,
                                d_frames = segmentLength\<rparr>) sinks) segments)"

definition audio_delay :: "'dec audio_source_state \<Rightarrow> int \<Rightarrow> int \<Rightarrow> int res" where
  "audio_delay st sourcets ts =
     (if a_wait st \<and> a_prevts st \<noteq> 0 then
        rbind (cint64 (sourcets - a_previmagets st)) (\<lambda>periodSource.
        rbind (cint64 (ts - a_prevts st)) (\<lambda>periodDecode.
        rbind (cint64 (periodSource - periodDecode)) (\<lambda>delayms.
          Inr (if delayms > 0 \<and> delayms < 1000 then delayms else 0))))
      else Inr 0)"

text \<open>
  \<open>PacketDuration * m_channel * sizeof(int16_t)\<close>: the first product is an \<open>int\<close>, the second a
  \<open>size_t\<close>, and the result is an \<open>int\<close> again. A negative size throws in \<open>new\<close>.
\<close>

definition decoded_size :: "int \<Rightarrow> int \<Rightarrow> int res" where
  "decoded_size duration channel =
     rbind (cint (duration * channel)) (\<lambda>p.
     let size = sint (of_int (p * 2) :: 32 word) in if size < 0 then Inl BadArrayLength else Inr size)"

text \<open>The decoder writes into an array of \<open>size\<close> samples; more of them overrun it.\<close>

definition decode_packet ::
  "'dec audio_env \<Rightarrow> 'dec audio_source_state \<Rightarrow> 'dec \<Rightarrow> bytes \<Rightarrow> (16 word list \<times> 'dec audio_source_state) res" where
  "decode_packet A st dec buf =
     rbind (decoded_size (packet_duration A dec buf) (m_channel st)) (\<lambda>size.
     case audio_decode A dec buf (m_freq st) size of (dec', samples) \<Rightarrow>
       if size < int (length samples) then Inl OutOfBounds
       else Inr (samples, st\<lparr>a_decoder := Some dec', m_buffer := m_buffer st @ samples\<rparr>))"

text \<open>
  \<open>onData\<close>: \<open>ts\<close> and \<open>now\<close> are the clock before and after. The outer option is \<open>None\<close> when
  the loop does not end; the result is the sleep, the deliveries and the new state.
\<close>

definition audio_onData ::
  "'dec audio_env \<Rightarrow> 'dec audio_source_state \<Rightarrow> string \<Rightarrow> bytes \<Rightarrow> int \<Rightarrow> int \<Rightarrow> int \<Rightarrow> int
     \<Rightarrow> (bool \<times> int \<times> delivery list \<times> 'dec audio_source_state) res option" where
  "audio_onData A st ident buf tv_sec tv_usec ts now =
     (case map_of (a_codec st) ident of
        None \<Rightarrow> Some (Inr (False, 0, [], st))
      | Some _ \<Rightarrow>
          (case rbind (cdiv (m_freq st) 100) (\<lambda>segmentLength.
                rbind (cint64 (tv_sec * 1000)) (\<lambda>ms.
                rbind (cint64 (ms + to_ms tv_usec)) (\<lambda>sourcets.
                case a_decoder st of
                  None \<Rightarrow> Inr None
                | Some dec \<Rightarrow>
                    rbind (audio_delay st sourcets ts) (\<lambda>slept.
                    rbind (decode_packet A st dec buf) (\<lambda>(_, st1).
                    rbind (cint (segmentLength * m_channel st)) (\<lambda>n.
                      Inr (Some (segmentLength, sourcets, slept, n, st1)))))))) of
             Inl e \<Rightarrow> Some (Inl e)
           | Inr None \<Rightarrow> Some (Inr (False, 0, [], st))
           | Inr (Some (segmentLength, sourcets, slept, n, st1)) \<Rightarrow>
               (case drain_segments n (m_buffer st1) of
                  None \<Rightarrow> None
                | Some (segments, rest) \<Rightarrow>
                    Some (Inr (True, slept, deliver (m_sinks st) (m_freq st) (m_channel st) segmentLength segments,
                      st1\<lparr>m_buffer := rest, a_previmagets := sourcets, a_prevts := now\<rparr>)))))"

section \<open>The loop over the queue\<close>

lemma drain_ok:
  "0 < n \<Longrightarrow> \<exists>segs rest. drain n buf out = Some (out @ segs, rest) \<and> concat segs @ rest = buf \<and>
     (\<forall>s \<in> set segs. length s = n) \<and> length rest \<le> n"
proof (induction "length buf" arbitrary: buf out rule: less_induct)
  case less
  show ?case
  proof (cases "n < length buf")
    case True
    with less.prems have "length (drop n buf) < length buf" by simp
    from less.hyps [OF this less.prems, of "out @ [take n buf]"] obtain segs rest where
      "drain n (drop n buf) (out @ [take n buf]) = Some ((out @ [take n buf]) @ segs, rest)"
      "concat segs @ rest = drop n buf" "\<forall>s \<in> set segs. length s = n" "length rest \<le> n"
      by blast
    with True show ?thesis
      by (intro exI [of _ "take n buf # segs"] exI [of _ rest]) (simp add: drain.simps [of n buf out])
  next
    case False
    then show ?thesis by (simp add: drain.simps [of n buf out])
  qed
qed

lemma drain_Some_empty: "drain n buf out = Some r \<Longrightarrow> n = 0 \<longrightarrow> buf = []"
  by (erule drain.raw_induct [rotated]) (auto split: if_splits)

text \<open>
  The loop ends for every queue exactly when a segment has at least one sample; then the
  segments and what stays make up the queue.
\<close>

theorem drain_segments_ends:
  "(\<forall>buf. \<exists>segs rest. drain_segments n buf = Some (segs, rest)) \<longleftrightarrow> n \<noteq> 0"
proof
  assume *: "\<forall>buf. \<exists>segs rest. drain_segments n buf = Some (segs, rest)"
  show "n \<noteq> 0"
  proof
    assume "n = 0"
    with * [rule_format, of "[0]"] drain_Some_empty [of 0 "[0]" "[]"] show False
      by (auto simp: drain_segments_def)
  qed
next
  assume "n \<noteq> 0"
  then show "\<forall>buf. \<exists>segs rest. drain_segments n buf = Some (segs, rest)"
    using drain_ok [of "nat n" _ "[]"] by (cases "n < 0") (auto simp: drain_segments_def, metis append_Nil)
qed

section \<open>The stream of samples\<close>

text \<open>A packet with its time stamp and the clock before and after the call.\<close>

record packet =
  p_data :: bytes
  p_sec :: int
  p_usec :: int
  p_before :: int
  p_after :: int

fun audio_feed ::
  "'dec audio_env \<Rightarrow> string \<Rightarrow> packet list \<Rightarrow> 'dec audio_source_state \<Rightarrow> (delivery list \<times> 'dec audio_source_state) res option"
  where
  "audio_feed A ident [] st = Some (Inr ([], st))"
| "audio_feed A ident (p # ps) st =
     (case audio_onData A st ident (p_data p) (p_sec p) (p_usec p) (p_before p) (p_after p) of
        None \<Rightarrow> None
      | Some (Inl e) \<Rightarrow> Some (Inl e)
      | Some (Inr (_, _, ds, st1)) \<Rightarrow>
          map_option (map_sum id (\<lambda>(ds', st2). (ds @ ds', st2))) (audio_feed A ident ps st1))"

text \<open>The samples that the decoder gives for a sequence of packets.\<close>

fun decoded_samples :: "'dec audio_env \<Rightarrow> int \<Rightarrow> int \<Rightarrow> 'dec \<Rightarrow> bytes list \<Rightarrow> 16 word list" where
  "decoded_samples A freq channel dec [] = []"
| "decoded_samples A freq channel dec (b # bs) =
     (case audio_decode A dec b freq (2 * (packet_duration A dec b * channel)) of (dec', samples) \<Rightarrow>
        samples @ decoded_samples A freq channel dec' bs)"

definition segment_size :: "'dec audio_source_state \<Rightarrow> int" where
  "segment_size st = m_freq st div 100 * m_channel st"

text \<open>
  The contract of a decoder for a packet: it announces the duration, which is not negative and
  does not overflow, and gives no more samples than the array that is made for it can hold. It
  is required of the packets that are fed, in the states in which the decoder meets them.
\<close>

definition packet_fits :: "'dec audio_env \<Rightarrow> int \<Rightarrow> int \<Rightarrow> 'dec \<Rightarrow> bytes \<Rightarrow> bool" where
  "packet_fits A freq channel dec b \<longleftrightarrow>
     0 \<le> packet_duration A dec b * channel \<and> packet_duration A dec b * channel < 2 ^ 30 \<and>
     int (length (snd (audio_decode A dec b freq (2 * (packet_duration A dec b * channel)))))
       \<le> 2 * (packet_duration A dec b * channel)"

fun packets_fit :: "'dec audio_env \<Rightarrow> int \<Rightarrow> int \<Rightarrow> 'dec \<Rightarrow> bytes list \<Rightarrow> bool" where
  "packets_fit A freq channel dec [] \<longleftrightarrow> True"
| "packets_fit A freq channel dec (b # bs) \<longleftrightarrow> packet_fits A freq channel dec b \<and>
     packets_fit A freq channel (fst (audio_decode A dec b freq (2 * (packet_duration A dec b * channel)))) bs"

definition timed :: "packet \<Rightarrow> bool" where
  "timed p \<longleftrightarrow> 0 \<le> p_sec p \<and> p_sec p < 2 ^ 40 \<and> 0 \<le> p_usec p \<and> p_usec p < 1000000 \<and>
     0 \<le> p_before p \<and> p_before p < 2 ^ 60 \<and> 0 \<le> p_after p \<and> p_after p < 2 ^ 60"

definition playing :: "string \<Rightarrow> 'dec \<Rightarrow> 'dec audio_source_state \<Rightarrow> bool" where
  "playing ident dec st \<longleftrightarrow> a_decoder st = Some dec \<and> map_of (a_codec st) ident \<noteq> None \<and>
     100 \<le> m_freq st \<and> in_int (m_freq st) \<and> 1 \<le> m_channel st \<and> in_int (segment_size st) \<and>
     0 \<le> a_previmagets st \<and> a_previmagets st < 2 ^ 60 \<and> 0 \<le> a_prevts st \<and> a_prevts st < 2 ^ 60"

lemma decoded_size_ok: "packet_fits A f c dec b \<Longrightarrow> decoded_size (packet_duration A dec b) c = Inr (2 * (packet_duration A dec b * c))"
proof -
  assume "packet_fits A f c dec b"
  then have p: "0 \<le> packet_duration A dec b * c" "packet_duration A dec b * c < 2 ^ 30" by (simp_all add: packet_fits_def)
  then have "sint (of_int (packet_duration A dec b * c * 2) :: 32 word) = packet_duration A dec b * c * 2"
    unfolding sint_sbintrunc' by (intro signed_take_bit_int_eq_self) (simp_all add: mult.commute)
  with p show ?thesis by (simp add: decoded_size_def cint_def in_int_def int_min_def int_max_def mult.commute)
qed

lemma decode_packet_fits:
  assumes "packet_fits A (m_freq st) (m_channel st) dec b"
    and "audio_decode A dec b (m_freq st) (2 * (packet_duration A dec b * m_channel st)) = (dec', samples)"
  shows "decode_packet A st dec b = Inr (samples, st\<lparr>a_decoder := Some dec', m_buffer := m_buffer st @ samples\<rparr>)"
  using decoded_size_ok [OF assms(1)] assms by (simp add: decode_packet_def packet_fits_def)

lemma audio_delay_ok:
  assumes "playing ident dec st" and "0 \<le> t" "t < 2 ^ 60" "0 \<le> u" "u < 2 ^ 60"
  shows "\<exists>slept. audio_delay st t u = Inr slept"
  using assms by (auto simp: audio_delay_def playing_def cint64_def)

lemma audio_onData_playing:
  assumes "playing ident dec st" and "packet_fits A (m_freq st) (m_channel st) dec (p_data p)" and "timed p"
    and "audio_decode A dec (p_data p) (m_freq st) (2 * (packet_duration A dec (p_data p) * m_channel st)) = (dec', samples)"
  shows "\<exists>slept segs rest t. audio_onData A st ident (p_data p) (p_sec p) (p_usec p) (p_before p) (p_after p)
      = Some (Inr (True, slept, deliver (m_sinks st) (m_freq st) (m_channel st) (m_freq st div 100) segs,
           st\<lparr>a_decoder := Some dec', m_buffer := rest, a_previmagets := t, a_prevts := p_after p\<rparr>)) \<and>
    concat segs @ rest = m_buffer st @ samples \<and> (\<forall>s \<in> set segs. length s = nat (segment_size st)) \<and>
    length rest \<le> nat (segment_size st) \<and> 0 \<le> t \<and> t < 2 ^ 60"
proof -
  let ?t = "p_sec p * 1000 + to_ms (p_usec p)"
  have pl: "a_decoder st = Some dec" "100 \<le> m_freq st" "in_int (m_freq st)" "1 \<le> m_channel st" "in_int (segment_size st)"
    using assms(1) by (simp_all add: playing_def)
  obtain c where c: "map_of (a_codec st) ident = Some c" using assms(1) by (auto simp: playing_def)
  have seg: "cdiv (m_freq st) 100 = Inr (m_freq st div 100)" using pl by (intro cdiv_nonneg) simp_all
  have us: "0 \<le> to_ms (p_usec p)" "to_ms (p_usec p) < 1000" using assms(3) by (auto simp: timed_def to_ms_def sgn_if)
  then have t: "0 \<le> ?t" "?t < 2 ^ 60" "cint64 (p_sec p * 1000) = Inr (p_sec p * 1000)" "cint64 ?t = Inr ?t"
    using assms(3) by (auto simp: timed_def cint64_def)
  obtain slept where "audio_delay st ?t (p_before p) = Inr slept"
    using audio_delay_ok [OF assms(1) t(1,2)] assms(3) by (auto simp: timed_def)
  moreover have "decode_packet A st dec (p_data p) = Inr (samples, st\<lparr>a_decoder := Some dec', m_buffer := m_buffer st @ samples\<rparr>)"
    using decode_packet_fits [OF assms(2,4)] .
  moreover have "0 < segment_size st" using pl by (simp add: segment_size_def)
  then obtain segs rest where "drain_segments (segment_size st) (m_buffer st @ samples) = Some (segs, rest)"
    "concat segs @ rest = m_buffer st @ samples" "\<forall>s \<in> set segs. length s = nat (segment_size st)"
    "length rest \<le> nat (segment_size st)"
    using drain_ok [of "nat (segment_size st)" "m_buffer st @ samples" "[]"] by (auto simp: drain_segments_def)
  moreover have "cint (m_freq st div 100 * m_channel st) = Inr (segment_size st)" using pl(5) by (simp add: segment_size_def)
  ultimately show ?thesis
    using c t seg pl(1)
    by (intro exI [of _ slept] exI [of _ segs] exI [of _ rest] exI [of _ ?t]) (simp add: audio_onData_def cint_def)
qed

lemma deliver_to_sink:
  assumes "distinct sinks" and "k \<in> set sinks"
  shows "map d_samples (filter (\<lambda>d. d_sink d = k) (deliver sinks f c l segs)) = segs"
proof -
  have "filter (\<lambda>x. x = k) sinks = [k]" using assms by (induction sinks) (auto simp: filter_empty_conv)
  then show ?thesis by (induction segs) (simp_all add: deliver_def filter_map o_def)
qed

lemma deliver_samples: "d \<in> set (deliver sinks f c l segs) \<Longrightarrow> d_samples d \<in> set segs \<and> d_rate d = f \<and> d_channels d = c \<and> d_frames d = l"
  by (auto simp: deliver_def)

lemma playing_step:
  "playing ident dec st \<Longrightarrow> 0 \<le> t \<Longrightarrow> t < 2 ^ 60 \<Longrightarrow> 0 \<le> u \<Longrightarrow> u < 2 ^ 60 \<Longrightarrow>
   playing ident dec' (st\<lparr>a_decoder := Some dec', m_buffer := rest, a_previmagets := t, a_prevts := u\<rparr>)"
  by (simp add: playing_def segment_size_def)

lemma feed_playing:
  assumes "playing ident dec st" and "packets_fit A (m_freq st) (m_channel st) dec (map p_data ps)" and "\<forall>p \<in> set ps. timed p"
    and "distinct (m_sinks st)" and "k \<in> set (m_sinks st)" and "length (m_buffer st) \<le> nat (segment_size st)"
  shows "\<exists>ds st'. audio_feed A ident ps st = Some (Inr (ds, st')) \<and>
    concat (map d_samples (filter (\<lambda>d. d_sink d = k) ds)) @ m_buffer st'
      = m_buffer st @ decoded_samples A (m_freq st) (m_channel st) dec (map p_data ps) \<and>
    (\<forall>d \<in> set ds. length (d_samples d) = nat (segment_size st) \<and> d_rate d = m_freq st \<and>
       d_channels d = m_channel st \<and> d_frames d = m_freq st div 100) \<and>
    length (m_buffer st') \<le> nat (segment_size st)"
  using assms
proof (induction ps arbitrary: dec st)
  case Nil
  then show ?case by simp
next
  case (Cons p ps)
  obtain dec' samples where dec': "audio_decode A dec (p_data p) (m_freq st)
      (2 * (packet_duration A dec (p_data p) * m_channel st)) = (dec', samples)" by fastforce
  have tp: "timed p" using Cons.prems(3) by simp
  have fits: "packet_fits A (m_freq st) (m_channel st) dec (p_data p)" using Cons.prems(2) by simp
  from audio_onData_playing [OF Cons.prems(1) fits tp dec'] obtain slept segs rest t where
    step: "audio_onData A st ident (p_data p) (p_sec p) (p_usec p) (p_before p) (p_after p)
      = Some (Inr (True, slept, deliver (m_sinks st) (m_freq st) (m_channel st) (m_freq st div 100) segs,
           st\<lparr>a_decoder := Some dec', m_buffer := rest, a_previmagets := t, a_prevts := p_after p\<rparr>))" and
    segs: "concat segs @ rest = m_buffer st @ samples" "\<forall>s \<in> set segs. length s = nat (segment_size st)"
      "length rest \<le> nat (segment_size st)" "0 \<le> t" "t < 2 ^ 60"
    by blast
  let ?st = "st\<lparr>a_decoder := Some dec', m_buffer := rest, a_previmagets := t, a_prevts := p_after p\<rparr>"
  have same: "segment_size ?st = segment_size st" by (simp add: segment_size_def)
  have "playing ident dec' ?st" using playing_step [OF Cons.prems(1) segs(4,5)] tp by (simp add: timed_def)
  from Cons.IH [OF this] Cons.prems segs(3) obtain ds st' where IH: "audio_feed A ident ps ?st = Some (Inr (ds, st'))"
    "concat (map d_samples (filter (\<lambda>d. d_sink d = k) ds)) @ m_buffer st'
      = rest @ decoded_samples A (m_freq st) (m_channel st) dec' (map p_data ps)"
    "\<forall>d \<in> set ds. length (d_samples d) = nat (segment_size st) \<and> d_rate d = m_freq st \<and>
       d_channels d = m_channel st \<and> d_frames d = m_freq st div 100"
    "length (m_buffer st') \<le> nat (segment_size st)"
    using dec' by (auto simp: same)
  let ?d = "deliver (m_sinks st) (m_freq st) (m_channel st) (m_freq st div 100) segs"
  have "concat (map d_samples (filter (\<lambda>d. d_sink d = k) (?d @ ds))) @ m_buffer st'
      = m_buffer st @ decoded_samples A (m_freq st) (m_channel st) dec (map p_data (p # ps))"
    using IH(2) segs(1) dec' by (simp add: deliver_to_sink [OF Cons.prems(4,5)])
  moreover have "\<forall>d \<in> set (?d @ ds). length (d_samples d) = nat (segment_size st) \<and> d_rate d = m_freq st \<and>
      d_channels d = m_channel st \<and> d_frames d = m_freq st div 100"
    using IH(3) segs(2) deliver_samples by fastforce
  ultimately show ?case using step IH(1,4) by (intro exI [of _ "?d @ ds"] exI [of _ st']) simp
qed

text \<open>
  C13. While an audio session plays and its decoder keeps to its contract on the packets that
  arrive (it announces how long they are, and gives no more samples than fit the array that is
  made from that), every packet is processed to its end and every sink receives the decoded
  samples in order and without loss: what it got, followed by what is still in the
  queue, is what was decoded. It must play at 100 Hz at least. Each delivery is a segment of ten milliseconds of the announced
  format, and at most one segment stays behind.
\<close>

theorem audio_stream_preserved:
  assumes "playing ident dec st" and "packets_fit A (m_freq st) (m_channel st) dec (map p_data ps)" and "\<forall>p \<in> set ps. timed p"
    and "distinct (m_sinks st)" and "k \<in> set (m_sinks st)" and "m_buffer st = []"
  shows "\<exists>ds st'. audio_feed A ident ps st = Some (Inr (ds, st')) \<and>
    concat (map d_samples (filter (\<lambda>d. d_sink d = k) ds)) @ m_buffer st'
      = decoded_samples A (m_freq st) (m_channel st) dec (map p_data ps) \<and>
    (\<forall>d \<in> set ds. length (d_samples d) = nat (segment_size st) \<and> d_rate d = m_freq st \<and>
       d_channels d = m_channel st \<and> d_frames d = m_freq st div 100) \<and>
    length (m_buffer st') \<le> nat (segment_size st)"
  using feed_playing [OF assms(1-5)] assms(6) by simp

text \<open>A decoder that gives every byte as one sample.\<close>

definition demo_audio :: "unit audio_env" where
  "demo_audio =
     \<lparr>is_supported = (\<lambda>codec f c _. codec = ''PCMU'' \<and> f = 8000), create_audio_decoder = (\<lambda>_ _ _ _. Some ()),
      packet_duration = (\<lambda>_ b. int (length b)), audio_decode = (\<lambda>d b _ _. (d, map (\<lambda>x. of_nat (unat x)) b))\<rparr>"

definition demo_audio_state :: "unit audio_source_state" where
  "demo_audio_state = AddSink 3 (snd (audio_onNewSession demo_audio ''a'' ''audio'' ''PCMU'' 8000 1 (LiveAudioSource True)))"

definition demo_packet :: packet where
  "demo_packet = \<lparr>p_data = replicate 100 5, p_sec = 1, p_usec = 0, p_before = 10, p_after = 12\<rparr>"

theorem audio_stream_preserved_witness:
  "\<exists>ds st'. audio_feed demo_audio ''a'' [demo_packet, demo_packet] demo_audio_state = Some (Inr (ds, st')) \<and>
    concat (map d_samples (filter (\<lambda>d. d_sink d = 3) ds)) @ m_buffer st'
      = decoded_samples demo_audio 8000 1 () (map p_data [demo_packet, demo_packet]) \<and>
    (\<forall>d \<in> set ds. length (d_samples d) = 80 \<and> d_rate d = 8000 \<and> d_channels d = 1 \<and> d_frames d = 80) \<and>
    length (m_buffer st') \<le> 80"
proof -
  have v: "m_freq demo_audio_state = 8000" "m_channel demo_audio_state = 1" "segment_size demo_audio_state = 80"
    by code_simp+
  have "playing ''a'' () demo_audio_state" "\<forall>p \<in> set [demo_packet, demo_packet]. timed p"
    "distinct (m_sinks demo_audio_state)" "3 \<in> set (m_sinks demo_audio_state)" "m_buffer demo_audio_state = []"
    by code_simp+
  moreover have "packets_fit demo_audio (m_freq demo_audio_state) (m_channel demo_audio_state) () (map p_data [demo_packet, demo_packet])"
    by code_simp
  ultimately show ?thesis
    using audio_stream_preserved [of "''a''" "()" demo_audio_state demo_audio "[demo_packet, demo_packet]" 3] by (simp add: v)
qed

text \<open>
  A decoder that does not announce durations, as it may by the interface of WebRTC, makes the
  size of the array negative, which throws; one that gives more samples than announced
  overruns it.
\<close>

lemma decode_packet_refuses:
  "packet_duration A dec b = - 1 \<Longrightarrow> m_channel st = 1 \<Longrightarrow> decode_packet A st dec b = Inl BadArrayLength"
  "decoded_size (packet_duration A dec b) (m_channel st) = Inr n \<Longrightarrow>
   n < int (length (snd (audio_decode A dec b (m_freq st) n))) \<Longrightarrow> decode_packet A st dec b = Inl OutOfBounds"
  by (simp add: decode_packet_def decoded_size_def cint_def in_int_def int_min_def int_max_def Let_def)
     (auto simp: decode_packet_def split: prod.splits)

text \<open>
  A second session whose format is refused still overwrites the frequency. When it announces
  less than 100 Hz, the next data of the session that plays never returns.
\<close>

theorem refused_session_blocks_audio:
  assumes "playing ident dec st" and "packet_fits A (sint rtpfrequency) (sint channels) dec (p_data p)" and "timed p" and "in_int (sint channels)"
    and "\<not> is_supported A codec (sint rtpfrequency) (sint channels)
           (if sint channels = 2 then [(''stereo'', ''1'')] else [])"
    and "0 \<le> sint rtpfrequency" and "sint rtpfrequency < 100"
    and "snd (audio_decode A dec (p_data p) (sint rtpfrequency)
           (2 * (packet_duration A dec (p_data p) * sint channels))) \<noteq> []"
  shows "\<exists>st'. audio_onNewSession A other ''audio'' codec rtpfrequency channels st = (False, st') \<and>
           audio_onData A st' ident (p_data p) (p_sec p) (p_usec p) (p_before p) (p_after p) = None"
proof -
  let ?st = "st\<lparr>m_freq := sint rtpfrequency, m_channel := sint channels\<rparr>"
  have s: "audio_onNewSession A other ''audio'' codec rtpfrequency channels st = (False, ?st)"
    using assms(5) by (simp add: audio_onNewSession_def Let_def)
  obtain dec' samples where d: "audio_decode A dec (p_data p) (sint rtpfrequency)
      (2 * (packet_duration A dec (p_data p) * sint channels)) = (dec', samples)" by fastforce
  then have ne: "samples \<noteq> []" using assms(8) by simp
  have pl: "a_decoder st = Some dec" using assms(1) by (simp add: playing_def)
  obtain c where c: "map_of (a_codec st) ident = Some c" using assms(1) by (auto simp: playing_def)
  have seg: "cdiv (sint rtpfrequency) 100 = Inr 0"
    using assms(6,7) by (simp add: cdiv_def sgn_if cint_def in_int_def int_min_def int_max_def)
  have us: "0 \<le> to_ms (p_usec p)" "to_ms (p_usec p) < 1000" using assms(3) by (auto simp: timed_def to_ms_def sgn_if)
  let ?t = "p_sec p * 1000 + to_ms (p_usec p)"
  from us have t: "0 \<le> ?t" "?t < 2 ^ 60" "cint64 (p_sec p * 1000) = Inr (p_sec p * 1000)" "cint64 ?t = Inr ?t"
    using assms(3) by (auto simp: timed_def cint64_def)
  have "audio_delay ?st ?t (p_before p) = audio_delay st ?t (p_before p)" by (simp add: audio_delay_def)
  then obtain slept where "audio_delay ?st ?t (p_before p) = Inr slept"
    using audio_delay_ok [OF assms(1) t(1,2)] assms(3) by (auto simp: timed_def)
  moreover have "decode_packet A ?st dec (p_data p)
      = Inr (samples, ?st\<lparr>a_decoder := Some dec', m_buffer := m_buffer st @ samples\<rparr>)"
    using decode_packet_fits [of A ?st dec "p_data p" dec' samples] d assms(2) by simp
  moreover have "drain_segments 0 (m_buffer st @ samples) = None"
    using ne drain_Some_empty [of 0 "m_buffer st @ samples" "[]"]
    by (cases "drain 0 (m_buffer st @ samples) []") (auto simp: drain_segments_def)
  ultimately have "audio_onData A ?st ident (p_data p) (p_sec p) (p_usec p) (p_before p) (p_after p) = None"
    using c t seg pl by (simp add: audio_onData_def cint_def in_int_def int_min_def int_max_def)
  with s show ?thesis by blast
qed

theorem refused_session_blocks_audio_witness:
  "\<exists>st'. audio_onNewSession demo_audio ''b'' ''audio'' ''X'' 50 1 demo_audio_state = (False, st') \<and>
     audio_onData demo_audio st' ''a'' (p_data demo_packet) (p_sec demo_packet) (p_usec demo_packet)
       (p_before demo_packet) (p_after demo_packet) = None"
proof (rule refused_session_blocks_audio)
  show "playing ''a'' () demo_audio_state" "timed demo_packet" "in_int (sint (1 :: 32 word))" by code_simp+
  show "packet_fits demo_audio (sint (50 :: 32 word)) (sint (1 :: 32 word)) () (p_data demo_packet)" by code_simp
qed (simp_all add: demo_audio_def demo_packet_def)

end
