(* ===== verification/Rtmp_Video.thy ===== *)
theory Rtmp_Video
  imports Live_Video
begin

text \<open>
  The RTMP source (\<open>inc/rtmpvideosource.h\<close>): the packets of librtmp are taken apart into the
  configuration and the frames of H264 and H265, and posted to the decoder. \<open>packet.m_body\<close>
  is an array of \<open>char\<close>, whose sign depends on the platform: it is the parameter \<open>sc\<close>. A
  span that reaches outside the packet is an error even when the parser would stop before.
\<close>

section \<open>Reading the packet\<close>

definition char_val :: "bool \<Rightarrow> 8 word \<Rightarrow> int" where
  "char_val sc b = (if sc then sint b else uint b)"

definition byte_int :: "bytes \<Rightarrow> int \<Rightarrow> 8 word res" where
  "byte_int body i = (if 0 \<le> i then byte_at body (nat i) else Inl OutOfBounds)"

text \<open>\<open>(body[i]<<8) + body[i+1]\<close>\<close>

definition size_field :: "bool \<Rightarrow> bytes \<Rightarrow> int \<Rightarrow> int res" where
  "size_field sc body i =
     rbind (byte_int body i) (\<lambda>hi.
     rbind (byte_int body (i + 1)) (\<lambda>lo. Inr (char_val sc hi * 256 + char_val sc lo)))"

text \<open>The bytes from \<open>&body[i]\<close>, \<open>n\<close> of them; a negative count has no meaning.\<close>

definition slice_int :: "bytes \<Rightarrow> int \<Rightarrow> int \<Rightarrow> bytes res" where
  "slice_int body i n =
     (if n < 0 then Inl Undefined else if i < 0 then Inl OutOfBounds else slice body (nat i) (nat (i + n)))"

section \<open>Packets\<close>

record rtmp =
  r_cfg :: bytes \<comment> \<open>\<open>m_cfg\<close>\<close>
  r_stop :: bool \<comment> \<open>\<open>m_stop\<close>\<close>

definition CODEC_ID_AVC :: "8 word" where "CODEC_ID_AVC = 7"
definition CODEC_ID_HEVC :: "8 word" where "CODEC_ID_HEVC = 12"

text \<open>The AVC sequence header: SPS and PPS.\<close>

definition avc_config :: "live_env \<Rightarrow> bytes \<Rightarrow> bool \<Rightarrow> rtmp \<Rightarrow> bytes \<Rightarrow> (frame list \<times> rtmp) res" where
  "avc_config L mk sc st body =
     (let start_sps = 11 in
      rbind (size_field sc body start_sps) (\<lambda>spssize.
      rbind (byte_int body (start_sps + 2)) (\<lambda>t.
      if h264_type L t = H264Sps then
        rbind (slice_int body (start_sps + 3) spssize) (\<lambda>spsBuffer.
        case h264_sps L spsBuffer of
          None \<Rightarrow> Inr ([], st\<lparr>r_cfg := []\<rparr>)
        | Some (w, h) \<Rightarrow>
            rbind (slice_int body (start_sps + 2) (spssize + 1)) (\<lambda>sps.
            let start_pps = start_sps + spssize + 3 in
            rbind (size_field sc body start_pps) (\<lambda>ppssize.
            rbind (byte_int body (start_pps + 2)) (\<lambda>_.
            rbind (slice_int body (start_pps + 2) (ppssize + 1)) (\<lambda>pps.
              Inr ([Format ''H264'' w h], st\<lparr>r_cfg := mk @ sps @ mk @ pps\<rparr>))))))
      else Inr ([], st))))"

text \<open>A key frame is preceded by the configuration, a delta frame is not.\<close>

definition key_packet :: "bytes \<Rightarrow> rtmp \<Rightarrow> bytes \<Rightarrow> 64 word \<Rightarrow> (frame list \<times> rtmp) res" where
  "key_packet mk st body ts =
     rbind (byte_int body 9) (\<lambda>_.
     rbind (slice_int body 9 (int (length body) - 9)) (\<lambda>nalu.
       Inr ([Encoded (r_cfg st @ mk @ nalu) ts KeyFrame], st)))"

definition delta_packet :: "bytes \<Rightarrow> rtmp \<Rightarrow> bytes \<Rightarrow> 64 word \<Rightarrow> (frame list \<times> rtmp) res" where
  "delta_packet mk st body ts =
     rbind (byte_int body 9) (\<lambda>_.
     rbind (slice_int body 9 (int (length body) - 9)) (\<lambda>nalu.
       Inr ([Encoded (mk @ nalu) ts DeltaFrame], st)))"

text \<open>The HEVC sequence header: VPS, SPS and PPS.\<close>

definition hevc_config :: "live_env \<Rightarrow> bytes \<Rightarrow> bool \<Rightarrow> rtmp \<Rightarrow> bytes \<Rightarrow> (frame list \<times> rtmp) res" where
  "hevc_config L mk sc st body =
     (let start_vps = 31 in
      rbind (size_field sc body start_vps) (\<lambda>vpssize.
      rbind (byte_int body (start_vps + 2)) (\<lambda>t.
      if h265_type L t = H265Vps then
        rbind (slice_int body (start_vps + 2) (vpssize + 1)) (\<lambda>vps.
        let start_sps = start_vps + vpssize + 3 + 2 in
        rbind (size_field sc body start_sps) (\<lambda>spssize.
        rbind (byte_int body (start_sps + 2)) (\<lambda>t2.
        if h265_type L t2 = H265Sps then
          rbind (slice_int body (start_sps + 3) spssize) (\<lambda>spsBuffer.
          rbind (slice_int body (start_sps + 2) (spssize + 1)) (\<lambda>sps.
          let posts = (case h265_sps L spsBuffer of
                         None \<Rightarrow> [] | Some (w, h) \<Rightarrow> [Format ''H265'' w h]);
              start_pps = start_sps + spssize + 3 + 2
          in rbind (size_field sc body start_pps) (\<lambda>ppssize.
             rbind (byte_int body (start_pps + 2)) (\<lambda>_.
             rbind (slice_int body (start_pps + 2) (ppssize + 1)) (\<lambda>pps.
               Inr (posts, st\<lparr>r_cfg := mk @ vps @ mk @ sps @ mk @ pps\<rparr>))))))
        else Inr ([], st\<lparr>r_cfg := mk @ vps\<rparr>))))
      else Inr ([], st))))"

unbundle bit_operations_syntax

definition processVideoPacket ::
  "live_env \<Rightarrow> bytes \<Rightarrow> bool \<Rightarrow> rtmp \<Rightarrow> bytes \<Rightarrow> 64 word \<Rightarrow> (frame list \<times> rtmp) res" where
  "processVideoPacket L mk sc st body ts =
     rbind (byte_at body 0) (\<lambda>b.
     let frameType = drop_bit 4 b; codecId = b AND 0x0F in
     if codecId = CODEC_ID_AVC \<or> codecId = CODEC_ID_HEVC then
       (let config = (if codecId = CODEC_ID_AVC then avc_config else hevc_config) in
        if frameType = 1 then
          rbind (byte_at body 1) (\<lambda>t.
            if t = 0 then config L mk sc st body
            else if t = 1 then key_packet mk st body ts
            else Inr ([], st))
        else if frameType = 2 then delta_packet mk st body ts
        else Inr ([], st))
     else Inr ([], st))"

text \<open>
  The capture thread: one outcome of librtmp per turn of the loop, until \<open>m_stop\<close> is seen
  (the flag at the start of each turn is part of the outcome). \<open>RTMPPacket_Free\<close> reads the body
  pointer of a packet that was never initialised, which \<open>RTMP_ReadPacket\<close> has not set when it
  fails at the first byte (\<open>ReadFailed False\<close>).
\<close>

datatype turn = Disconnected | ReadFailed bool | Packet bool bytes "64 word" \<comment> \<open>video, body, time\<close>

fun CaptureThread :: "live_env \<Rightarrow> bytes \<Rightarrow> bool \<Rightarrow> (bool \<times> turn) list \<Rightarrow> rtmp \<Rightarrow> (frame list \<times> rtmp) res" where
  "CaptureThread L mk sc [] st = Inr ([], st)"
| "CaptureThread L mk sc ((stop, t) # ts) st =
     (if stop then Inr ([], st\<lparr>r_stop := True\<rparr>)
      else
        rbind (case t of
                 Packet video body now \<Rightarrow> if video then processVideoPacket L mk sc st body now else Inr ([], st)
               | Disconnected \<Rightarrow> Inr ([], st)
               | ReadFailed filled \<Rightarrow> if filled then Inr ([], st) else Inl Undefined) (\<lambda>(fs, st1).
        rbind (CaptureThread L mk sc ts st1) (\<lambda>(fs', st2). Inr (fs @ fs', st2))))"

section \<open>Sequence headers\<close>

text \<open>
  An AVC sequence header as an encoder sends it: five bytes of the tag, six of the decoder
  configuration record, the SPS with its size, the number of PPS, the PPS with its size, and
  whatever follows.
\<close>

definition size_bytes :: "nat \<Rightarrow> bytes" where
  "size_bytes n = [of_nat (n div 256), of_nat (n mod 256)]"

definition avc_header :: "bytes \<Rightarrow> bytes \<Rightarrow> 8 word \<Rightarrow> bytes \<Rightarrow> bytes \<Rightarrow> bytes" where
  "avc_header tag sps count pps tail = tag @ size_bytes (length sps) @ sps @ [count] @ size_bytes (length pps) @ pps @ tail"

text \<open>Sizes that both kinds of \<open>char\<close> read correctly.\<close>

definition small :: "bool \<Rightarrow> nat \<Rightarrow> bool" where
  "small sc n \<longleftrightarrow> 0 < n \<and> (if sc then n mod 256 < 128 \<and> n < 128 * 256 else n < 256 * 256)"

lemma size_field_bytes:
  assumes "small sc n" and "length pre = i"
  shows "size_field sc (pre @ size_bytes n @ post) (int i) = Inr (int n)"
proof -
  have "char_val sc (of_nat (n div 256)) = int (n div 256)" "char_val sc (of_nat (n mod 256)) = int (n mod 256)"
    using assms(1) by (auto simp: small_def char_val_def unsigned_of_nat take_bit_nat_eq_self sint_uint
        signed_take_bit_int_eq_self uint_nat take_bit_int_eq_self split: if_splits)
  then have "char_val sc (of_nat (n div 256)) * 256 + char_val sc (of_nat (n mod 256)) = int n"
    by (metis div_mult_mod_eq of_nat_add of_nat_mult of_nat_numeral)
  then show ?thesis
    using assms(2) by (simp add: size_field_def byte_int_def byte_at_def size_bytes_def nth_append nat_add_distrib)
qed

lemma slice_append:
  assumes "length pre = i"
  shows "slice (pre @ mid @ post) i (i + length mid) = Inr mid"
  using assms by (simp add: slice_def)

lemma slice_int_append:
  assumes "int (length pre) = i" and "int (length mid) = n"
  shows "slice_int (pre @ mid @ post) i n = Inr mid"
  using slice_append [of pre "length pre" mid post] assms by (auto simp: slice_int_def nat_add_distrib)

lemma byte_int_append: "int (length pre) = i \<Longrightarrow> byte_int (pre @ b # post) i = Inr b"
  by (auto simp: byte_int_def byte_at_def)

text \<open>The header up to the PPS, whatever its end.\<close>

lemma avc_config_header:
  assumes "length tag = 11" and "small sc (length sps)" and "small sc (length pps)"
    and "h264_type L (hd sps) = H264Sps" and "h264_sps L (tl sps @ [count]) = Some (w, h)"
  shows "avc_config L mk sc st (avc_header tag sps count pps tail) =
    rbind (slice_int (avc_header tag sps count pps tail) (int (length sps) + 16) (int (length pps) + 1)) (\<lambda>p.
      Inr ([Format ''H264'' w h], st\<lparr>r_cfg := mk @ sps @ [count] @ mk @ p\<rparr>))"
proof -
  obtain s0 ss where sps: "sps = s0 # ss" using assms(2) by (cases sps) (auto simp: small_def)
  obtain p0 ps where pps: "pps = p0 # ps" using assms(3) by (cases pps) (auto simp: small_def)
  let ?b = "avc_header tag sps count pps tail" and ?n = "int (length sps)"
  let ?sz = "size_bytes (length sps)" and ?pz = "size_bytes (length pps)"
  have z: "length (size_bytes k) = 2" for k by (simp add: size_bytes_def)
  have "size_field sc ?b 11 = Inr ?n"
    using size_field_bytes [OF assms(2,1), of "sps @ [count] @ ?pz @ pps @ tail"] by (simp add: avc_header_def)
  moreover have "byte_int ?b 13 = Inr s0"
    using byte_int_append [of "tag @ ?sz" 13 s0] assms(1) by (simp add: avc_header_def sps z)
  moreover have "slice_int ?b 14 ?n = Inr (ss @ [count])"
    using slice_int_append [of "tag @ ?sz @ [s0]" 14 "ss @ [count]" ?n "?pz @ pps @ tail"] assms(1)
    by (simp add: avc_header_def sps z)
  moreover have "slice_int ?b 13 (?n + 1) = Inr (sps @ [count])"
    using slice_int_append [of "tag @ ?sz" 13 "sps @ [count]" "?n + 1" "?pz @ pps @ tail"] assms(1)
    by (simp add: avc_header_def z)
  moreover have "size_field sc ?b (?n + 14) = Inr (int (length pps))"
    using size_field_bytes [OF assms(3), of "tag @ ?sz @ sps @ [count]" "length sps + 14" "pps @ tail"] assms(1)
    by (simp add: avc_header_def z add.commute)
  moreover have "byte_int ?b (?n + 16) = Inr p0"
    using byte_int_append [of "tag @ ?sz @ sps @ [count] @ ?pz" "?n + 16" p0 "ps @ tail"] assms(1)
    by (simp add: avc_header_def pps z)
  ultimately show ?thesis
    using assms(4,5) by (simp add: avc_config_def sps algebra_simps)
qed

lemma avc_header_dispatch:
  assumes "length tag = 11" and "tag ! 0 = 0x17" and "tag ! 1 = 0"
  shows "processVideoPacket L mk sc st (avc_header tag sps count pps tail) ts
    = avc_config L mk sc st (avc_header tag sps count pps tail)"
proof -
  have "byte_at (avc_header tag sps count pps tail) 0 = Inr 0x17" "byte_at (avc_header tag sps count pps tail) 1 = Inr 0"
    using assms by (simp_all add: byte_at_def avc_header_def nth_append)
  moreover have "drop_bit 4 (0x17 :: 8 word) = 1" "(0x17 :: 8 word) AND 0x0F = 7" by code_simp+
  ultimately show ?thesis by (simp add: processVideoPacket_def CODEC_ID_AVC_def Let_def)
qed

text \<open>
  C39. A sequence header with one SPS and one PPS whose sizes are read as they were written (below
  128 bytes where \<open>char\<close> is signed), whose SPS can be parsed and whose PPS is followed by at least
  one more byte, announces the size of its SPS and makes its SPS and PPS the configuration, each
  followed by the byte that comes next in the packet; the following key frame carries that
  configuration. (Without the byte the PPS is read past the packet, see \<open>avc_header_overrun\<close>.)
\<close>

theorem avc_header_configures:
  assumes "length tag = 11" and "tag ! 0 = 0x17" and "tag ! 1 = 0"
    and "small sc (length sps)" and "small sc (length pps)"
    and "h264_type L (hd sps) = H264Sps" and "h264_sps L (tl sps @ [count]) = Some (w, h)"
    and "length key = 9" and "key ! 0 = 0x17" and "key ! 1 = 1" and "idr \<noteq> []"
  shows "CaptureThread L mk sc [(False, Packet True (avc_header tag sps count pps (t # tail)) ts1),
                                (False, Packet True (key @ idr) ts2)] st
    = Inr ([Format ''H264'' w h, Encoded ((mk @ sps @ [count] @ mk @ pps @ [t]) @ mk @ idr) ts2 KeyFrame],
           st\<lparr>r_cfg := mk @ sps @ [count] @ mk @ pps @ [t]\<rparr>)"
proof -
  let ?b = "avc_header tag sps count pps (t # tail)" and ?st = "st\<lparr>r_cfg := mk @ sps @ [count] @ mk @ pps @ [t]\<rparr>"
  have "slice_int ?b (int (length sps) + 16) (int (length pps) + 1) = Inr (pps @ [t])"
    using slice_int_append [of "tag @ size_bytes (length sps) @ sps @ [count] @ size_bytes (length pps)"
        "int (length sps) + 16" "pps @ [t]" "int (length pps) + 1" tail] assms(1)
    by (simp add: avc_header_def size_bytes_def)
  then have 1: "processVideoPacket L mk sc st ?b ts1 = Inr ([Format ''H264'' w h], ?st)"
    using avc_config_header [OF assms(1,4,5,6,7)] avc_header_dispatch [OF assms(1-3)] by simp
  obtain i rest where idr: "idr = i # rest" using assms(11) by (cases idr) auto
  have "slice_int (key @ idr) 9 (int (length (key @ idr)) - 9) = Inr idr"
    using slice_int_append [of key 9 idr "int (length idr)" "[]"] assms(8) by simp
  moreover have "byte_int (key @ idr) 9 = Inr i" using byte_int_append [of key 9 i rest] assms(8) idr by simp
  moreover have "byte_at (key @ idr) 0 = Inr 0x17" "byte_at (key @ idr) 1 = Inr 1"
    using assms(8-10) by (simp_all add: byte_at_def nth_append)
  moreover have "drop_bit 4 (0x17 :: 8 word) = 1" "(0x17 :: 8 word) AND 0x0F = 7" by code_simp+
  ultimately have "processVideoPacket L mk sc ?st (key @ idr) ts2
      = Inr ([Encoded ((mk @ sps @ [count] @ mk @ pps @ [t]) @ mk @ idr) ts2 KeyFrame], ?st)"
    by (simp add: processVideoPacket_def CODEC_ID_AVC_def Let_def key_packet_def)
  with 1 show ?thesis by simp
qed

theorem avc_header_configures_witness:
  "CaptureThread demo_live [0, 0, 0, 1] True
     [(False, Packet True (avc_header [0x17, 0, 0, 0, 0, 1, 77, 0, 31, 255, 225] [7, 1, 2] 1 [8, 3] [0]) 5),
      (False, Packet True ([0x17, 1, 0, 0, 0, 0, 0, 0, 2] @ [5, 9]) 45)] \<lparr>r_cfg = [], r_stop = False\<rparr>
   = Inr ([Format ''H264'' 640 480,
           Encoded (([0, 0, 0, 1] @ [7, 1, 2] @ [1] @ [0, 0, 0, 1] @ [8, 3] @ [0]) @ [0, 0, 0, 1] @ [5, 9]) 45 KeyFrame],
          \<lparr>r_cfg = [], r_stop = False\<rparr>\<lparr>r_cfg := [0, 0, 0, 1] @ [7, 1, 2] @ [1] @ [0, 0, 0, 1] @ [8, 3] @ [0]\<rparr>)"
  by (rule avc_header_configures) (simp_all add: small_def demo_live_def)

text \<open>
  When the packet ends with its PPS, as the headers of common encoders do, the copy of the PPS
  reads one byte past the packet.
\<close>

theorem avc_header_overrun:
  assumes "length tag = 11" and "tag ! 0 = 0x17" and "tag ! 1 = 0"
    and "small sc (length sps)" and "small sc (length pps)"
    and "h264_type L (hd sps) = H264Sps" and "h264_sps L (tl sps @ [count]) = Some (w, h)"
  shows "processVideoPacket L mk sc st (avc_header tag sps count pps []) ts = Inl OutOfBounds"
proof -
  have "slice_int (avc_header tag sps count pps []) (int (length sps) + 16) (int (length pps) + 1) = Inl OutOfBounds"
    using assms(1) by (simp add: slice_int_def slice_def avc_header_def size_bytes_def nat_add_distrib)
  then show ?thesis
    using avc_config_header [OF assms(1,4,5,6,7)] avc_header_dispatch [OF assms(1-3)] by simp
qed

theorem avc_header_overrun_witness:
  "processVideoPacket demo_live [0, 0, 0, 1] True \<lparr>r_cfg = [], r_stop = False\<rparr>
     (avc_header [0x17, 0, 0, 0, 0, 1, 77, 0, 31, 255, 225] [7, 1, 2] 1 [8, 3] []) 5 = Inl OutOfBounds"
  by (rule avc_header_overrun) (simp_all add: small_def demo_live_def)

text \<open>Where \<open>char\<close> is signed, an SPS of 128 to 255 bytes has a negative size.\<close>

theorem avc_signed_size:
  assumes "length tag = 11" and "tag ! 0 = 0x17" and "tag ! 1 = 0"
    and "128 \<le> length sps" and "length sps < 256" and "h264_type L (hd sps) = H264Sps"
  shows "processVideoPacket L mk True st (avc_header tag sps count pps tail) ts = Inl Undefined"
proof -
  let ?b = "avc_header tag sps count pps tail"
  obtain s0 ss where sps: "sps = s0 # ss" using assms(4) by (cases sps) auto
  have "(int (length sps) - 128 + 256) mod 256 = int (length sps) - 128"
    using assms(4,5) unfolding mod_add_self2 by (intro mod_pos_pos_trivial) simp_all
  then have "sint (of_int (int (length sps)) :: 8 word) = int (length sps) - 256" by (subst int_word_sint) (simp add: add.commute)
  then have "size_field True ?b 11 = Inr (int (length sps) - 256)"
    using assms(1,4,5)
    by (simp add: size_field_def byte_int_def byte_at_def avc_header_def size_bytes_def nth_append char_val_def)
  moreover have "byte_int ?b 13 = Inr s0"
    using byte_int_append [of "tag @ size_bytes (length sps)" 13 s0] assms(1)
    by (simp add: avc_header_def sps size_bytes_def)
  ultimately show ?thesis
    using avc_header_dispatch [OF assms(1-3)] assms(5,6) by (simp add: avc_config_def slice_int_def sps)
qed

theorem avc_signed_size_witness:
  "processVideoPacket demo_live [0, 0, 0, 1] True \<lparr>r_cfg = [], r_stop = False\<rparr>
     (avc_header [0x17, 0, 0, 0, 0, 1, 77, 0, 31, 255, 225] (7 # replicate 199 1) 1 [8, 3] [0]) 5 = Inl Undefined"
  by (rule avc_signed_size) (simp_all add: demo_live_def)

end
