(* ===== verification/Spec2Isabelle.thy ===== *)
theory Spec2Isabelle
  imports Process_Life Peer_Sources Peer_Failures Lock_Order Session_Promise Peer_Events Media_Path Capture_Threads
    Live_Session Live_Audio Rtmp_Video
begin

text \<open>
  Verification of webrtc-streamer, a server that sends live media (cameras, screens, RTSP, RTMP,
  RTP and file streams) to browsers over WebRTC. A browser talks to it by HTTP or WebSocket: it
  asks for an offer or sends one, exchanges candidates, and hangs up.

  \<^bold>\<open>Parts of the program and how they interact.\<close> \<open>src/main.cpp\<close> reads the command line and a
  configuration file, creates the peer connection manager and starts the HTTP server on its
  table of functions. \<open>src/HttpServerRequestHandler.cpp\<close> hands every request to an entry of this
  table. \<open>src/PeerConnectionManager.cpp\<close> owns the observers of the peer connections and the
  streams that peers share; for a new stream it asks \<open>inc/CapturerFactory.h\<close> for a source,
  whose frames pass through \<open>inc/VideoScaler.h\<close>. The network sources
  (\<open>inc/livevideosource.h\<close>, \<open>inc/rtmpvideosource.h\<close>, \<open>inc/liveaudiosource.h\<close>) split what
  they receive into frames and post them to the decoder thread of \<open>inc/VideoDecoder.h\<close>; with
  the null codecs the encoded frames are sent on unchanged.

  \<^bold>\<open>Theories.\<close>
  \<^item> \<open>Prelude\<close>: failures (\<open>err\<close>, \<open>res\<close>), the members of the C++ standard library that the code
    uses, ordered maps with their interface locale. \<open>Json_Value\<close>: the values of jsoncpp.
  \<^item> \<open>Stream_Options\<close>: option strings, labels and the merge of options
    (\<open>getOptionValue\<close>, \<open>sanitizeLabel\<close>, parts of \<open>AddStreams\<close>). Round trip of options, what a
    label hides, when two streams share one.
  \<^item> \<open>Ice_Config\<close>: \<open>getServerIpFromClientIp\<close>, \<open>getIceServerFromUrl\<close>, \<open>getIceServers\<close>,
    \<open>OnIceCandidate\<close>. Round trip of URLs with credentials, choice of the address.
  \<^item> \<open>Capturer_Factory\<close>: which source a URL opens, and the device lists. The publish filter
    decides what can be opened; a listed device opens under its listed URL.
  \<^item> \<open>Video_Scaler\<close>: cropping and scaling. A crop stays inside its frame; frames and options of
    ordinary size make no arithmetic fail.
  \<^item> \<open>Peer_Manager\<close>: the state \<open>manager\<close> and every operation of the signalling API, with
    observers in an explicit store. \<open>Peer_Invariants\<close>: the invariant \<open>mgr_ok\<close> over the step
    relation \<open>api_step\<close>. \<open>Peer_Properties\<close>: hanging up. \<open>Peer_Streams\<close>: shared sources. \<open>Peer_Limits\<close>: the limit on the number of peers.
    \<open>Peer_Sessions\<close>: WHEP, waiting, and the sessions that outlive their observer.
    \<open>Peer_Stats\<close>: statistics and \<open>getPeerConnectionList\<close>, and that no operation follows a deleted
    observer. These theories speak of operations one after the other.
  \<^item> \<open>Peer_Concurrency\<close>: the same operations as threads that interleave at their locks; a thread
    that nothing interrupts does what the operation of \<open>Peer_Manager\<close> does. \<open>Peer_Races\<close>: over all
    interleavings every pointer is owned once, requests end and shared sources are not replaced;
    and the schedules on which the limit, a shared stream or an observer is lost.
    \<open>Peer_Serial\<close>: the limit holds when one request at a time creates a connection.
    \<open>Peer_Sources\<close>: where shared sources come from; the publish filter and the codecs.
    \<open>Peer_Failures\<close>: connections that fail while requests run; their observer does not stay
    registered. \<open>Lock_Order\<close>: the locks of every operation and callback, the blocking calls to the
    threads of WebRTC among them; no set of operations deadlocks, unless an audio device is opened
    while WebRTC waits in the other direction.
  \<^item> \<open>Session_Promise\<close>: the promise on the stack of a request, the callbacks that set it and the
    timeout that cancels them, as two interleaved threads; over all their schedules a request returns
    what the operations are defined with, or times out. \<open>Peer_Events\<close>: the sinks and channel observers that WebRTC holds
    pointers to.
  \<^item> \<open>Media_Path\<close>: the two factories of the manager's constructor, sources as tracks, the camera
    of the capture module, the reference count of the audio device module.
  \<^item> \<open>Http_Server\<close>: the table of functions, the request handler, the response it writes, the
    WebSocket handler, and the server as the step relation \<open>server_step\<close>. Every request about a
    session is answered; a response is read back as written.
  \<^item> \<open>Video_Decoder\<close>: the queue between the capture thread and the decoder thread as the step
    relation \<open>pipeline_step\<close>, which refines decoding in the order of posting; the choice of
    decoders; stopping.
  \<^item> \<open>Live_Video\<close>: H264, H265, JPEG and VP9 data of RTSP, RTP and file sources, compared with a
    reference definition of the access unit. \<open>Live_Audio\<close>: the sample queue and its segments.
    \<open>Rtmp_Video\<close>: the packets of RTMP. \<open>Null_Codec\<close>: the codecs that pass frames through.
    \<open>Local_Capture\<close>: V4L2, the pairing of cameras and sound cards, the desktop.
    \<open>Capture_Threads\<close>: creating and destroying a source while its capture thread runs, with an
    interface locale that the V4L2 and RTMP sources meet and desktop sources do not.
    \<open>Live_Session\<close>: which calls a live source makes on its client when failures are reported, from
    its constructor to its destructor.
  \<^item> \<open>Startup\<close>: from the command line to the manager, the server options and the addresses of
    the STUN and TURN servers. \<open>Process_Life\<close>: the declared types of the options, the embedded
    servers, and the process from its start over SIGINT to its end.
  \<^item> This theory: a property of the whole way of a key frame.

  \<^bold>\<open>Failures.\<close> An exception that leaves a function, a null pointer that is followed, an access
  outside a buffer and an overflow of \<open>int\<close> are values of \<open>err\<close>, and the operations return
  \<open>err + 'a\<close>. A theorem that a request is answered says that its result is \<open>Inr\<close>. Unsigned
  integers are words of their width.

  \<^bold>\<open>Parameters.\<close> WebRTC (\<open>webrtc\<close>, \<open>codec_env\<close>, \<open>live_env\<close>, \<open>audio_env\<close>), the capture modules
  (\<open>capture_env\<close>), civetweb and the JSON reader and writer (\<open>civet\<close>), and the network and the
  process (interfaces, name resolution, clock, file system, command line) are arguments of the
  definitions. What the theorems rely on is stated as a hypothesis, such as \<open>webrtc_laws\<close> for
  the labels of senders, and the witnesses discharge it for a concrete instance.

  \<^bold>\<open>Loops and waits.\<close> The wait of \<open>getAnswer\<close> for candidates sleeps at most five times and that
  of \<open>getStats\<close> at most nine, as in the code; the outcome of each look is an argument. The loop
  over the audio queue may not end and is a \<open>partial_function\<close>; the theorem
  \<open>drain_segments_ends\<close> says exactly when it does. All other loops are total functions. Rates are
  computed in \<open>double\<close>, modelled as rationals rounded to 53 bits.

  \<^bold>\<open>Concurrency.\<close> In \<open>Peer_Manager\<close> and the theories on it an operation of the manager is one
  step, with the thread of a failed connection interleaved. \<open>Peer_Concurrency\<close> splits \<open>hangUp\<close>,
  \<open>createOffer\<close> and \<open>getAnswer\<close> at their locks; what remains one step is what the code does under
  one lock, or without access to shared maps. The callback of a failed connection is a step of these
  runs and starts a thread of its own; \<open>setAnswer\<close>, \<open>addIceCandidate\<close> and the operations that only read hold the
  lock of the peers for one access and are evaluated in every state of the runs. \<open>Lock_Order\<close>
  looks at the locks alone. Threads of the other theories interleave at single
  statements (capture threads, promises) or at the operations of a queue (decoder thread).

  \<^bold>\<open>Not modelled.\<close> Log output; the insides of WebRTC, live555, librtmp, civetweb, jsoncpp and
  libyuv, and so the loop of the live555 environment and its clients, whose reports are arbitrary
  in \<open>Live_Session\<close>; branches for Windows and macOS; the memory
  model (an access to a shared variable is atomic, although \<open>m_stop\<close> is a plain \<open>bool\<close>); the
  traffic of the embedded STUN and TURN servers; the page in \<open>html\<close> and the build files.
\<close>

section \<open>A key frame from the network to the encoder\<close>

text \<open>
  C15. A key frame from the network to the encoder. An access unit with SPS, PPS and the slices of an
  IDR picture that a live555 session delivers is handed to the decoder thread as its format and
  one key frame; with the null codecs the encoder sends exactly the parameter sets followed by
  the slices.
\<close>

theorem rtsp_key_frame_end_to_end:
  assumes "consists_of L buf ((ConfigStart, Some (Format ''H264'' w h), sps) # (ConfigMore, None, pps) #
             map (\<lambda>s. (IdrSlice, None, s)) slices)"
    and "in_the_past (m_prevTimestamp st) ts ffmpeg = Inr False" and "slices \<noteq> []" and "\<forall>s \<in> set slices. s \<noteq> []"
    and "sf_name out = ''H264''"
  shows "\<exists>fs nd. onH264Data L st buf ts ''H264'' ffmpeg = Inr (fs, st\<lparr>m_cfg := sps @ pps\<rparr>) \<and>
    m_decoder (fold (handle_frame null_codec) fs init_decoder) = Some nd \<and>
    map (Encode (encoder_for out)) (nd_decoded nd)
      = [Inr (codec_ok, Some (passed_image (sps @ pps @ concat slices, ts, KeyFrame), specific_info out))]"
proof -
  let ?ns = "(ConfigStart, Some (Format ''H264'' w h), sps) # (ConfigMore, None, pps) # map (\<lambda>s. (IdrSlice, None, s)) slices"
  have c: "\<forall>ix \<in> set (h264_indices L buf). index_ok buf ix" "map (h264_classify L buf ''H264'') (h264_indices L buf) = ?ns"
    using assms(1) by (simp_all add: consists_of_def)
  have "\<forall>ix \<in> set (h264_indices L buf). h264_ok L buf ts (m_prevTimestamp st) ffmpeg ix"
    using c(1) assms(2) by (simp add: h264_ok_def)
  from onH264Data_units [OF this, of "''H264''"]
  have "onH264Data L st buf ts ''H264'' ffmpeg = Inr (access_unit ts (m_cfg st) ?ns, st\<lparr>m_cfg := config_after (m_cfg st) ?ns\<rparr>)"
    by (simp add: c(2))
  moreover have "config_after (m_cfg st) ?ns = sps @ pps"
    by (induction slices) simp_all
  moreover have "access_unit ts (m_cfg st) ?ns = Format ''H264'' w h # map (\<lambda>(b, ts, ty). Encoded b ts ty) [(sps @ pps @ concat slices, ts, KeyFrame)]"
    using assms(3) by (cases slices) (simp_all add: access_unit_def unit_posts_def idr_slices_def before_idr_def o_def)
  moreover have "sps @ pps @ concat slices \<noteq> []" using assms(3,4) by (cases slices) auto
  ultimately show ?thesis
    using null_stream [of "''H264''" "[(sps @ pps @ concat slices, ts, KeyFrame)]" out w h] assms(5) by fastforce
qed

theorem rtsp_key_frame_end_to_end_witness:
  "\<exists>fs nd. onH264Data demo_live demo_live_state ([0, 0, 1, 7] @ [0, 0, 1, 8] @ [0, 0, 1, 5] @ [0, 0, 1, 5]) 40 ''H264'' True
        = Inr (fs, demo_live_state\<lparr>m_cfg := [0, 0, 1, 7] @ [0, 0, 1, 8]\<rparr>) \<and>
    m_decoder (fold (handle_frame null_codec) fs init_decoder) = Some nd \<and>
    map (Encode (encoder_for demo_h264)) (nd_decoded nd)
      = [Inr (codec_ok, Some (passed_image ([0, 0, 1, 7] @ [0, 0, 1, 8] @ concat [[0, 0, 1, 5], [0, 0, 1, 5]], 40, KeyFrame),
                specific_info demo_h264))]"
proof (rule rtsp_key_frame_end_to_end)
  show "consists_of demo_live ([0, 0, 1, 7] @ [0, 0, 1, 8] @ [0, 0, 1, 5] @ [0, 0, 1, 5])
      ((ConfigStart, Some (Format ''H264'' 640 480), [0, 0, 1, 7]) # (ConfigMore, None, [0, 0, 1, 8]) #
       map (\<lambda>s. (IdrSlice, None, s)) [[0, 0, 1, 5], [0, 0, 1, 5]])"
    and "in_the_past (m_prevTimestamp demo_live_state) 40 True = Inr False"
    by code_simp+
qed (simp_all add: demo_h264_def)

end
